(* ===== verification/Lantalk_Prelude.thy ===== *)
theory Lantalk_Prelude imports Main "HOL-Library.Word" "HOL-Library.List_Lexorder" "HOL-Library.Char_ord" "HOL-Library.Sublist" begin

text \<open>
  What every component of LanTalk shares: the C++ integer and string types, the
  standard-library functions the sources call (\<open>std::to_string\<close>, \<open>std::stoi\<close>,
  \<open>std::stoll\<close>, \<open>std::stoul\<close>, \<open>std::string::find\<close>), the ordered map
  \<open>std::map<std::string, T>\<close> as a sorted association list, and the fact collections
  the component theories extend. The platform is LP64 Linux: \<open>int\<close> has 32 bits,
  \<open>long\<close>, \<open>unsigned long\<close> and \<open>long long\<close> have 64.
\<close>

unbundle bit_operations_syntax

named_theorems wire_simps \<open>evaluation of byte-level encoders and decoders\<close>
named_theorems text_simps \<open>evaluation of string scanning and number printing\<close>
named_theorems state_simps \<open>effect of the operations on the fields of the state\<close>

type_synonym u8 = "8 word"
type_synonym u16 = "16 word"
type_synonym u32 = "32 word"
type_synonym i32 = "32 word"
type_synonym i64 = "64 word"
type_synonym bytes = "u8 list"

section \<open>Characters\<close>

abbreviation ch_quote :: char where "ch_quote \<equiv> CHR 0x22"
abbreviation ch_bs :: char where "ch_bs \<equiv> CHR 0x5C"
abbreviation ch_sq :: char where "ch_sq \<equiv> CHR 0x27"
abbreviation ch_nl :: char where "ch_nl \<equiv> CHR 0x0A"
abbreviation ch_cr :: char where "ch_cr \<equiv> CHR 0x0D"
abbreviation ch_tab :: char where "ch_tab \<equiv> CHR 0x09"
abbreviation ch_nul :: char where "ch_nul \<equiv> CHR 0x00"

text \<open>A \<open>char\<close> seen as \<open>uint8_t\<close> and back, as the iterator copies between
  \<open>std::string\<close> and \<open>std::vector<uint8_t>\<close> do.\<close>

definition byte_of_char :: "char \<Rightarrow> u8" where
  "byte_of_char c = word_of_nat (of_char c)"

definition char_of_byte :: "u8 \<Rightarrow> char" where
  "char_of_byte b = char_of (unat b)"

definition string_to_bytes :: "string \<Rightarrow> bytes" where
  "string_to_bytes s = map byte_of_char s"

definition bytes_to_string :: "bytes \<Rightarrow> string" where
  "bytes_to_string bs = map char_of_byte bs"

lemma of_char_lt_256: "(of_char c :: nat) < 256"
  by simp

lemma char_of_byte_of_char [simp, wire_simps]: "char_of_byte (byte_of_char c) = c"
  by (simp add: char_of_byte_def byte_of_char_def unat_of_nat of_char_lt_256)

lemma byte_of_char_of_byte [simp, wire_simps]: "byte_of_char (char_of_byte b) = b"
proof -
  have "unat b < 256"
    by (rule order_less_le_trans [OF unsigned_less]) simp
  then show ?thesis by (simp add: char_of_byte_def byte_of_char_def)
qed

lemma bytes_to_string_to_bytes [simp, wire_simps]: "bytes_to_string (string_to_bytes s) = s"
  by (simp add: bytes_to_string_def string_to_bytes_def comp_def)

lemma string_to_bytes_to_string [simp, wire_simps]: "string_to_bytes (bytes_to_string bs) = bs"
  by (simp add: bytes_to_string_def string_to_bytes_def comp_def)

lemma length_string_to_bytes [simp]: "length (string_to_bytes s) = length s"
  by (simp add: string_to_bytes_def)

lemma length_bytes_to_string [simp]: "length (bytes_to_string bs) = length bs"
  by (simp add: bytes_to_string_def)

lemma bytes_to_string_append [simp]: "bytes_to_string (xs @ ys) = bytes_to_string xs @ bytes_to_string ys"
  by (simp add: bytes_to_string_def)

lemma string_to_bytes_append [simp]: "string_to_bytes (xs @ ys) = string_to_bytes xs @ string_to_bytes ys"
  by (simp add: string_to_bytes_def)

lemma bytes_to_string_eq_iff: "bytes_to_string xs = s \<longleftrightarrow> xs = string_to_bytes s"
  by (metis bytes_to_string_to_bytes string_to_bytes_to_string)

section \<open>Network byte order\<close>

text \<open>\<open>htonl\<close> then \<open>memcpy\<close>: the bytes of the value, most significant first;
  \<open>memcpy\<close> then \<open>ntohl\<close>: the value of those bytes.\<close>

definition be32 :: "u32 \<Rightarrow> bytes" where
  "be32 w = [ucast (drop_bit 24 w), ucast (drop_bit 16 w), ucast (drop_bit 8 w), ucast w]"

definition un_be32 :: "u8 \<Rightarrow> u8 \<Rightarrow> u8 \<Rightarrow> u8 \<Rightarrow> u32" where
  "un_be32 a b c d = push_bit 24 (ucast a) OR push_bit 16 (ucast b) OR push_bit 8 (ucast c) OR ucast d"

definition be16 :: "u16 \<Rightarrow> bytes" where
  "be16 w = [ucast (drop_bit 8 w), ucast w]"

definition un_be16 :: "u8 \<Rightarrow> u8 \<Rightarrow> u16" where
  "un_be16 a b = push_bit 8 (ucast a) OR ucast b"

lemma un_be32_be32 [simp, wire_simps]:
  "un_be32 (ucast (drop_bit 24 w)) (ucast (drop_bit 16 w)) (ucast (drop_bit 8 w)) (ucast w) = w"
proof (rule bit_word_eqI)
  fix n assume "n < LENGTH(32)"
  then consider "n < 8" | "8 \<le> n" "n < 16" | "16 \<le> n" "n < 24" | "24 \<le> n" "n < 32"
    by fastforce
  then show "bit (un_be32 (ucast (drop_bit 24 w)) (ucast (drop_bit 16 w)) (ucast (drop_bit 8 w))
      (ucast w)) n = bit w n"
    by cases (auto simp: un_be32_def bit_simps dest: bit_imp_le_length)
qed

lemma un_be16_be16 [simp, wire_simps]: "un_be16 (ucast (drop_bit 8 w)) (ucast w) = w"
  unfolding un_be16_def by (rule bit_word_eqI) (auto simp: bit_simps)

lemma bit_u8_beyond: "8 \<le> n \<Longrightarrow> \<not> bit (b :: u8) n"
  using bit_imp_le_length [of b n] by auto

lemma be32_un_be32 [simp, wire_simps]: "be32 (un_be32 a b c d) = [a, b, c, d]"
  unfolding be32_def un_be32_def
  by (auto intro!: bit_word_eqI simp: bit_simps bit_u8_beyond)

lemma be16_un_be16 [simp, wire_simps]: "be16 (un_be16 a b) = [a, b]"
  unfolding be16_def un_be16_def
  by (auto intro!: bit_word_eqI simp: bit_simps bit_u8_beyond)

lemma length_be32 [simp]: "length (be32 w) = 4"
  by (simp add: be32_def)

lemma length_be16 [simp]: "length (be16 w) = 2"
  by (simp add: be16_def)


section \<open>Numbers and text\<close>

text \<open>\<open>std::to_string\<close> of an unsigned and of a signed integer.\<close>

definition digit_char :: "nat \<Rightarrow> char" where
  "digit_char d = char_of (48 + d)"

fun nat_to_string :: "nat \<Rightarrow> string" where
  "nat_to_string n =
     (if n < 10 then [digit_char n] else nat_to_string (n div 10) @ [digit_char (n mod 10)])"

declare nat_to_string.simps [simp del]

text \<open>Lines, each ended by a newline.\<close>

definition unlines :: "string list \<Rightarrow> string" where
  "unlines ls = concat (map (\<lambda>l. l @ [ch_nl]) ls)"

definition int_to_string :: "int \<Rightarrow> string" where
  "int_to_string i = (if i < 0 then CHR ''-'' # nat_to_string (nat (- i)) else nat_to_string (nat i))"

text \<open>\<open>isspace\<close> and \<open>isdigit\<close> in the C locale.\<close>

definition is_space :: "char \<Rightarrow> bool" where
  "is_space c \<longleftrightarrow> c \<in> {CHR '' '', CHR 0x09, CHR 0x0A, CHR 0x0B, CHR 0x0C, CHR 0x0D}"

definition is_digit :: "char \<Rightarrow> bool" where
  "is_digit c \<longleftrightarrow> 48 \<le> (of_char c :: nat) \<and> (of_char c :: nat) \<le> 57"

definition digit_val :: "char \<Rightarrow> nat" where
  "digit_val c = of_char c - 48"

definition dec_val :: "string \<Rightarrow> nat" where
  "dec_val ds = foldl (\<lambda>n c. 10 * n + digit_val c) 0 ds"

text \<open>
  The common part of \<open>strtol\<close>, \<open>strtoll\<close> and \<open>strtoul\<close> in base 10: leading
  blanks, an optional sign, the longest run of digits. \<open>None\<close>: no digit, no conversion.
  Characters after the digits are ignored.
\<close>

definition strto_parse :: "string \<Rightarrow> (bool \<times> nat) option" where
  "strto_parse s =
     (let s1 = dropWhile is_space s;
          neg = (s1 \<noteq> [] \<and> hd s1 = CHR ''-'');
          s2 = (if s1 \<noteq> [] \<and> (hd s1 = CHR ''-'' \<or> hd s1 = CHR ''+'') then tl s1 else s1);
          ds = takeWhile is_digit s2
      in if ds = [] then None else Some (neg, dec_val ds))"

text \<open>The exceptions \<open>std::invalid_argument\<close> and \<open>std::out_of_range\<close>.\<close>

datatype conv_error = Invalid_argument | Out_of_range

definition signed_value :: "bool \<times> nat \<Rightarrow> int" where
  "signed_value p = (if fst p then - int (snd p) else int (snd p))"

definition stoi :: "string \<Rightarrow> conv_error + i32" where
  "stoi s = (case strto_parse s of None \<Rightarrow> Inl Invalid_argument
     | Some p \<Rightarrow> let v = signed_value p in
         if - (2 ^ 31) \<le> v \<and> v < 2 ^ 31 then Inr (word_of_int v) else Inl Out_of_range)"

definition stoll :: "string \<Rightarrow> conv_error + i64" where
  "stoll s = (case strto_parse s of None \<Rightarrow> Inl Invalid_argument
     | Some p \<Rightarrow> let v = signed_value p in
         if - (2 ^ 63) \<le> v \<and> v < 2 ^ 63 then Inr (word_of_int v) else Inl Out_of_range)"

text \<open>\<open>strtoul\<close> accepts a minus sign and negates the magnitude modulo \<open>2 ^ 64\<close>.\<close>

definition stoul :: "string \<Rightarrow> conv_error + 64 word" where
  "stoul s = (case strto_parse s of None \<Rightarrow> Inl Invalid_argument
     | Some p \<Rightarrow> if snd p < 2 ^ 64 then Inr (word_of_int (signed_value p)) else Inl Out_of_range)"

subsection \<open>Printing and parsing agree\<close>

lemma is_digit_digit_char [simp, text_simps]: "d < 10 \<Longrightarrow> is_digit (digit_char d)"
  by (simp add: is_digit_def digit_char_def of_char_of)

lemma digit_val_digit_char [simp, text_simps]: "d < 10 \<Longrightarrow> digit_val (digit_char d) = d"
  by (simp add: digit_val_def digit_char_def of_char_of)

lemma nat_to_string_nonempty [simp, text_simps]: "nat_to_string n \<noteq> []"
  by (subst nat_to_string.simps) simp

lemma nat_to_string_digits: "c \<in> set (nat_to_string n) \<Longrightarrow> is_digit c"
proof (induction n rule: nat_to_string.induct)
  case (1 n)
  then show ?case
    by (cases "n < 10") (auto simp: nat_to_string.simps [of n])
qed

lemma dec_val_snoc: "dec_val (ds @ [c]) = 10 * dec_val ds + digit_val c"
  by (simp add: dec_val_def)

lemma dec_val_nat_to_string [simp, text_simps]: "dec_val (nat_to_string n) = n"
proof (induction n rule: nat_to_string.induct)
  case (1 n)
  then show ?case
    by (cases "n < 10") (simp_all add: nat_to_string.simps [of n] dec_val_snoc, simp add: dec_val_def)
qed

lemma digit_not_space: "is_digit c \<Longrightarrow> \<not> is_space c"
  by (auto simp: is_digit_def is_space_def)

lemma digit_not_sign: "is_digit c \<Longrightarrow> c \<noteq> CHR ''-'' \<and> c \<noteq> CHR ''+''"
  by (auto simp: is_digit_def)

lemma takeWhile_digits_append:
  assumes "\<And>c. c \<in> set ds \<Longrightarrow> is_digit c" and "t = [] \<or> \<not> is_digit (hd t)"
  shows "takeWhile is_digit (ds @ t) = ds"
  using assms by (cases t) (auto simp: takeWhile_append)

text \<open>What the parser makes of a printed number, whatever non-digit follows it.\<close>

lemma strto_parse_nat:
  assumes "t = [] \<or> \<not> is_digit (hd t)"
  shows "strto_parse (nat_to_string n @ t) = Some (False, n)"
proof -
  obtain c ds where ds: "nat_to_string n = c # ds" by (cases "nat_to_string n") auto
  with nat_to_string_digits [of c n] have c: "is_digit c" by simp
  have "takeWhile is_digit (nat_to_string n @ t) = nat_to_string n"
    by (rule takeWhile_digits_append) (auto simp: assms intro: nat_to_string_digits)
  with c show ?thesis
    by (simp add: strto_parse_def ds digit_not_space digit_not_sign)
      (metis ds dec_val_nat_to_string)
qed

lemma strto_parse_int:
  assumes "t = [] \<or> \<not> is_digit (hd t)"
  shows "strto_parse (int_to_string i @ t) = Some (i < 0, nat \<bar>i\<bar>)"
proof (cases "i < 0")
  case True
  have "takeWhile is_digit (nat_to_string (nat (- i)) @ t) = nat_to_string (nat (- i))"
    by (rule takeWhile_digits_append) (auto simp: assms intro: nat_to_string_digits)
  with True show ?thesis
    by (simp add: strto_parse_def int_to_string_def is_space_def)
next
  case False
  then show ?thesis by (simp add: int_to_string_def strto_parse_nat assms)
qed

lemma signed_value_of_int [simp, text_simps]: "signed_value (i < 0, nat \<bar>i\<bar>) = i"
  by (simp add: signed_value_def)

lemma stoi_to_string [simp, text_simps]: "stoi (int_to_string (sint (w :: i32))) = Inr w"
  using strto_parse_int [of "[]" "sint w"] sint_lt [of w] sint_ge [of w]
  by (simp add: stoi_def)

lemma stoll_to_string:
  assumes "t = [] \<or> \<not> is_digit (hd t)"
  shows "stoll (int_to_string (sint (w :: i64)) @ t) = Inr w"
  using strto_parse_int [OF assms, of "sint w"] sint_lt [of w] sint_ge [of w]
  by (simp add: stoll_def)

lemma int_to_string_nat: "int_to_string (int n) = nat_to_string n"
  by (simp add: int_to_string_def)

lemma stoi_nat_to_string: "n < 2 ^ 31 \<Longrightarrow> stoi (nat_to_string n) = Inr (word_of_nat n)"
  using strto_parse_nat [of "[]" n] by (simp add: stoi_def signed_value_def)

lemma stoul_nat_to_string: "n < 2 ^ 64 \<Longrightarrow> stoul (nat_to_string n) = Inr (word_of_nat n)"
  using strto_parse_nat [of "[]" n] by (simp add: stoul_def signed_value_def)

lemma int_to_string_chars: "c \<in> set (int_to_string i) \<Longrightarrow> is_digit c \<or> c = CHR ''-''"
  by (auto simp: int_to_string_def split: if_splits dest: nat_to_string_digits)

lemma int_to_string_nonempty [simp, text_simps]: "int_to_string i \<noteq> []"
  by (simp add: int_to_string_def)

section \<open>std::string::find\<close>

text \<open>Index of the first occurrence of a pattern, \<open>None\<close> for \<open>npos\<close>.\<close>

fun str_find :: "string \<Rightarrow> string \<Rightarrow> nat option" where
  "str_find pat [] = (if pat = [] then Some 0 else None)"
| "str_find pat (c # cs) =
     (if prefix pat (c # cs) then Some 0 else map_option Suc (str_find pat cs))"

text \<open>What follows the first occurrence: \<open>s.substr(s.find(pat) + pat.size())\<close>.\<close>

fun str_after :: "string \<Rightarrow> string \<Rightarrow> string option" where
  "str_after pat [] = (if pat = [] then Some [] else None)"
| "str_after pat (c # cs) =
     (if prefix pat (c # cs) then Some (drop (length pat) (c # cs)) else str_after pat cs)"

lemma str_after_find:
  "str_after pat s = map_option (\<lambda>n. drop (n + length pat) s) (str_find pat s)"
  by (induction pat s rule: str_find.induct) (auto simp: option.map_comp comp_def)

lemma str_find_Some:
  "str_find pat s = Some n \<Longrightarrow> n + length pat \<le> length s \<and> take (length pat) (drop n s) = pat"
  by (induction pat s arbitrary: n rule: str_find.induct)
    (auto simp: prefix_def split: if_splits dest: arg_cong [where f = length])

lemma str_find_Some_le: "str_find pat s = Some n \<Longrightarrow> n + length pat \<le> length s"
  by (simp add: str_find_Some)

lemma str_find_char: "str_find [a] s = (if a \<in> set s then Some (length (takeWhile (\<lambda>c. c \<noteq> a) s)) else None)"
  by (induction s) auto

section \<open>Sequencing results\<close>

text \<open>The next step of a computation that may have failed: an \<open>Inl\<close> is passed on.\<close>

definition andThen :: "'e + 'a \<Rightarrow> ('a \<Rightarrow> 'e + 'b) \<Rightarrow> 'e + 'b" where
  "andThen r f = (case r of Inl e \<Rightarrow> Inl e | Inr x \<Rightarrow> f x)"

lemma andThen_simps [simp]: "andThen (Inl e) f = Inl e" "andThen (Inr x) f = f x"
  by (simp_all add: andThen_def)

lemma andThen_Inr: "andThen r f = Inr y \<longleftrightarrow> (\<exists>x. r = Inr x \<and> f x = Inr y)"
  by (cases r) auto

text \<open>Reads through a pointer into a buffer: one byte, and a range. Reading past the end is an
  error of the model, so that a theorem can say that the code never does.\<close>

datatype memory_error = Out_of_bounds

definition rd :: "bytes \<Rightarrow> nat \<Rightarrow> memory_error + u8" where
  "rd d i = (if i < length d then Inr (d ! i) else Inl Out_of_bounds)"

definition rd_range :: "bytes \<Rightarrow> nat \<Rightarrow> nat \<Rightarrow> memory_error + bytes" where
  "rd_range d i n = (if i + n \<le> length d then Inr (take n (drop i d)) else Inl Out_of_bounds)"

section \<open>Threads that come to an end\<close>

text \<open>A thread among others: its own actions lead it to its end, those of other threads do not
  set it back. \<open>left\<close> bounds the turns it still needs; \<open>fair\<close> is what must hold for that.\<close>

locale ending_thread =
  fixes act :: "'a \<Rightarrow> 's \<Rightarrow> 's" and own :: "'a \<Rightarrow> bool" and ended :: "'s \<Rightarrow> bool"
    and left :: "'s \<Rightarrow> nat" and fair :: "'s \<Rightarrow> bool"
  assumes fair_act: "fair s \<Longrightarrow> fair (act a s)"
    and own_act: "fair s \<Longrightarrow> own a \<Longrightarrow> \<not> ended s \<Longrightarrow> left (act a s) < left s"
    and other_act: "fair s \<Longrightarrow> left (act a s) \<le> left s"
    and left_0: "fair s \<Longrightarrow> left s = 0 \<longleftrightarrow> ended s"
begin

lemma left_after: "fair s \<Longrightarrow> left (fold act as s) \<le> left s - length (filter own as)"
proof (induction as arbitrary: s)
  case (Cons a as)
  have "left (act a s) \<le> left s - (if own a then 1 else 0)"
    using Cons.prems own_act [of s a] other_act [of s a] left_0 [of s] by (cases "ended s") auto
  with Cons.IH [OF fair_act [OF Cons.prems], of a] show ?case by auto
qed simp

lemma ends: "fair s \<Longrightarrow> left s \<le> length (filter own as) \<Longrightarrow> ended (fold act as s)"
proof -
  assume s: "fair s" "left s \<le> length (filter own as)"
  have "fair (fold act as s)" using s(1) by (induction as arbitrary: s) (simp_all add: fair_act)
  moreover have "left (fold act as s) = 0" using left_after [OF s(1), of as] s(2) by simp
  ultimately show "ended (fold act as s)" by (simp add: left_0)
qed

end

end
