(* ===== verification/Protocol.thy ===== *)
theory Protocol imports Lantalk_Prelude begin

text \<open>
  Frames of the wire protocol (\<open>src/network/protocol.hpp\<close>, \<open>protocol.cpp\<close>):
  message types and their byte codes, the 12-byte frame header with its serialiser and
  deserialiser, and whole frames. The incremental reader is in \<open>Frame_Reader\<close>. The
  locale \<open>wire_codec\<close> states what a decoder owes its encoder; it is interpreted here
  on the header and, in their own theories, on the other encodings of the program.
\<close>

section \<open>Constants and message types\<close>

definition kProtocolMagic :: u32 where "kProtocolMagic = 0x4C544C41"
definition kProtocolVersion :: u8 where "kProtocolVersion = 1"
definition kFrameHeaderSize :: nat where "kFrameHeaderSize = 12"
definition kMaxPayloadSize :: nat where "kMaxPayloadSize = 65536"

datatype message_type = HELLO | AUTH_REQUEST | AUTH_RESPONSE | AUTH_OK | AUTH_FAIL
  | CHAT_MESSAGE | CHAT_RECEIPT | PING | PONG | PEER_LIST | DISCONNECT | ERROR_MSG
  | FILE_OFFER | FILE_ACCEPT | FILE_CHUNK | FILE_COMPLETE | UNKNOWN

text \<open>The enumerators' values, \<open>static_cast<uint8_t>(type)\<close>.\<close>

fun message_type_byte :: "message_type \<Rightarrow> u8" where
  "message_type_byte HELLO = 0x01"
| "message_type_byte AUTH_REQUEST = 0x02"
| "message_type_byte AUTH_RESPONSE = 0x03"
| "message_type_byte AUTH_OK = 0x04"
| "message_type_byte AUTH_FAIL = 0x05"
| "message_type_byte CHAT_MESSAGE = 0x10"
| "message_type_byte CHAT_RECEIPT = 0x11"
| "message_type_byte PING = 0x20"
| "message_type_byte PONG = 0x21"
| "message_type_byte PEER_LIST = 0x30"
| "message_type_byte DISCONNECT = 0x40"
| "message_type_byte ERROR_MSG = 0x50"
| "message_type_byte FILE_OFFER = 0x60"
| "message_type_byte FILE_ACCEPT = 0x61"
| "message_type_byte FILE_CHUNK = 0x62"
| "message_type_byte FILE_COMPLETE = 0x63"
| "message_type_byte UNKNOWN = 0xFF"

fun messageTypeName :: "message_type \<Rightarrow> string" where
  "messageTypeName HELLO = ''HELLO''"
| "messageTypeName AUTH_REQUEST = ''AUTH_REQUEST''"
| "messageTypeName AUTH_RESPONSE = ''AUTH_RESPONSE''"
| "messageTypeName AUTH_OK = ''AUTH_OK''"
| "messageTypeName AUTH_FAIL = ''AUTH_FAIL''"
| "messageTypeName CHAT_MESSAGE = ''CHAT_MESSAGE''"
| "messageTypeName CHAT_RECEIPT = ''CHAT_RECEIPT''"
| "messageTypeName PING = ''PING''"
| "messageTypeName PONG = ''PONG''"
| "messageTypeName PEER_LIST = ''PEER_LIST''"
| "messageTypeName DISCONNECT = ''DISCONNECT''"
| "messageTypeName ERROR_MSG = ''ERROR_MSG''"
| "messageTypeName FILE_OFFER = ''FILE_OFFER''"
| "messageTypeName FILE_ACCEPT = ''FILE_ACCEPT''"
| "messageTypeName FILE_CHUNK = ''FILE_CHUNK''"
| "messageTypeName FILE_COMPLETE = ''FILE_COMPLETE''"
| "messageTypeName UNKNOWN = ''UNKNOWN''"

definition messageTypeFromByte :: "u8 \<Rightarrow> message_type" where
  "messageTypeFromByte b =
     (if b = 0x01 then HELLO
      else if b = 0x02 then AUTH_REQUEST
      else if b = 0x03 then AUTH_RESPONSE
      else if b = 0x04 then AUTH_OK
      else if b = 0x05 then AUTH_FAIL
      else if b = 0x10 then CHAT_MESSAGE
      else if b = 0x11 then CHAT_RECEIPT
      else if b = 0x20 then PING
      else if b = 0x21 then PONG
      else if b = 0x30 then PEER_LIST
      else if b = 0x40 then DISCONNECT
      else if b = 0x50 then ERROR_MSG
      else if b = 0x60 then FILE_OFFER
      else if b = 0x61 then FILE_ACCEPT
      else if b = 0x62 then FILE_CHUNK
      else if b = 0x63 then FILE_COMPLETE
      else UNKNOWN)"

section \<open>Headers\<close>

record frame_header =
  magic :: u32
  version :: u8
  htype :: message_type
  payloadLength :: u32
  flags :: u16
  reserved :: u16

text \<open>The default member initialisers of \<open>FrameHeader\<close>.\<close>

definition default_header :: frame_header where
  "default_header = \<lparr>magic = kProtocolMagic, version = kProtocolVersion, htype = UNKNOWN,
     payloadLength = 0, flags = 0, reserved = 0\<rparr>"

text \<open>\<open>FrameHeader::serialize\<close>: magic at 0, version at 4, type at 5, length at 6,
  flags at 10; \<open>reserved\<close> is not written.\<close>

definition serialize_header :: "frame_header \<Rightarrow> bytes" where
  "serialize_header h =
     be32 (magic h) @ [version h, message_type_byte (htype h)] @ be32 (payloadLength h) @ be16 (flags h)"

text \<open>\<open>FrameHeader::deserialize(data, len)\<close> on the \<open>len\<close> bytes of \<open>data\<close>.\<close>

definition deserialize_header :: "bytes \<Rightarrow> frame_header option" where
  "deserialize_header d =
     (if length d < kFrameHeaderSize then None
      else let m = un_be32 (d ! 0) (d ! 1) (d ! 2) (d ! 3) in
        if m \<noteq> kProtocolMagic then None
        else let v = d ! 4 in
          if v \<noteq> kProtocolVersion then None
          else Some (default_header\<lparr>magic := m, version := v,
            htype := messageTypeFromByte (d ! 5),
            payloadLength := un_be32 (d ! 6) (d ! 7) (d ! 8) (d ! 9),
            flags := un_be16 (d ! 10) (d ! 11)\<rparr>))"

section \<open>Frames\<close>

record frame =
  header :: frame_header
  payload :: bytes

text \<open>\<open>Frame::create\<close>, both overloads; the length field is the size cut to 32 bits.\<close>

definition create_frame :: "message_type \<Rightarrow> bytes \<Rightarrow> frame" where
  "create_frame t p =
     \<lparr>header = default_header\<lparr>htype := t, payloadLength := word_of_nat (length p)\<rparr>, payload = p\<rparr>"

definition create_frame_str :: "message_type \<Rightarrow> string \<Rightarrow> frame" where
  "create_frame_str t json = create_frame t (string_to_bytes json)"

definition serialize_frame :: "frame \<Rightarrow> bytes" where
  "serialize_frame f = serialize_header (header f) @ payload f"

definition payloadAsString :: "frame \<Rightarrow> string" where
  "payloadAsString f = bytes_to_string (payload f)"

section \<open>Encoders and their decoders\<close>

locale wire_codec =
  fixes enc :: "'a \<Rightarrow> 'b"
    and dec :: "'b \<Rightarrow> 'a option"
    and wf :: "'a \<Rightarrow> bool"
  assumes dec_enc: "wf x \<Longrightarrow> dec (enc x) = Some x"
begin

lemma enc_inject: "wf x \<Longrightarrow> wf y \<Longrightarrow> enc x = enc y \<longleftrightarrow> x = y"
  using dec_enc by (metis option.inject)

lemma enc_inj_on: "inj_on enc {x. wf x}"
  by (auto simp: inj_on_def enc_inject)

lemma dec_unique: "wf x \<Longrightarrow> dec (enc x) = Some y \<Longrightarrow> y = x"
  by (simp add: dec_enc)

lemma dec_total: "wf x \<Longrightarrow> dec (enc x) \<noteq> None"
  by (simp add: dec_enc)

end

subsection \<open>Message types\<close>

lemma messageTypeFromByte_byte [simp, wire_simps]: "messageTypeFromByte (message_type_byte t) = t"
  by (cases t) (simp_all add: messageTypeFromByte_def)

interpretation type_codec: wire_codec message_type_byte "\<lambda>b. Some (messageTypeFromByte b)" "\<lambda>_. True"
  by unfold_locales simp

lemma messageTypeName_inject: "messageTypeName s = messageTypeName t \<longleftrightarrow> s = t"
  by (cases s; cases t) simp_all

lemma message_type_byte_FromByte:
  "message_type_byte (messageTypeFromByte b) = b \<longleftrightarrow> messageTypeFromByte b \<noteq> UNKNOWN \<or> b = 0xFF"
  by (simp add: messageTypeFromByte_def)

subsection \<open>Headers\<close>

definition header_ok :: "frame_header \<Rightarrow> bool" where
  "header_ok h \<longleftrightarrow> magic h = kProtocolMagic \<and> version h = kProtocolVersion \<and> reserved h = 0"

lemma length_serialize_header [simp]: "length (serialize_header h) = kFrameHeaderSize"
  by (simp add: serialize_header_def kFrameHeaderSize_def)

lemma deserialize_serialize_any:
  assumes "magic h = kProtocolMagic" and "version h = kProtocolVersion"
  shows "deserialize_header (serialize_header h @ rest) = Some (h\<lparr>reserved := 0\<rparr>)"
  using assms
  by (simp add: deserialize_header_def serialize_header_def default_header_def be32_def be16_def
      kFrameHeaderSize_def Let_def nth_append)

lemma deserialize_serialize: "header_ok h \<Longrightarrow> deserialize_header (serialize_header h) = Some h"
  using deserialize_serialize_any [of h "[]"] by (simp add: header_ok_def)

interpretation header_codec: wire_codec serialize_header deserialize_header header_ok
  by unfold_locales (rule deserialize_serialize)

lemma deserialize_header_ok: "deserialize_header d = Some h \<Longrightarrow> header_ok h"
  by (auto simp: deserialize_header_def header_ok_def default_header_def Let_def split: if_splits)

lemma un_be32_eq_iff: "un_be32 a b c d = w \<longleftrightarrow> be32 w = [a, b, c, d]"
proof
  show "be32 w = [a, b, c, d]" if "un_be32 a b c d = w"
    using that by (simp flip: that)
  show "un_be32 a b c d = w" if "be32 w = [a, b, c, d]"
    using that un_be32_be32 [of w] by (simp add: be32_def)
qed

lemma take4_nth: "4 \<le> length d \<Longrightarrow> take 4 d = [d ! 0, d ! 1, d ! 2, d ! 3]"
  by (cases "d = []") (simp_all add: take_Suc_conv_app_nth numeral_eq_Suc)

lemma take12_nth:
  assumes "12 \<le> length d"
  shows "take 12 d = [d ! 0, d ! 1, d ! 2, d ! 3, d ! 4, d ! 5, d ! 6, d ! 7, d ! 8, d ! 9, d ! 10, d ! 11]"
proof -
  from assms have "take (Suc 0) d = [d ! 0]" by (cases d) simp_all
  with assms show ?thesis by (simp add: take_Suc_conv_app_nth numeral_eq_Suc)
qed

text \<open>What the deserialiser rejects, and what it accepts re-encoded.\<close>

lemma deserialize_header_None:
  "deserialize_header d = None \<longleftrightarrow>
     length d < 12 \<or> take 4 d \<noteq> be32 kProtocolMagic \<or> d ! 4 \<noteq> kProtocolVersion"
  by (auto simp: deserialize_header_def kFrameHeaderSize_def Let_def un_be32_eq_iff take4_nth)

lemma serialize_deserialize:
  assumes "deserialize_header d = Some h"
  shows "serialize_header h = take 5 d @ [message_type_byte (messageTypeFromByte (d ! 5))] @ take 6 (drop 6 d)"
proof -
  from assms have len: "12 \<le> length d"
    by (auto simp: deserialize_header_def kFrameHeaderSize_def split: if_splits)
  from take12_nth [OF this] have *: "take 5 d = [d ! 0, d ! 1, d ! 2, d ! 3, d ! 4]"
    "take 6 (drop 6 d) = [d ! 6, d ! 7, d ! 8, d ! 9, d ! 10, d ! 11]"
    using len by (simp_all add: take_Suc_conv_app_nth numeral_eq_Suc)
  from assms show ?thesis
    unfolding *
    by (auto simp: deserialize_header_def serialize_header_def default_header_def Let_def
        un_be32_eq_iff split: if_splits)
qed

subsection \<open>Frames\<close>

text \<open>A frame as \<open>Frame::create\<close> builds it: header and payload agree.\<close>

definition frame_ok :: "frame \<Rightarrow> bool" where
  "frame_ok f \<longleftrightarrow> header_ok (header f) \<and> unat (payloadLength (header f)) = length (payload f)"

lemma length_serialize_frame [simp]: "length (serialize_frame f) = kFrameHeaderSize + length (payload f)"
  by (simp add: serialize_frame_def)

lemma serialize_frame_nonempty [simp]: "serialize_frame f \<noteq> []"
  using length_serialize_frame [of f] by (auto simp: kFrameHeaderSize_def simp del: length_serialize_frame)

lemma create_frame_ok: "length p < 2 ^ 32 \<Longrightarrow> frame_ok (create_frame t p)"
  by (simp add: frame_ok_def header_ok_def create_frame_def default_header_def unat_of_nat)

lemma create_frame_fields [simp]:
  "htype (header (create_frame t p)) = t" "payload (create_frame t p) = p"
  "htype (header (create_frame_str t s)) = t" "payloadAsString (create_frame_str t s) = s"
  by (simp_all add: create_frame_def create_frame_str_def payloadAsString_def)

section \<open>Properties\<close>

lemma be32_inject: "be32 v = be32 w \<longleftrightarrow> v = w"
proof
  assume "be32 v = be32 w"
  moreover obtain a b c d where "be32 w = [a, b, c, d]" by (simp add: be32_def)
  ultimately show "v = w" by (metis un_be32_eq_iff)
qed simp

text \<open>Serialising a header and reading the bytes back gives the header, with the reserved
  field zero since it is not transmitted, and nothing when its magic or version is not the
  protocol's.\<close>

theorem header_roundtrip:
  "deserialize_header (serialize_header h) =
    (if magic h = kProtocolMagic \<and> version h = kProtocolVersion then Some (h\<lparr>reserved := 0\<rparr>) else None)"
proof (cases "magic h = kProtocolMagic \<and> version h = kProtocolVersion")
  case True
  then show ?thesis using deserialize_serialize_any [of h "[]"] by simp
next
  case False
  have "take 4 (serialize_header h) = be32 (magic h)" "serialize_header h ! 4 = version h"
    by (simp_all add: serialize_header_def be32_def)
  with False show ?thesis unfolding if_not_P [OF False] deserialize_header_None by (auto simp: be32_inject)
qed

text \<open>A header is accepted exactly when there are at least 12 bytes, the first four are the
  magic and the fifth is the version; no length, type or flag is rejected.\<close>

theorem header_accepted:
  "deserialize_header d \<noteq> None \<longleftrightarrow>
    12 \<le> length d \<and> take 4 d = be32 kProtocolMagic \<and> d ! 4 = kProtocolVersion"
  by (auto simp: deserialize_header_None)

end
