(* ===== verification/Identifiers.thy ===== *)
theory Identifiers imports Protocol begin

text \<open>
  Hexadecimal printing and the identifiers made of random bytes: \<open>bytesToHex\<close>,
  \<open>Crypto::randomBytes\<close> and \<open>Crypto::generateUUID\<close> (\<open>src/security/crypto.cpp\<close>),
  \<open>Config::generateUUID\<close> (\<open>src/config/config.cpp\<close>), \<open>ChatMessage::generateId\<close>
  (\<open>src/chat/message.cpp\<close>) and \<open>ChatSession::makeConnId\<close>
  (\<open>src/chat/chat_session.cpp\<close>). OpenSSL's \<open>RAND_bytes\<close> is a parameter: its result
  is \<open>Some\<close> of the bytes it filled in or \<open>None\<close> when it fails. The three UUID printers
  are written three ways and shown to print the same string.
\<close>

section \<open>Hexadecimal\<close>

definition hex_digit :: "nat \<Rightarrow> char" where
  "hex_digit n = (if n < 10 then char_of (48 + n) else char_of (87 + n))"

text \<open>\<open>std::hex\<close> with \<open>setfill('0')\<close> and \<open>setw(2)\<close>; also \<open>%02x\<close> of \<open>snprintf\<close>.\<close>

definition byte_hex :: "u8 \<Rightarrow> string" where
  "byte_hex b = [hex_digit (unat b div 16), hex_digit (unat b mod 16)]"

definition bytesToHex :: "bytes \<Rightarrow> string" where
  "bytesToHex bs = concat (map byte_hex bs)"

section \<open>Random identifiers\<close>

text \<open>The version and variant bits: \<open>bytes[6] = (bytes[6] & 0x0f) | 0x40\<close> and
  \<open>bytes[8] = (bytes[8] & 0x3f) | 0x80\<close>.\<close>

definition uuid_bits :: "bytes \<Rightarrow> bytes" where
  "uuid_bits b = b[6 := (b ! 6 AND 0x0F) OR 0x40, 8 := (b ! 8 AND 0x3F) OR 0x80]"

text \<open>\<open>Config::generateUUID\<close>: a dash after bytes 3, 5, 7 and 9.\<close>

definition config_generateUUID :: "bytes option \<Rightarrow> string" where
  "config_generateUUID rnd = (case rnd of
     None \<Rightarrow> ''00000000-0000-0000-0000-000000000000''
   | Some b0 \<Rightarrow> let b = uuid_bits b0 in
       concat (map (\<lambda>i. byte_hex (b ! i) @ (if i = 3 \<or> i = 5 \<or> i = 7 \<or> i = 9 then ''-'' else ''''))
         [0..<16]))"

text \<open>\<open>Crypto::randomBytes\<close> throws when \<open>RAND_bytes\<close> fails.\<close>

datatype crypto_error = Random_failed | Hmac_failed | Digest_failed

fun crypto_error_what :: "crypto_error \<Rightarrow> string" where
  "crypto_error_what Random_failed = ''Failed to generate random bytes''"
| "crypto_error_what Hmac_failed = ''Failed to compute HMAC''"
| "crypto_error_what Digest_failed = ''Failed to compute SHA256''"

definition randomBytes :: "bytes option \<Rightarrow> crypto_error + bytes" where
  "randomBytes rnd = (case rnd of None \<Rightarrow> Inl Random_failed | Some b \<Rightarrow> Inr b)"

text \<open>\<open>Crypto::generateUUID\<close>: a dash before bytes 4, 6, 8 and 10.\<close>

definition crypto_generateUUID :: "bytes option \<Rightarrow> crypto_error + string" where
  "crypto_generateUUID rnd = (case randomBytes rnd of
     Inl e \<Rightarrow> Inl e
   | Inr b0 \<Rightarrow> let b = uuid_bits b0 in
       Inr (concat (map (\<lambda>i. (if i = 4 \<or> i = 6 \<or> i = 8 \<or> i = 10 then ''-'' else '''') @ byte_hex (b ! i))
         [0..<16])))"

text \<open>\<open>ChatMessage::generateId\<close>: one format string; empty when \<open>RAND_bytes\<close> fails.\<close>

definition generateId :: "bytes option \<Rightarrow> string" where
  "generateId rnd = (case rnd of
     None \<Rightarrow> ''''
   | Some b0 \<Rightarrow> let b = uuid_bits b0 in
       byte_hex (b ! 0) @ byte_hex (b ! 1) @ byte_hex (b ! 2) @ byte_hex (b ! 3) @ ''-'' @
       byte_hex (b ! 4) @ byte_hex (b ! 5) @ ''-'' @
       byte_hex (b ! 6) @ byte_hex (b ! 7) @ ''-'' @
       byte_hex (b ! 8) @ byte_hex (b ! 9) @ ''-'' @
       byte_hex (b ! 10) @ byte_hex (b ! 11) @ byte_hex (b ! 12) @ byte_hex (b ! 13) @
       byte_hex (b ! 14) @ byte_hex (b ! 15))"

text \<open>\<open>ChatSession::makeConnId\<close>: eight bytes in hex, or \<open>"conn"\<close> and the tick count
  of the steady clock when \<open>RAND_bytes\<close> fails.\<close>

definition makeConnId :: "bytes option \<Rightarrow> int \<Rightarrow> string" where
  "makeConnId rnd ts = (case rnd of
     None \<Rightarrow> ''conn'' @ int_to_string ts
   | Some b \<Rightarrow> byte_hex (b ! 0) @ byte_hex (b ! 1) @ byte_hex (b ! 2) @ byte_hex (b ! 3) @
       byte_hex (b ! 4) @ byte_hex (b ! 5) @ byte_hex (b ! 6) @ byte_hex (b ! 7))"

section \<open>Facts\<close>

definition is_hex_digit :: "char \<Rightarrow> bool" where
  "is_hex_digit c \<longleftrightarrow> c \<in> set ''0123456789abcdef''"

lemma hex_digit_cases:
  assumes "n < 16"
  shows "hex_digit n = ''0123456789abcdef'' ! n"
proof -
  have "list_all (\<lambda>i. hex_digit i = ''0123456789abcdef'' ! i) [0..<16]" by code_simp
  with assms show ?thesis by (simp add: list_all_iff)
qed

lemma hex_digit_is_hex: "n < 16 \<Longrightarrow> is_hex_digit (hex_digit n)"
  unfolding is_hex_digit_def by (subst hex_digit_cases, assumption, rule nth_mem) simp

lemma hex_digit_inject: "m < 16 \<Longrightarrow> n < 16 \<Longrightarrow> hex_digit m = hex_digit n \<longleftrightarrow> m = n"
  by (auto simp: hex_digit_def dest: arg_cong [where f = "of_char :: char \<Rightarrow> nat"])

lemma length_byte_hex [simp]: "length (byte_hex b) = 2"
  by (simp add: byte_hex_def)

lemma byte_hex_nonempty [simp]: "byte_hex b \<noteq> []"
  by (simp add: byte_hex_def)

lemma unat_u8_lt: "unat (b :: u8) < 256"
  by (rule order_less_le_trans [OF unsigned_less]) simp

lemma byte_hex_inject [simp]: "byte_hex a = byte_hex b \<longleftrightarrow> a = b"
proof
  assume "byte_hex a = byte_hex b"
  then have "unat a div 16 = unat b div 16" and "unat a mod 16 = unat b mod 16"
    using unat_u8_lt [of a] unat_u8_lt [of b]
    by (simp_all add: byte_hex_def hex_digit_inject less_mult_imp_div_less)
  then have "unat a = unat b" by (metis div_mult_mod_eq)
  then show "a = b" by (simp add: unsigned_word_eqI)
qed simp

lemma byte_hex_chars: "c \<in> set (byte_hex b) \<Longrightarrow> is_hex_digit c"
  using unat_u8_lt [of b] by (auto simp: byte_hex_def intro!: hex_digit_is_hex)

lemma length_bytesToHex: "length (bytesToHex bs) = 2 * length bs"
  by (induction bs) (simp_all add: bytesToHex_def)

lemma bytesToHex_chars: "c \<in> set (bytesToHex bs) \<Longrightarrow> is_hex_digit c"
  by (auto simp: bytesToHex_def dest: byte_hex_chars)

lemma bytesToHex_inject: "bytesToHex as = bytesToHex bs \<longleftrightarrow> as = bs"
proof (induction as arbitrary: bs)
  case Nil
  then show ?case by (cases bs) (simp_all add: bytesToHex_def)
next
  case (Cons a as)
  then show ?case by (cases bs) (simp_all add: bytesToHex_def)
qed

section \<open>The UUIDs\<close>

lemma uuid_bits_id: "length b = 16 \<Longrightarrow> length (uuid_bits b) = 16"
  by (simp add: uuid_bits_def)

lemma upt_16: "[0..<16] = (let r = 0 # 1 # map ((+) 2) [0, 1, 2, 3, 4, 5] in r @ map ((+) 8) r)"
  by code_simp

lemma config_generateUUID_Some: "config_generateUUID (Some b) = generateId (Some b)"
  by (simp add: config_generateUUID_def generateId_def Let_def upt_16)

lemma crypto_generateUUID_Some: "crypto_generateUUID (Some b) = Inr (generateId (Some b))"
  by (simp add: crypto_generateUUID_def randomBytes_def generateId_def Let_def upt_16)

text \<open>The format of a version 4 UUID, position by position.\<close>

definition is_uuid_v4 :: "string \<Rightarrow> bool" where
  "is_uuid_v4 s \<longleftrightarrow>
     list_all2 (\<lambda>i c. if i = 8 \<or> i = 13 \<or> i = 18 \<or> i = 23 then c = CHR ''-'' else is_hex_digit c) [0..<36] s \<and>
     s ! 14 = CHR ''4'' \<and> s ! 19 \<in> set ''89ab''"

lemma upt_36: "[0..<36] = (let r = [0..<12] in r @ map ((+) 12) r @ map ((+) 24) r)"
  by code_simp

lemma upt_12: "[0..<12] = 0 # 1 # map ((+) 2) (0 # 1 # map ((+) 2) (0 # 1 # map ((+) 2) (0 # 1 # [2, 3, 4, 5])))"
  by code_simp

lemma u8_bits_eqI:
  assumes "bit a 0 = bit b 0" "bit a 1 = bit b 1" "bit a 2 = bit b 2" "bit a 3 = bit b 3"
    "bit a 4 = bit b 4" "bit a 5 = bit b 5" "bit a 6 = bit b 6" "bit a 7 = bit b 7"
  shows "a = (b :: u8)"
proof (rule bit_word_eqI)
  fix n assume "n < LENGTH(8)"
  then have "n \<in> set [0..<8]" by simp
  moreover have "[0..<8] = [0, 1, 2, 3, 4, 5, 6, 7]" by code_simp
  ultimately have "n \<in> set [0, 1, 2, 3, 4, 5, 6, 7]" by (simp only:)
  with assms show "bit a n = bit b n" by auto
qed

lemma unat_drop_bit_u8: "unat (drop_bit n (x :: u8)) = unat x div 2 ^ n"
  unfolding unat_drop_bit_eq by (rule drop_bit_eq_div)

lemma version_nibble: "unat ((b AND 0x0F) OR (0x40 :: u8)) div 16 = 4"
proof -
  have "drop_bit 4 ((b AND 0x0F) OR (0x40 :: u8)) = 4"
    by (rule u8_bits_eqI) (simp_all add: bit_simps)
  then have "unat (drop_bit 4 ((b AND 0x0F) OR (0x40 :: u8))) = unat (4 :: u8)" by (rule arg_cong)
  then show ?thesis unfolding unat_drop_bit_u8 by simp
qed

lemma variant_nibble: "unat ((b AND 0x3F) OR (0x80 :: u8)) div 16 \<in> {8, 9, 10, 11}"
proof -
  have "drop_bit 6 ((b AND 0x3F) OR (0x80 :: u8)) = 2"
    by (rule u8_bits_eqI) (simp_all add: bit_simps)
  then have "unat (drop_bit 6 ((b AND 0x3F) OR (0x80 :: u8))) = unat (2 :: u8)" by (rule arg_cong)
  then have "unat ((b AND 0x3F) OR (0x80 :: u8)) div 64 = 2" unfolding unat_drop_bit_u8 by simp
  then show ?thesis by auto
qed

lemma byte_hex_split: "byte_hex b = [hex_digit (unat b div 16), hex_digit (unat b mod 16)]"
  by (simp add: byte_hex_def)

lemma hex_nibbles [simp]: "is_hex_digit (hex_digit (unat (b :: u8) div 16))" "is_hex_digit (hex_digit (unat b mod 16))"
  using unat_u8_lt [of b] by (auto intro: hex_digit_is_hex)

lemma generateId_uuid: 
  assumes "length b = 16"
  shows "is_uuid_v4 (generateId (Some b))"
proof -
  have "hex_digit 4 = CHR ''4''" "is_hex_digit CHR ''4''"
    by (simp_all add: hex_digit_cases is_hex_digit_def)
  moreover have "hex_digit n \<in> set ''89ab''" if "n \<in> {8, 9, 10, 11}" for n
    using that by (auto simp: hex_digit_cases)
  ultimately show ?thesis
    using assms version_nibble [of "b ! 6"] variant_nibble [of "b ! 8"]
    by (simp add: is_uuid_v4_def upt_36 upt_12 generateId_def Let_def byte_hex_split uuid_bits_def)
qed

section \<open>Properties\<close>

text \<open>The three UUID printers of the program, written separately, agree on the same random
  bytes, and what they print from 16 bytes has the format of a version 4 UUID: hexadecimal digits
  and dashes in their places, the version digit 4, the variant digit 8, 9, a or b.\<close>

theorem uuid_printers_agree:
  assumes "length b = 16"
  shows "config_generateUUID (Some b) = generateId (Some b) \<and> crypto_generateUUID (Some b) = Inr (generateId (Some b)) \<and>
    is_uuid_v4 (generateId (Some b))"
  using assms by (simp add: config_generateUUID_Some crypto_generateUUID_Some generateId_uuid)

theorem uuid_printers_agree_witness:
  "config_generateUUID (Some (replicate 16 0xAB)) = ''abababab-abab-4bab-abab-abababababab'' \<and>
    is_uuid_v4 (generateId (Some (replicate 16 0xAB)))"
proof -
  have "generateId (Some (replicate 16 0xAB)) = ''abababab-abab-4bab-abab-abababababab''" by code_simp
  with uuid_printers_agree [of "replicate 16 0xAB"] show ?thesis by simp
qed

end
