(* ===== verification/Json_Text.thy ===== *)
theory Json_Text imports Identifiers begin

text \<open>
  The hand-written JSON text handling that LanTalk has three times over: the escaper,
  unescaper and extractors of \<open>src/chat/message.cpp\<close>, the escaper and extractor of
  \<open>src/chat/chat_session.cpp\<close>, and the builder and extractor of
  \<open>src/security/authentication.cpp\<close>. The locale \<open>escaper\<close> states what the scanners
  need of an escaper; both escapers interpret it.
\<close>

section \<open>Patterns\<close>

text \<open>\<open>"\"" + key + "\":\""\<close> and \<open>"\"" + key + "\":"\<close>.\<close>

definition str_pat :: "string \<Rightarrow> string" where
  "str_pat key = [ch_quote] @ key @ [ch_quote, CHR '':'', ch_quote]"

definition int_pat :: "string \<Rightarrow> string" where
  "int_pat key = [ch_quote] @ key @ [ch_quote, CHR '':'']"

section \<open>message.cpp\<close>

definition escape_char :: "char \<Rightarrow> string" where
  "escape_char c =
     (if c = ch_quote then [ch_bs, ch_quote]
      else if c = ch_bs then [ch_bs, ch_bs]
      else if c = ch_nl then [ch_bs, CHR ''n'']
      else if c = ch_cr then [ch_bs, CHR ''r'']
      else if c = ch_tab then [ch_bs, CHR ''t'']
      else [c])"

definition escapeJson :: "string \<Rightarrow> string" where
  "escapeJson s = concat (map escape_char s)"

definition unescape_char :: "char \<Rightarrow> char" where
  "unescape_char c =
     (if c = ch_quote then ch_quote
      else if c = ch_bs then ch_bs
      else if c = CHR ''n'' then ch_nl
      else if c = CHR ''r'' then ch_cr
      else if c = CHR ''t'' then ch_tab
      else c)"

text \<open>The loop of \<open>unescapeJson\<close>: a backslash takes the next character with it, unless
  it is the last one.\<close>

fun unescapeJson :: "string \<Rightarrow> string" where
  "unescapeJson [] = []"
| "unescapeJson [c] = [c]"
| "unescapeJson (c # d # cs) =
     (if c = ch_bs then unescape_char d # unescapeJson cs else c # unescapeJson (d # cs))"

text \<open>The loop \<open>while (end < json.length())\<close>: it stops at a quote whose preceding
  character is not a backslash.\<close>

function scan_end :: "string \<Rightarrow> nat \<Rightarrow> nat" where
  "scan_end json e =
     (if e < length json then
        (if json ! e = ch_quote \<and> (e = 0 \<or> json ! (e - 1) \<noteq> ch_bs) then e
         else scan_end json (Suc e))
      else e)"
  by pat_completeness auto
termination
  by (relation "measure (\<lambda>(json, e). length json - e)") auto

declare scan_end.simps [simp del]

definition extractJsonString :: "string \<Rightarrow> string \<Rightarrow> string" where
  "extractJsonString json key =
     (case str_find (str_pat key) json of
        None \<Rightarrow> ''''
      | Some p \<Rightarrow>
          let pos = p + length (str_pat key); e = scan_end json pos
          in unescapeJson (take (e - pos) (drop pos json)))"

text \<open>\<open>extractJsonInt\<close>: the run of digits and minus signs, given to \<open>std::stoll\<close>;
  0 when the key is missing or the conversion throws.\<close>

definition extractJsonInt :: "string \<Rightarrow> string \<Rightarrow> i64" where
  "extractJsonInt json key =
     (case str_find (int_pat key) json of
        None \<Rightarrow> 0
      | Some p \<Rightarrow>
          let pos = p + length (int_pat key);
              run = takeWhile (\<lambda>c. is_digit c \<or> c = CHR ''-'') (drop pos json)
          in case stoll run of Inl _ \<Rightarrow> 0 | Inr v \<Rightarrow> v)"

section \<open>chat\_session.cpp\<close>

text \<open>\<open>jsonEscape\<close>: control characters become \<open>\u00XX\<close>.\<close>

definition jsonEscape_char :: "char \<Rightarrow> string" where
  "jsonEscape_char c =
     (if c = ch_quote then [ch_bs, ch_quote]
      else if c = ch_bs then [ch_bs, ch_bs]
      else if c = ch_nl then [ch_bs, CHR ''n'']
      else if c = ch_cr then [ch_bs, CHR ''r'']
      else if c = ch_tab then [ch_bs, CHR ''t'']
      else if (of_char c :: nat) < 0x20 then
        [ch_bs, CHR ''u'', CHR ''0'', CHR ''0'', hex_digit (of_char c div 16), hex_digit (of_char c mod 16)]
      else [c])"

definition jsonEscape :: "string \<Rightarrow> string" where
  "jsonEscape s = concat (map jsonEscape_char s)"

definition jsonStr :: "string \<Rightarrow> string \<Rightarrow> string" where
  "jsonStr key value =
     [ch_quote] @ jsonEscape key @ [ch_quote, CHR '':'', ch_quote] @ jsonEscape value @ [ch_quote]"

text \<open>The loop of \<open>extractStr\<close>; \<open>\u\<close> is not decoded.\<close>

fun session_scan :: "string \<Rightarrow> string" where
  "session_scan [] = []"
| "session_scan [c] = (if c = ch_quote then [] else [c])"
| "session_scan (c # d # cs) =
     (if c = ch_bs then unescape_char d # session_scan cs
      else if c = ch_quote then []
      else c # session_scan (d # cs))"

definition session_extractStr :: "string \<Rightarrow> string \<Rightarrow> string" where
  "session_extractStr json key =
     (case str_find (str_pat key) json of
        None \<Rightarrow> ''''
      | Some p \<Rightarrow> session_scan (drop (p + length (str_pat key)) json))"

section \<open>authentication.cpp\<close>

text \<open>\<open>buildJson\<close>: up to three pairs, an empty second or third key is left out, nothing
  is escaped.\<close>

definition buildJson :: "(string \<times> string) \<Rightarrow> (string \<times> string) \<Rightarrow> (string \<times> string) \<Rightarrow> string" where
  "buildJson p1 p2 p3 =
     ''{'' @ str_pat (fst p1) @ snd p1 @ [ch_quote]
     @ (if fst p2 \<noteq> '''' then '','' @ str_pat (fst p2) @ snd p2 @ [ch_quote] else '''')
     @ (if fst p3 \<noteq> '''' then '','' @ str_pat (fst p3) @ snd p3 @ [ch_quote] else '''')
     @ ''}''"

text \<open>Its \<open>extractStr\<close>: a backslash that is not last is skipped, the next character is
  taken as it is.\<close>

fun auth_scan :: "string \<Rightarrow> string" where
  "auth_scan [] = []"
| "auth_scan [c] = (if c = ch_quote then [] else [c])"
| "auth_scan (c # d # cs) =
     (if c = ch_quote then []
      else if c = ch_bs then d # auth_scan cs
      else c # auth_scan (d # cs))"

definition auth_extractStr :: "string \<Rightarrow> string \<Rightarrow> string" where
  "auth_extractStr json key =
     (case str_find (str_pat key) json of
        None \<Rightarrow> ''''
      | Some p \<Rightarrow> auth_scan (drop (p + length (str_pat key)) json))"

section \<open>What the scanners need of an escaper\<close>

definition plain :: "string \<Rightarrow> bool" where
  "plain s \<longleftrightarrow> ch_quote \<notin> set s \<and> ch_bs \<notin> set s"

text \<open>Every quote stands behind a backslash that is not itself escaped.\<close>

fun guarded :: "string \<Rightarrow> bool" where
  "guarded [] = True"
| "guarded [c] = (c \<noteq> ch_quote \<and> c \<noteq> ch_bs)"
| "guarded (c # d # cs) = (if c = ch_bs then guarded cs else c \<noteq> ch_quote \<and> guarded (d # cs))"

lemma guarded_append: "guarded u \<Longrightarrow> guarded v \<Longrightarrow> guarded (u @ v)"
proof (induction u rule: guarded.induct)
  case (2 c)
  then show ?case by (cases v) auto
qed (auto split: if_splits)

lemma plain_guarded: "plain s \<Longrightarrow> guarded s"
  by (induction s rule: guarded.induct) (auto simp: plain_def)

lemma guarded_concat: "(\<And>c. guarded (f c)) \<Longrightarrow> guarded (concat (map f s))"
  by (induction s) (auto intro: guarded_append)

text \<open>A closing quote and what follows it in the JSON text: not a colon.\<close>

definition closes :: "string \<Rightarrow> bool" where
  "closes t \<longleftrightarrow> (\<exists>d t'. t = ch_quote # d # t' \<and> d \<noteq> CHR '':'')"

lemma closesI: "d \<noteq> CHR '':'' \<Longrightarrow> closes (ch_quote # d # t)"
  by (simp add: closes_def)

lemma key_not_inside:
  assumes "plain key" and "closes t" and "guarded u"
  shows "\<not> prefix (key @ ch_quote # CHR '':'' # tl1) (u @ t)"
  using assms
proof (induction key arbitrary: u)
  case Nil
  then show ?case by (cases u rule: guarded.cases) (auto simp: closes_def split: if_splits)
next
  case (Cons k ks)
  then have "plain ks" "k \<noteq> ch_quote" "k \<noteq> ch_bs" by (auto simp: plain_def)
  show ?case
  proof (cases u rule: guarded.cases)
    case 1
    with Cons.prems \<open>k \<noteq> ch_quote\<close> show ?thesis by (auto simp: closes_def)
  next
    case (2 c)
    with Cons.IH [of "[]"] Cons.prems \<open>plain ks\<close> show ?thesis by simp
  next
    case (3 c d cs)
    with Cons.IH [of "d # cs"] Cons.prems \<open>plain ks\<close> \<open>k \<noteq> ch_bs\<close> show ?thesis
      by (auto split: if_splits)
  qed
qed

text \<open>A key is never found inside an escaped value.\<close>

lemma str_after_step: "c \<noteq> a \<Longrightarrow> str_after (a # p) (c # s) = str_after (a # p) s"
  by simp

lemma str_after_skip_guarded:
  assumes "plain key" and "closes t" and "guarded u"
  shows "str_after (ch_quote # key @ ch_quote # CHR '':'' # tl1) (u @ t) =
    str_after (ch_quote # key @ ch_quote # CHR '':'' # tl1) t"
  using assms(3)
proof (induction u rule: guarded.induct)
  case (3 c d cs)
  show ?case
  proof (cases "c = ch_bs")
    case True
    with 3 key_not_inside [OF assms(1,2), of cs tl1] show ?thesis by auto
  next
    case False
    with 3 have "c \<noteq> ch_quote" and "guarded (d # cs)" by auto
    with 3(2) [OF False] show ?thesis by (metis append_Cons str_after_step)
  qed
qed auto

lemma str_after_skip_plain:
  "ch_quote \<notin> set u \<Longrightarrow> str_after (ch_quote # p) (u @ t) = str_after (ch_quote # p) t"
  by (induction u) auto

locale escaper =
  fixes esc :: "string \<Rightarrow> string"
  assumes esc_guarded: "guarded (esc s)"
begin

lemma find_past_value:
  "plain key \<Longrightarrow> closes t \<Longrightarrow>
   str_after (ch_quote # key @ ch_quote # CHR '':'' # tl1) (esc s @ t) =
   str_after (ch_quote # key @ ch_quote # CHR '':'' # tl1) t"
  by (simp add: str_after_skip_guarded esc_guarded)

lemma str_pat_past_value:
  "plain key \<Longrightarrow> closes t \<Longrightarrow> str_after (str_pat key) (esc s @ t) = str_after (str_pat key) t"
  using find_past_value [of key t "[ch_quote]" s] by (simp add: str_pat_def)

lemma int_pat_past_value:
  "plain key \<Longrightarrow> closes t \<Longrightarrow> str_after (int_pat key) (esc s @ t) = str_after (int_pat key) t"
  using find_past_value [of key t "[]" s] by (simp add: int_pat_def)

end

lemma guarded_escape_char: "guarded (escape_char c)"
  by (simp add: escape_char_def)

lemma hex_digit_special:
  assumes "n < 16"
  shows "hex_digit n \<noteq> ch_quote" "hex_digit n \<noteq> ch_bs"
proof -
  have "is_hex_digit (hex_digit n)" using assms by (rule hex_digit_is_hex)
  then show "hex_digit n \<noteq> ch_quote" "hex_digit n \<noteq> ch_bs"
    by (auto simp: is_hex_digit_def)
qed

lemma guarded_jsonEscape_char: "guarded (jsonEscape_char c)"
  by (simp add: jsonEscape_char_def hex_digit_special)

interpretation msg_esc: escaper escapeJson
  by unfold_locales (simp add: escapeJson_def guarded_concat guarded_escape_char)

interpretation session_esc: escaper jsonEscape
  by unfold_locales (simp add: jsonEscape_def guarded_concat guarded_jsonEscape_char)

section \<open>Reading values back\<close>

text \<open>The index loop of \<open>extractJsonString\<close> as a recursion on the rest of the text,
  with the character before it.\<close>

fun scan_val :: "char \<Rightarrow> string \<Rightarrow> string" where
  "scan_val prev [] = []"
| "scan_val prev (c # cs) = (if c = ch_quote \<and> prev \<noteq> ch_bs then [] else c # scan_val c cs)"

lemma scan_end_ge: "e \<le> scan_end json e"
proof (induction json e rule: scan_end.induct)
  case (1 json e)
  then show ?case by (subst scan_end.simps) auto
qed

lemma scan_end_val:
  "0 < e \<Longrightarrow> take (scan_end json e - e) (drop e json) = scan_val (json ! (e - 1)) (drop e json)"
proof (induction json e rule: scan_end.induct)
  case (1 json e)
  show ?case
  proof (cases "e < length json")
    case True
    then have d: "drop e json = json ! e # drop (Suc e) json" by (simp add: Cons_nth_drop_Suc)
    show ?thesis
    proof (cases "json ! e = ch_quote \<and> json ! (e - 1) \<noteq> ch_bs")
      case True
      with \<open>e < length json\<close> show ?thesis by (subst scan_end.simps) (simp add: d)
    next
      case False
      with \<open>e < length json\<close> "1.prems" have se: "scan_end json e = scan_end json (Suc e)"
        by (subst scan_end.simps) auto
      with scan_end_ge [of "Suc e" json] have "scan_end json e - e = Suc (scan_end json (Suc e) - Suc e)"
        by simp
      with False "1.IH" [OF True] "1.prems" show ?thesis by (auto simp: d)
    qed
  next
    case False
    then show ?thesis by (subst scan_end.simps) simp
  qed
qed

lemma str_find_prev:
  assumes "str_find (str_pat key) json = Some p"
  shows "json ! (p + length (str_pat key) - 1) = ch_quote"
proof -
  let ?pre = "[ch_quote] @ key @ [ch_quote, CHR '':'']"
  from str_find_Some [OF assms] obtain r where "drop p json = str_pat key @ r" and "p \<le> length json"
    by (metis add_leD1 append_take_drop_id)
  then have "json = take p json @ ?pre @ ch_quote # r"
    by (metis append.assoc append_Cons append_Nil append_take_drop_id str_pat_def)
  moreover have "p + length (str_pat key) - 1 = length (take p json @ ?pre)"
    using \<open>p \<le> length json\<close> by (simp add: str_pat_def)
  ultimately show ?thesis by (metis append.assoc nth_append_length)
qed

lemma extractJsonString_eq:
  "extractJsonString json key =
    (case str_after (str_pat key) json of None \<Rightarrow> '''' | Some r \<Rightarrow> unescapeJson (scan_val ch_quote r))"
proof (cases "str_find (str_pat key) json")
  case None
  then show ?thesis by (simp add: extractJsonString_def str_after_find)
next
  case (Some p)
  have "0 < length (str_pat key)" by (simp add: str_pat_def)
  with Some show ?thesis
    using scan_end_val [of "p + length (str_pat key)" json] str_find_prev [OF Some]
    by (simp add: extractJsonString_def str_after_find Let_def)
qed

lemma extractJsonInt_eq:
  "extractJsonInt json key =
    (case str_after (int_pat key) json of None \<Rightarrow> 0
     | Some r \<Rightarrow> case stoll (takeWhile (\<lambda>c. is_digit c \<or> c = CHR ''-'') r) of Inl _ \<Rightarrow> 0 | Inr v \<Rightarrow> v)"
  by (simp add: extractJsonInt_def str_after_find Let_def split: option.split)

lemma session_extractStr_eq:
  "session_extractStr json key =
    (case str_after (str_pat key) json of None \<Rightarrow> '''' | Some r \<Rightarrow> session_scan r)"
  by (simp add: session_extractStr_def str_after_find split: option.split)

lemma auth_extractStr_eq:
  "auth_extractStr json key =
    (case str_after (str_pat key) json of None \<Rightarrow> '''' | Some r \<Rightarrow> auth_scan r)"
  by (simp add: auth_extractStr_def str_after_find split: option.split)

lemma guarded_hd: "guarded (c # cs) \<Longrightarrow> c \<noteq> ch_quote"
  by (cases cs) (auto split: if_splits)

lemma scan_val_guarded:
  "guarded u \<Longrightarrow> scan_val prev (u @ r) = u @ scan_val (if u = [] then prev else last u) r"
  by (induction u arbitrary: prev rule: guarded.induct) (auto split: if_splits dest: guarded_hd)

lemma unescape_escape_char: "unescapeJson (escape_char c @ r) = c # unescapeJson r"
proof (cases "c = ch_bs")
  case False
  then show ?thesis by (cases r) (auto simp: escape_char_def unescape_char_def)
qed (simp add: escape_char_def unescape_char_def)

lemma unescape_escape_append: "unescapeJson (escapeJson s @ r) = s @ unescapeJson r"
  by (induction s) (simp_all add: escapeJson_def unescape_escape_char)

lemma unescape_escape: "unescapeJson (escapeJson s) = s"
  using unescape_escape_append [of s "[]"] by simp

interpretation json_text: wire_codec escapeJson "\<lambda>t. Some (unescapeJson t)" "\<lambda>_. True"
  by unfold_locales (simp add: unescape_escape)

lemma escapeJson_empty [simp]: "escapeJson [] = []"
  by (simp add: escapeJson_def)

lemma escapeJson_Nil [simp]: "escapeJson s = [] \<longleftrightarrow> s = []"
  by (cases s) (auto simp: escapeJson_def escape_char_def)

lemma last_escapeJson: "s \<noteq> [] \<Longrightarrow> last (escapeJson s) = ch_bs \<longleftrightarrow> last s = ch_bs"
  by (induction s rule: rev_induct) (auto simp: escapeJson_def escape_char_def)

section \<open>Flat objects\<close>

text \<open>A key of the program: no quote, no backslash, and it starts like no separator.\<close>

definition key_ok :: "string \<Rightarrow> bool" where
  "key_ok k \<longleftrightarrow> plain k \<and> k \<noteq> [] \<and> hd k \<notin> {CHR '':'', CHR '','', CHR ''}''}"

abbreviation any_pat :: "string \<Rightarrow> string \<Rightarrow> string" where
  "any_pat k tl1 \<equiv> ch_quote # k @ ch_quote # CHR '':'' # tl1"

lemma str_pat_any: "str_pat k = any_pat k [ch_quote]"
  by (simp add: str_pat_def)

lemma int_pat_any: "int_pat k = any_pat k []"
  by (simp add: int_pat_def)

lemma plain_prefix_eq:
  "plain k \<Longrightarrow> plain k' \<Longrightarrow> prefix (k @ ch_quote # u) (k' @ ch_quote # v) \<Longrightarrow> k = k'"
proof (induction k arbitrary: k')
  case Nil
  then show ?case by (cases k') (auto simp: plain_def)
next
  case (Cons a k)
  then show ?case by (cases k') (auto simp: plain_def)
qed

lemma after_key_other:
  assumes "key_ok k" and "plain k'" and "k \<noteq> k'"
  shows "str_after (any_pat k tl1) (ch_quote # k' @ ch_quote # CHR '':'' # v) = str_after (any_pat k tl1) v"
proof -
  from assms have "\<not> prefix (k @ ch_quote # CHR '':'' # tl1) (k' @ ch_quote # CHR '':'' # v)"
    using plain_prefix_eq unfolding key_ok_def by blast
  then have "str_after (any_pat k tl1) (ch_quote # k' @ ch_quote # CHR '':'' # v) =
      str_after (any_pat k tl1) (k' @ ch_quote # CHR '':'' # v)"
    by simp
  also have "\<dots> = str_after (any_pat k tl1) (ch_quote # CHR '':'' # v)"
    using assms(2) by (intro str_after_skip_plain) (simp add: plain_def)
  also have "\<dots> = str_after (any_pat k tl1) v"
    using assms(1) by (cases k) (auto simp: key_ok_def)
  finally show ?thesis .
qed

lemma after_close:
  assumes "key_ok k" and "d \<in> {CHR '','', CHR ''}''}"
  shows "str_after (any_pat k tl1) (ch_quote # d # v) = str_after (any_pat k tl1) v"
  using assms by (cases k) (auto simp: key_ok_def)

lemma after_char: "c \<noteq> ch_quote \<Longrightarrow> str_after (any_pat k tl1) (c # v) = str_after (any_pat k tl1) v"
  by simp

lemma after_here: "str_after (any_pat k tl1) (any_pat k tl1 @ v) = Some v"
  by (simp add: drop_append)

context escaper begin

lemma after_value:
  assumes "key_ok k" and "closes t"
  shows "str_after (any_pat k tl1) (ch_quote # esc s @ t) = str_after (any_pat k tl1) t"
proof -
  from assms have "\<not> prefix (k @ ch_quote # CHR '':'' # tl1) (esc s @ t)"
    by (intro key_not_inside) (simp_all add: key_ok_def esc_guarded)
  then have "str_after (any_pat k tl1) (ch_quote # esc s @ t) = str_after (any_pat k tl1) (esc s @ t)"
    by simp
  with assms show ?thesis by (simp add: find_past_value key_ok_def)
qed

text \<open>A string member with another key is passed over whatever its value; the member with
  the key sought yields its value text and what follows.\<close>

lemma after_member:
  assumes "key_ok k" and "plain k'" and "k \<noteq> k'" and "d \<in> {CHR '','', CHR ''}''}"
  shows "str_after (any_pat k tl1) (str_pat k' @ esc s @ ch_quote # d # v) = str_after (any_pat k tl1) v"
proof -
  have "closes (ch_quote # d # v)" using assms(4) by (auto simp: closes_def)
  then have "str_after (any_pat k tl1) (ch_quote # esc s @ ch_quote # d # v) = str_after (any_pat k tl1) v"
    using assms by (simp only: after_value after_close)
  with after_key_other [OF assms(1-3), of tl1 "ch_quote # esc s @ ch_quote # d # v"]
  show ?thesis by (simp only: str_pat_def append_Cons append_Nil append_assoc)
qed

lemma member_skip_str:
  "key_ok k \<Longrightarrow> plain k' \<Longrightarrow> k \<noteq> k' \<Longrightarrow> d \<in> {CHR '','', CHR ''}''} \<Longrightarrow>
   str_after (str_pat k) (str_pat k' @ esc s @ ch_quote # d # v) = str_after (str_pat k) v"
  unfolding str_pat_any [of k] by (rule after_member)

lemma member_skip_int:
  "key_ok k \<Longrightarrow> plain k' \<Longrightarrow> k \<noteq> k' \<Longrightarrow> d \<in> {CHR '','', CHR ''}''} \<Longrightarrow>
   str_after (int_pat k) (str_pat k' @ esc s @ ch_quote # d # v) = str_after (int_pat k) v"
  unfolding int_pat_any [of k] by (rule after_member)

lemma at_member: "str_after (str_pat k) (str_pat k @ esc s @ v) = Some (esc s @ v)"
  using after_here [of k "[ch_quote]" "esc s @ v"] by (simp only: str_pat_any)

end

lemma number_no_quote: "ch_quote \<notin> set (int_to_string i)"
  using int_to_string_chars [of ch_quote i] by (auto simp: is_digit_def)

lemma number_skip_str:
  assumes "key_ok k" and "plain k'" and "k \<noteq> k'" and "d \<noteq> ch_quote"
  shows "str_after (str_pat k) (int_pat k' @ int_to_string i @ d # v) = str_after (str_pat k) v"
proof -
  have "str_after (any_pat k [ch_quote]) (ch_quote # k' @ ch_quote # CHR '':'' # int_to_string i @ d # v) =
      str_after (any_pat k [ch_quote]) (int_to_string i @ d # v)"
    using assms by (intro after_key_other)
  also have "\<dots> = str_after (any_pat k [ch_quote]) (d # v)"
    by (rule str_after_skip_plain) (rule number_no_quote)
  also have "\<dots> = str_after (any_pat k [ch_quote]) v" using assms(4) by (rule after_char)
  finally show ?thesis by (simp only: str_pat_any int_pat_def append_Cons append_Nil append_assoc)
qed

lemma number_at: "str_after (int_pat k) (int_pat k @ v) = Some v"
  using after_here [of k "[]" v] by (simp only: int_pat_any)

lemma char_skip_str: "c \<noteq> ch_quote \<Longrightarrow> str_after (str_pat k) (c # v) = str_after (str_pat k) v"
  by (simp add: str_pat_def)

lemma char_skip_int: "c \<noteq> ch_quote \<Longrightarrow> str_after (int_pat k) (c # v) = str_after (int_pat k) v"
  by (simp add: int_pat_def)

lemmas walk_object = number_skip_str number_at char_skip_str char_skip_int

end
