(* ===== verification/Message.thy ===== *)
theory Message imports Json_Text begin

text \<open>
  Chat messages (\<open>src/chat/message.hpp\<close>, \<open>message.cpp\<close>): the structure, its JSON
  form, and the line shown to the user. \<open>localtime\<close> is a parameter (hour, minute and
  second of a timestamp in the user's time zone); random bytes and the clock are arguments
  of the operations that draw on them.
\<close>

record chat_message =
  msgId :: string
  senderId :: string
  senderName :: string
  timestampUtc :: i64
  msgText :: string

definition toJson :: "chat_message \<Rightarrow> string" where
  "toJson m =
     ''{'' @
     str_pat ''msgId'' @ escapeJson (msgId m) @ [ch_quote] @ '','' @
     str_pat ''senderId'' @ escapeJson (senderId m) @ [ch_quote] @ '','' @
     str_pat ''senderName'' @ escapeJson (senderName m) @ [ch_quote] @ '','' @
     int_pat ''timestampUtc'' @ int_to_string (sint (timestampUtc m)) @ '','' @
     str_pat ''text'' @ escapeJson (msgText m) @ [ch_quote] @
     ''}''"

definition fromJson :: "string \<Rightarrow> chat_message option" where
  "fromJson json =
     (let msg = \<lparr>msgId = extractJsonString json ''msgId'',
                 senderId = extractJsonString json ''senderId'',
                 senderName = extractJsonString json ''senderName'',
                 timestampUtc = extractJsonInt json ''timestampUtc'',
                 msgText = extractJsonString json ''text''\<rparr>
      in if msgId msg = '''' \<or> senderId msg = '''' then None else Some msg)"

text \<open>\<open>strftime(buffer, ..., "[%H:%M:%S]", tm)\<close> is all that the line holds.\<close>

definition two_digits :: "nat \<Rightarrow> string" where
  "two_digits n = [digit_char (n div 10 mod 10), digit_char (n mod 10)]"

definition formatForDisplay :: "(i64 \<Rightarrow> nat \<times> nat \<times> nat) \<Rightarrow> chat_message \<Rightarrow> string" where
  "formatForDisplay localtime m =
     (case localtime (timestampUtc m) of (h, mi, s) \<Rightarrow>
        ''['' @ two_digits h @ '':'' @ two_digits mi @ '':'' @ two_digits s @ '']'')"

section \<open>The JSON form\<close>

lemma keys_ok [simp]:
  "key_ok ''msgId''" "key_ok ''senderId''" "key_ok ''senderName''" "key_ok ''timestampUtc''" "key_ok ''text''"
  by (simp_all add: key_ok_def plain_def)

lemma keys_plain [simp]:
  "plain ''msgId''" "plain ''senderId''" "plain ''senderName''" "plain ''timestampUtc''" "plain ''text''"
  by (simp_all add: plain_def)

abbreviation member :: "string \<Rightarrow> string \<Rightarrow> string \<Rightarrow> string" where
  "member k s r \<equiv> str_pat k @ escapeJson s @ ch_quote # r"

lemma toJson_members:
  "toJson m = CHR ''{'' # member ''msgId'' (msgId m) (CHR '','' #
     member ''senderId'' (senderId m) (CHR '','' #
     member ''senderName'' (senderName m) (CHR '','' #
     int_pat ''timestampUtc'' @ int_to_string (sint (timestampUtc m)) @ CHR '','' #
     member ''text'' (msgText m) ''}'')))"
  by (simp add: toJson_def)

lemmas walk_message = msg_esc.member_skip_str msg_esc.member_skip_int msg_esc.at_member walk_object

text \<open>Where each member's value starts and what follows it.\<close>

lemma find_msgId:
  "str_after (str_pat ''msgId'') (toJson m) = Some (escapeJson (msgId m) @ ch_quote # CHR '','' #
     member ''senderId'' (senderId m) (CHR '','' #
     member ''senderName'' (senderName m) (CHR '','' #
     int_pat ''timestampUtc'' @ int_to_string (sint (timestampUtc m)) @ CHR '','' #
     member ''text'' (msgText m) ''}'')))"
  by (simp add: toJson_members walk_message del: str_after.simps)

lemma find_senderId:
  "str_after (str_pat ''senderId'') (toJson m) = Some (escapeJson (senderId m) @ ch_quote # CHR '','' #
     member ''senderName'' (senderName m) (CHR '','' #
     int_pat ''timestampUtc'' @ int_to_string (sint (timestampUtc m)) @ CHR '','' #
     member ''text'' (msgText m) ''}''))"
  by (simp add: toJson_members walk_message del: str_after.simps)

lemma find_senderName:
  "str_after (str_pat ''senderName'') (toJson m) = Some (escapeJson (senderName m) @ ch_quote # CHR '','' #
     int_pat ''timestampUtc'' @ int_to_string (sint (timestampUtc m)) @ CHR '','' #
     member ''text'' (msgText m) ''}'')"
  by (simp add: toJson_members walk_message del: str_after.simps)

lemma find_timestamp:
  "str_after (int_pat ''timestampUtc'') (toJson m) = Some (int_to_string (sint (timestampUtc m)) @ CHR '','' #
     member ''text'' (msgText m) ''}'')"
  by (simp add: toJson_members walk_message del: str_after.simps)

lemma find_text:
  "str_after (str_pat ''text'') (toJson m) = Some (escapeJson (msgText m) @ ch_quote # ''}'')"
  by (simp add: toJson_members walk_message del: str_after.simps)

text \<open>A value is read back when it does not end in a backslash; one that does runs on.\<close>

definition ends_in_backslash :: "string \<Rightarrow> bool" where
  "ends_in_backslash s \<longleftrightarrow> s \<noteq> [] \<and> last s = ch_bs"

lemma scan_value:
  assumes "\<not> ends_in_backslash s"
  shows "unescapeJson (scan_val ch_quote (escapeJson s @ ch_quote # r)) = s"
  using assms
  by (cases "s = []")
    (auto simp: scan_val_guarded msg_esc.esc_guarded ends_in_backslash_def last_escapeJson unescape_escape)

lemma scan_value_runs_on:
  assumes "ends_in_backslash s"
  shows "unescapeJson (scan_val ch_quote (escapeJson s @ ch_quote # r)) = s @ unescapeJson (ch_quote # scan_val ch_quote r)"
  using assms
  by (auto simp: scan_val_guarded msg_esc.esc_guarded ends_in_backslash_def last_escapeJson unescape_escape_append)

lemma number_run:
  "takeWhile (\<lambda>c. is_digit c \<or> c = CHR ''-'') (int_to_string i @ CHR '','' # r) = int_to_string i"
  using int_to_string_chars [of _ i] by (subst takeWhile_append2) (auto simp: is_digit_def)

lemma read_timestamp: "extractJsonInt (toJson m) ''timestampUtc'' = timestampUtc m"
  using stoll_to_string [of "[]" "timestampUtc m"]
  by (simp add: extractJsonInt_eq find_timestamp number_run)

lemmas read_members = extractJsonString_eq find_msgId find_senderId find_senderName find_text scan_value

definition message_ok :: "chat_message \<Rightarrow> bool" where
  "message_ok m \<longleftrightarrow> msgId m \<noteq> '''' \<and> senderId m \<noteq> '''' \<and> \<not> ends_in_backslash (msgId m) \<and>
     \<not> ends_in_backslash (senderId m) \<and> \<not> ends_in_backslash (senderName m) \<and> \<not> ends_in_backslash (msgText m)"

lemma fromJson_toJson: "message_ok m \<Longrightarrow> fromJson (toJson m) = Some m"
  by (simp add: fromJson_def read_members read_timestamp message_ok_def)

interpretation message_codec: wire_codec toJson fromJson message_ok
  by unfold_locales (rule fromJson_toJson)

section \<open>Properties\<close>

text \<open>C28. A message whose ids are not empty and whose texts do not end in a backslash is read
  back from its JSON form unchanged, whatever quotes, control characters or JSON text it holds.\<close>

theorem message_roundtrip:
  assumes "message_ok m"
  shows "fromJson (toJson m) = Some m"
  using assms by (rule message_codec.dec_enc)

definition sample_message :: chat_message where
  "sample_message = \<lparr>msgId = ''a1'', senderId = ''b2'', senderName = ''Ann'', timestampUtc = -7,
     msgText = [CHR ''h'', ch_quote, ch_nl, ch_bs, CHR ''i'']\<rparr>"

theorem message_roundtrip_witness: "fromJson (toJson sample_message) = Some sample_message"
  by (rule message_roundtrip) (simp add: message_ok_def sample_message_def ends_in_backslash_def)

text \<open>A message text that ends in a backslash does not survive: the receiver reads the
  text with the closing quote and brace of the JSON object appended.\<close>

theorem trailing_backslash_corrupts:
  assumes "message_ok (m\<lparr>msgText := ''''\<rparr>)" and "ends_in_backslash (msgText m)"
  shows "fromJson (toJson m) = Some (m\<lparr>msgText := msgText m @ [ch_quote, CHR ''}'']\<rparr>)"
proof -
  have "unescapeJson (scan_val ch_quote (escapeJson (msgText m) @ ch_quote # ''}'')) = msgText m @ [ch_quote, CHR ''}'']"
    using scan_value_runs_on [OF assms(2), of "''}''"] by simp
  with assms(1) show ?thesis
    by (simp add: fromJson_def read_members read_timestamp message_ok_def)
qed

theorem trailing_backslash_corrupts_witness:
  "fromJson (toJson (sample_message\<lparr>msgText := [CHR ''C'', CHR '':'', ch_bs]\<rparr>)) =
    Some (sample_message\<lparr>msgText := [CHR ''C'', CHR '':'', ch_bs, ch_quote, CHR ''}'']\<rparr>)"
  using trailing_backslash_corrupts [of "sample_message\<lparr>msgText := [CHR ''C'', CHR '':'', ch_bs]\<rparr>"]
  by (simp add: message_ok_def sample_message_def ends_in_backslash_def)

text \<open>The line shown for a message depends on its time alone: neither the sender nor the
  text is part of it.\<close>

theorem display_shows_only_time:
  "formatForDisplay lt (m\<lparr>msgText := txt, senderName := name, senderId := sid, msgId := mid\<rparr>) = formatForDisplay lt m"
  by (simp add: formatForDisplay_def)

text \<open>Unescaping undoes escaping for every string.\<close>

theorem unescape_inverts_escape: "unescapeJson (escapeJson s) = s"
  by (rule unescape_escape)

end
