(* ===== verification/Message_Queue.thy ===== *)
theory Message_Queue imports Message begin

text \<open>
  The bounded queue of chat messages (\<open>src/chat/message_queue.hpp\<close>,
  \<open>message_queue.cpp\<close>). Every operation runs under the queue's mutex, so it is one
  atomic step on the state it finds when it holds the lock; for \<open>push\<close> and \<open>pop\<close>
  that is the state in which \<open>wait_for\<close> returns, because the predicate is true or
  because the time is up. The notifications an operation sends are part of its result.
  \<open>bounded_fifo\<close> is the contract, proved for both ways of taking a message out.
\<close>

record message_queue =
  queue :: "chat_message list"
  maxSize :: nat

datatype notification = NotEmpty_one | NotFull_one | NotFull_all

definition new_queue :: "nat \<Rightarrow> message_queue" where
  "new_queue n = \<lparr>queue = [], maxSize = n\<rparr>"

definition push :: "chat_message \<Rightarrow> message_queue \<Rightarrow> message_queue \<times> bool \<times> notification list" where
  "push msg q =
     (if \<not> length (queue q) < maxSize q then (q, False, [])
      else (q\<lparr>queue := queue q @ [msg]\<rparr>, True, [NotEmpty_one]))"

definition pop :: "message_queue \<Rightarrow> message_queue \<times> chat_message option \<times> notification list" where
  "pop q = (case queue q of
     [] \<Rightarrow> (q, None, [])
   | msg # rest \<Rightarrow> (q\<lparr>queue := rest\<rparr>, Some msg, [NotFull_one]))"

definition tryPop :: "message_queue \<Rightarrow> message_queue \<times> chat_message option \<times> notification list" where
  "tryPop q = (case queue q of
     [] \<Rightarrow> (q, None, [])
   | msg # rest \<Rightarrow> (q\<lparr>queue := rest\<rparr>, Some msg, [NotFull_one]))"

definition queue_size :: "message_queue \<Rightarrow> nat" where
  "queue_size q = length (queue q)"

definition queue_empty :: "message_queue \<Rightarrow> bool" where
  "queue_empty q \<longleftrightarrow> queue q = []"

definition clear :: "message_queue \<Rightarrow> message_queue \<times> notification list" where
  "clear q = (q\<lparr>queue := []\<rparr>, [NotFull_all])"

text \<open>\<open>drain\<close> calls the callback on the front until nothing is left; the messages it
  was called with, in order, are the result.\<close>

fun drain_loop :: "chat_message list \<Rightarrow> chat_message list \<Rightarrow> chat_message list \<times> chat_message list" where
  "drain_loop [] called = ([], called)"
| "drain_loop (m # ms) called = drain_loop ms (called @ [m])"

definition drain :: "message_queue \<Rightarrow> message_queue \<times> chat_message list \<times> notification list" where
  "drain q = (case drain_loop (queue q) [] of (rest, called) \<Rightarrow> (q\<lparr>queue := rest\<rparr>, called, [NotFull_all]))"

section \<open>The contract of a bounded queue\<close>

text \<open>A client that puts a list in and one that takes as many out as it is told.\<close>

fun put_all :: "('a \<Rightarrow> 'q \<Rightarrow> 'q \<times> bool \<times> 'n) \<Rightarrow> 'a list \<Rightarrow> 'q \<Rightarrow> 'q \<times> 'a list" where
  "put_all put [] q = (q, [])"
| "put_all put (x # xs) q =
     (case put x q of (q', ok, _) \<Rightarrow> case put_all put xs q' of (q'', acc) \<Rightarrow>
        (q'', if ok then x # acc else acc))"

fun get_n :: "('q \<Rightarrow> 'q \<times> 'a option \<times> 'n) \<Rightarrow> nat \<Rightarrow> 'q \<Rightarrow> 'q \<times> 'a list" where
  "get_n get 0 q = (q, [])"
| "get_n get (Suc n) q =
     (case get q of (q', None, _) \<Rightarrow> (q', [])
      | (q', Some x, _) \<Rightarrow> case get_n get n q' of (q'', ys) \<Rightarrow> (q'', x # ys))"

locale bounded_fifo =
  fixes put :: "'a \<Rightarrow> 'q \<Rightarrow> 'q \<times> bool \<times> 'n"
    and get :: "'q \<Rightarrow> 'q \<times> 'a option \<times> 'n"
    and items :: "'q \<Rightarrow> 'a list"
    and cap :: "'q \<Rightarrow> nat"
  assumes put_room: "length (items q) < cap q \<Longrightarrow>
            \<exists>q' n. put x q = (q', True, n) \<and> items q' = items q @ [x] \<and> cap q' = cap q"
    and put_full: "cap q \<le> length (items q) \<Longrightarrow> \<exists>n. put x q = (q, False, n)"
    and get_some: "items q = x # xs \<Longrightarrow>
            \<exists>q' n. get q = (q', Some x, n) \<and> items q' = xs \<and> cap q' = cap q"
    and get_none: "items q = [] \<Longrightarrow> \<exists>n. get q = (q, None, n)"
begin

text \<open>What goes in is what fits, in order; it comes out in the same order.\<close>

lemma put_all_items:
  "put_all put xs q = (q', acc) \<Longrightarrow>
   items q' = items q @ take (cap q - length (items q)) xs \<and>
   acc = take (cap q - length (items q)) xs \<and> cap q' = cap q"
proof (induction xs arbitrary: q q' acc)
  case Nil
  then show ?case by simp
next
  case (Cons x xs)
  show ?case
  proof (cases "length (items q) < cap q")
    case True
    from put_room [OF this, of x] obtain q1 n where q1: "put x q = (q1, True, n)"
        "items q1 = items q @ [x]" "cap q1 = cap q" by blast
    obtain q2 acc2 where q2: "put_all put xs q1 = (q2, acc2)" by (cases "put_all put xs q1")
    have "cap q - length (items q) = Suc (cap q - Suc (length (items q)))" using True by simp
    with Cons.IH [OF q2] Cons.prems q1 q2 show ?thesis by auto
  next
    case False
    then obtain n where "put x q = (q, False, n)" using put_full [of q x] by auto
    with Cons.prems False Cons.IH [of q] show ?thesis by (auto split: prod.splits)
  qed
qed

lemma get_n_items:
  "get_n get n q = (q', ys) \<Longrightarrow> ys = take n (items q) \<and> items q' = drop n (items q) \<and> cap q' = cap q"
proof (induction n arbitrary: q q' ys)
  case 0
  then show ?case by simp
next
  case (Suc n)
  show ?case
  proof (cases "items q")
    case Nil
    with get_none [OF Nil] Suc.prems show ?thesis by auto
  next
    case (Cons x xs)
    from get_some [OF Cons] obtain q1 m where q1: "get q = (q1, Some x, m)" "items q1 = xs" "cap q1 = cap q"
      by blast
    obtain q2 ys2 where q2: "get_n get n q1 = (q2, ys2)" by (cases "get_n get n q1")
    from Suc.IH [OF q2] Suc.prems q1 q2 Cons show ?thesis by auto
  qed
qed

lemma put_then_get:
  assumes "items q = []" and "length xs \<le> cap q"
    and "put_all put xs q = (q1, acc)" and "get_n get (length xs) q1 = (q2, ys)"
  shows "acc = xs \<and> ys = xs \<and> items q2 = []"
  using put_all_items [OF assms(3)] get_n_items [OF assms(4)] assms(1,2) by simp

end

interpretation mq: bounded_fifo push pop queue maxSize
  by unfold_locales (auto simp: push_def pop_def)

interpretation mqt: bounded_fifo push tryPop queue maxSize
  by unfold_locales (auto simp: push_def tryPop_def)

section \<open>Histories\<close>

datatype queue_op = Push chat_message | Pop | TryPop | Clear | Drain

text \<open>One operation: the new queue, the messages accepted and the messages removed (given
  out, handed to the callback, or dropped by \<open>clear\<close>), and the notifications.\<close>

fun queue_step :: "queue_op \<Rightarrow> message_queue \<Rightarrow>
    message_queue \<times> chat_message list \<times> chat_message list \<times> notification list" where
  "queue_step (Push m) q = (case push m q of (q', ok, n) \<Rightarrow> (q', if ok then [m] else [], [], n))"
| "queue_step Pop q = (case pop q of (q', r, n) \<Rightarrow> (q', [], (case r of None \<Rightarrow> [] | Some m \<Rightarrow> [m]), n))"
| "queue_step TryPop q = (case tryPop q of (q', r, n) \<Rightarrow> (q', [], (case r of None \<Rightarrow> [] | Some m \<Rightarrow> [m]), n))"
| "queue_step Clear q = (case clear q of (q', n) \<Rightarrow> (q', [], queue q, n))"
| "queue_step Drain q = (case drain q of (q', ms, n) \<Rightarrow> (q', [], ms, n))"

fun queue_run :: "queue_op list \<Rightarrow> message_queue \<Rightarrow> message_queue \<times> chat_message list \<times> chat_message list" where
  "queue_run [] q = (q, [], [])"
| "queue_run (p # ps) q =
     (case queue_step p q of (q', a, r, _) \<Rightarrow> case queue_run ps q' of (q'', as, rs) \<Rightarrow> (q'', a @ as, r @ rs))"

lemma drain_loop_eq: "drain_loop ms called = ([], called @ ms)"
  by (induction ms arbitrary: called) auto

lemma drain_eq: "drain q = (q\<lparr>queue := []\<rparr>, queue q, [NotFull_all])"
  by (simp add: drain_def drain_loop_eq)

lemma queue_step_conserves:
  "queue_step p q = (q', a, r, n) \<Longrightarrow> queue q @ a = r @ queue q' \<and> maxSize q' = maxSize q"
  by (cases p) (auto simp: push_def pop_def tryPop_def clear_def drain_eq split: list.splits if_splits)

lemma queue_step_bounded:
  "queue_step p q = (q', a, r, n) \<Longrightarrow> length (queue q) \<le> maxSize q \<Longrightarrow> length (queue q') \<le> maxSize q'"
  by (cases p) (auto simp: push_def pop_def tryPop_def clear_def drain_eq split: list.splits if_splits)

lemma queue_run_conserves:
  "queue_run ps q = (q', as, rs) \<Longrightarrow> queue q @ as = rs @ queue q' \<and> maxSize q' = maxSize q"
proof (induction ps arbitrary: q q' as rs)
  case Nil
  then show ?case by simp
next
  case (Cons p ps)
  obtain q1 a r n where s: "queue_step p q = (q1, a, r, n)" by (cases "queue_step p q")
  obtain q2 as2 rs2 where t: "queue_run ps q1 = (q2, as2, rs2)" by (cases "queue_run ps q1")
  from Cons.prems s t have "q' = q2" "as = a @ as2" "rs = r @ rs2" by simp_all
  with Cons.IH [OF t] queue_step_conserves [OF s] show ?case
    by simp (metis append.assoc)
qed

lemma queue_run_bounded:
  "queue_run ps q = (q', as, rs) \<Longrightarrow> length (queue q) \<le> maxSize q \<Longrightarrow> length (queue q') \<le> maxSize q'"
  by (induction ps arbitrary: q q' as rs) (auto split: prod.splits dest: queue_step_bounded)

text \<open>No waiter is forgotten: an operation that makes the queue non-empty, or no longer full,
  notifies the condition variable of those who wait for that.\<close>

lemma queue_step_notifies:
  assumes "queue_step p q = (q', a, r, n)"
  shows "(queue q = [] \<and> queue q' \<noteq> [] \<longrightarrow> NotEmpty_one \<in> set n) \<and>
    (\<not> length (queue q) < maxSize q \<and> length (queue q') < maxSize q' \<longrightarrow>
       NotFull_one \<in> set n \<or> NotFull_all \<in> set n)"
  using assms
  by (cases p) (auto simp: push_def pop_def tryPop_def clear_def drain_eq split: list.splits if_splits)

section \<open>Properties\<close>

text \<open>C33. Nothing is lost, duplicated or reordered: over any history of operations on a new
  queue the messages removed, followed by those still queued, are the messages accepted, in the
  order of acceptance, and the queue never exceeds its capacity.\<close>

theorem queue_conserves:
  "case queue_run ps (new_queue n) of
     (q, accepted, removed) \<Rightarrow> accepted = removed @ queue q \<and> length (queue q) \<le> n"
proof -
  obtain q as rs where r: "queue_run ps (new_queue n) = (q, as, rs)" by (cases "queue_run ps (new_queue n)")
  from queue_run_conserves [OF r] queue_run_bounded [OF r] show ?thesis unfolding r by (simp add: new_queue_def)
qed

text \<open>The queue is first in first out under its bound: of a list pushed on a new queue
  those that fit are accepted, and popping returns them in the order pushed.\<close>

theorem queue_fifo:
  "case put_all push ms (new_queue n) of
     (q, accepted) \<Rightarrow> accepted = take n ms \<and> snd (get_n pop k q) = take k accepted \<and>
       snd (get_n tryPop k q) = take k accepted"
proof -
  obtain q acc where q: "put_all push ms (new_queue n) = (q, acc)" by (cases "put_all push ms (new_queue n)")
  from mq.put_all_items [OF q] have "acc = take n ms" "queue q = acc" by (simp_all add: new_queue_def)
  moreover have "snd (get_n pop k q) = take k (queue q)" "snd (get_n tryPop k q) = take k (queue q)"
    using mq.get_n_items [of k q] mqt.get_n_items [of k q] by (metis prod.collapse)+
  ultimately show ?thesis by (simp add: q)
qed

text \<open>No waiter is forgotten: an operation that makes the queue non-empty notifies a
  waiting reader, one that makes room in a full queue notifies the waiting writers.\<close>

theorem queue_notifies:
  "case queue_step p q of (q', _, _, n) \<Rightarrow>
     (if queue q = [] \<and> queue q' \<noteq> [] then NotEmpty_one \<in> set n else True) \<and>
     (if maxSize q \<le> length (queue q) \<and> length (queue q') < maxSize q'
      then NotFull_one \<in> set n \<or> NotFull_all \<in> set n else True)"
proof -
  obtain q' a r n where s: "queue_step p q = (q', a, r, n)" by (cases "queue_step p q")
  from queue_step_notifies [OF s] show ?thesis by (auto simp: s)
qed

end
