(* ===== verification/Frame_Reader.thy ===== *)
theory Frame_Reader imports Protocol begin

text \<open>
  The incremental frame reader \<open>FrameReader\<close> (\<open>src/network/protocol.hpp\<close>,
  \<open>protocol.cpp\<close>). \<open>read_loop\<close> is the \<open>while (true)\<close> of
  \<open>FrameReader::feed\<close>, with its termination measure; \<open>parse_stream\<close> is the
  reference: a parser of the whole byte stream that keeps no state. The reader refines it
  (\<open>feed_refines_parser\<close>), whatever the sizes of the pieces TCP delivers. The locale
  \<open>chunked_reader\<close> is the interface the receiving loop of a connection relies on.
\<close>

section \<open>The reader\<close>

datatype reader_state = READING_HEADER | READING_PAYLOAD

lemma not_READING_HEADER [simp]: "x \<noteq> READING_HEADER \<longleftrightarrow> x = READING_PAYLOAD"
  by (cases x) simp_all

datatype reader_error = Invalid_magic_or_version | Payload_too_large

fun reader_error_what :: "reader_error \<Rightarrow> string" where
  "reader_error_what Invalid_magic_or_version = ''Protocol violation: invalid magic or version''"
| "reader_error_what Payload_too_large = ''Protocol violation: payload too large''"

record reader =
  rstate :: reader_state
  buffer :: bytes
  pendingHeader :: frame_header
  maxPayloadSize :: nat

definition new_reader :: "nat \<Rightarrow> reader" where
  "new_reader m = \<lparr>rstate = READING_HEADER, buffer = [], pendingHeader = default_header,
     maxPayloadSize = m\<rparr>"

text \<open>One round per call. An exception is \<open>Inl\<close>: the frames completed by this call
  (\<open>completeFrames\<close>) are lost with it, the reader keeps its fields.\<close>

function read_loop :: "reader \<Rightarrow> frame list \<Rightarrow> reader \<times> (reader_error + frame list)" where
  "read_loop r completeFrames =
     (if rstate r = READING_HEADER then
        (if length (buffer r) < kFrameHeaderSize then (r, Inr completeFrames)
         else case deserialize_header (take kFrameHeaderSize (buffer r)) of
           None \<Rightarrow> (r, Inl Invalid_magic_or_version)
         | Some h \<Rightarrow>
             let r1 = r\<lparr>pendingHeader := h\<rparr> in
             if maxPayloadSize r < unat (payloadLength h) then (r1, Inl Payload_too_large)
             else read_loop (r1\<lparr>buffer := drop kFrameHeaderSize (buffer r), rstate := READING_PAYLOAD\<rparr>)
                    completeFrames)
      else
        let n = unat (payloadLength (pendingHeader r)) in
        if length (buffer r) < n then (r, Inr completeFrames)
        else
          let f = \<lparr>header = pendingHeader r, payload = (if 0 < n then take n (buffer r) else [])\<rparr>;
              rest = (if 0 < n then drop n (buffer r) else buffer r)
          in read_loop (r\<lparr>buffer := rest, rstate := READING_HEADER\<rparr>) (completeFrames @ [f]))"
  by pat_completeness auto
termination
  by (relation "measure (\<lambda>(r, _). 2 * length (buffer r) + (if rstate r = READING_PAYLOAD then 1 else 0))")
    (auto simp: kFrameHeaderSize_def split: if_splits)

declare read_loop.simps [simp del]

definition feed :: "reader \<Rightarrow> bytes \<Rightarrow> reader \<times> (reader_error + frame list)" where
  "feed r data = read_loop (r\<lparr>buffer := buffer r @ data\<rparr>) []"

definition reset_reader :: "reader \<Rightarrow> reader" where
  "reset_reader r = r\<lparr>buffer := [], rstate := READING_HEADER\<rparr>"

section \<open>The interface of an incremental reader\<close>

text \<open>
  The client side: pieces are fed in order, the frames of each call are passed on as they
  come, and the first error ends the run. This is how \<open>Connection::recvLoop\<close> uses the
  reader.
\<close>

fun feed_chunks :: "('s \<Rightarrow> 'a list \<Rightarrow> 's \<times> ('e + 'b list)) \<Rightarrow> 's \<Rightarrow> 'a list list \<Rightarrow> 's \<times> 'b list \<times> 'e option" where
  "feed_chunks fd s [] = (s, [], None)"
| "feed_chunks fd s (c # cs) =
     (case fd s c of
        (s', Inl e) \<Rightarrow> (s', [], Some e)
      | (s', Inr fs) \<Rightarrow> (case feed_chunks fd s' cs of (s'', gs, r) \<Rightarrow> (s'', fs @ gs, r)))"

locale chunked_reader =
  fixes fd :: "'s \<Rightarrow> 'a list \<Rightarrow> 's \<times> ('e + 'b list)"
    and quiet :: "'s \<Rightarrow> bool"
  assumes feed_nil: "quiet s \<Longrightarrow> fd s [] = (s, Inr [])"
    and feed_quiet: "fd s xs = (s', Inr fs) \<Longrightarrow> quiet s'"
    and feed_more: "fd s xs = (s', Inr fs) \<Longrightarrow>
          fd s (xs @ ys) = (case fd s' ys of (s'', Inl e) \<Rightarrow> (s'', Inl e) | (s'', Inr gs) \<Rightarrow> (s'', Inr (fs @ gs)))"
    and feed_stuck: "fd s xs = (s', Inl e) \<Longrightarrow> \<exists>s''. fd s (xs @ ys) = (s'', Inl e)"
begin

lemma chunks_ok:
  "quiet s \<Longrightarrow> feed_chunks fd s cs = (s', gs, None) \<longleftrightarrow> fd s (concat cs) = (s', Inr gs)"
proof (induction cs arbitrary: s gs)
  case Nil
  then show ?case by (auto simp: feed_nil)
next
  case (Cons c cs)
  obtain s1 r where c: "fd s c = (s1, r)" by (cases "fd s c")
  show ?case
  proof (cases r)
    case (Inl e)
    with c feed_stuck [of s c s1 e "concat cs"] show ?thesis by auto
  next
    case (Inr fs)
    with c have "quiet s1" by (simp add: feed_quiet)
    obtain s2 q where q: "fd s1 (concat cs) = (s2, q)" by (cases "fd s1 (concat cs)")
    obtain s3 hs e where f: "feed_chunks fd s1 cs = (s3, hs, e)" by (cases "feed_chunks fd s1 cs")
    have IH: "(s3 = s' \<and> hs = hs' \<and> e = None) \<longleftrightarrow> (s2 = s' \<and> q = Inr hs')" for hs'
      using Cons.IH [OF \<open>quiet s1\<close>, of hs'] by (simp add: q f)
    from c Inr have "fd s (c @ concat cs) = (case q of Inl e \<Rightarrow> (s2, Inl e) | Inr hs \<Rightarrow> (s2, Inr (fs @ hs)))"
      by (simp add: feed_more q)
    with c Inr f IH [of "drop (length fs) gs"] IH [of hs] show ?thesis by (cases q) fastforce+
  qed
qed

lemma chunks_error:
  assumes "quiet s" and "feed_chunks fd s cs = (s', gs, Some e)"
  shows "\<exists>s''. fd s (concat cs) = (s'', Inl e)"
  using assms
proof (induction cs arbitrary: s gs)
  case Nil
  then show ?case by simp
next
  case (Cons c cs)
  obtain s1 r where c: "fd s c = (s1, r)" by (cases "fd s c")
  show ?case
  proof (cases r)
    case (Inl e')
    with c Cons.prems feed_stuck [of s c s1 e' "concat cs"] show ?thesis by auto
  next
    case (Inr fs)
    with c have "quiet s1" by (simp add: feed_quiet)
    with c Inr Cons.prems Cons.IH [OF \<open>quiet s1\<close>] show ?thesis
      by (fastforce simp: feed_more split: prod.splits sum.splits)
  qed
qed

text \<open>Two ways of cutting the same bytes into pieces cannot be told apart by their frames.\<close>

lemma chunks_cut_irrelevant:
  assumes "quiet s" and "concat cs = concat ds"
  shows "feed_chunks fd s cs = (s', gs, None) \<longleftrightarrow> feed_chunks fd s ds = (s', gs, None)"
  using assms by (simp add: chunks_ok)

end

section \<open>The reader provides the interface\<close>

text \<open>A reader between two calls: it waits for bytes it does not have.\<close>

definition settled :: "reader \<Rightarrow> bool" where
  "settled r \<longleftrightarrow>
     (if rstate r = READING_HEADER then length (buffer r) < kFrameHeaderSize
      else length (buffer r) < unat (payloadLength (pendingHeader r)))"

abbreviation ext :: "reader \<Rightarrow> bytes \<Rightarrow> reader" where
  "ext r ys \<equiv> r\<lparr>buffer := buffer r @ ys\<rparr>"

text \<open>The five situations of a round, as equations of \<open>read_loop\<close>.\<close>

abbreviation front :: "reader \<Rightarrow> frame_header option" where
  "front r \<equiv> deserialize_header (take kFrameHeaderSize (buffer r))"

abbreviation after_header :: "reader \<Rightarrow> frame_header \<Rightarrow> reader" where
  "after_header r h \<equiv> r\<lparr>pendingHeader := h, rstate := READING_PAYLOAD, buffer := drop kFrameHeaderSize (buffer r)\<rparr>"

abbreviation wanted :: "reader \<Rightarrow> nat" where
  "wanted r \<equiv> unat (payloadLength (pendingHeader r))"

abbreviation after_payload :: "reader \<Rightarrow> reader" where
  "after_payload r \<equiv> r\<lparr>rstate := READING_HEADER, buffer := drop (wanted r) (buffer r)\<rparr>"

abbreviation taken_frame :: "reader \<Rightarrow> frame" where
  "taken_frame r \<equiv> \<lparr>header = pendingHeader r, payload = take (wanted r) (buffer r)\<rparr>"

lemma read_loop_settled: "settled r \<Longrightarrow> read_loop r acc = (r, Inr acc)"
  by (subst read_loop.simps) (auto simp: settled_def Let_def split: if_splits)

lemma read_loop_bad:
  "rstate r = READING_HEADER \<Longrightarrow> kFrameHeaderSize \<le> length (buffer r) \<Longrightarrow> front r = None \<Longrightarrow>
   read_loop r acc = (r, Inl Invalid_magic_or_version)"
  by (subst read_loop.simps) simp

lemma read_loop_large:
  "rstate r = READING_HEADER \<Longrightarrow> kFrameHeaderSize \<le> length (buffer r) \<Longrightarrow> front r = Some h \<Longrightarrow>
   maxPayloadSize r < unat (payloadLength h) \<Longrightarrow>
   read_loop r acc = (r\<lparr>pendingHeader := h\<rparr>, Inl Payload_too_large)"
  by (subst read_loop.simps) simp

lemma read_loop_header:
  "rstate r = READING_HEADER \<Longrightarrow> kFrameHeaderSize \<le> length (buffer r) \<Longrightarrow> front r = Some h \<Longrightarrow>
   unat (payloadLength h) \<le> maxPayloadSize r \<Longrightarrow>
   read_loop r acc = read_loop (after_header r h) acc"
  by (cases r, subst read_loop.simps) simp

lemma read_loop_payload:
  "rstate r = READING_PAYLOAD \<Longrightarrow> wanted r \<le> length (buffer r) \<Longrightarrow>
   read_loop r acc = read_loop (after_payload r) (acc @ [taken_frame r])"
  by (cases r, subst read_loop.simps) (simp add: Let_def)

lemmas read_loop_eqs = read_loop_settled read_loop_bad read_loop_large read_loop_header read_loop_payload

text \<open>The induction that follows the rounds.\<close>

lemma read_loop_rounds [case_names settled bad large header payload]:
  assumes "\<And>r acc. settled r \<Longrightarrow> P r acc"
    and "\<And>r acc. rstate r = READING_HEADER \<Longrightarrow> kFrameHeaderSize \<le> length (buffer r) \<Longrightarrow> front r = None \<Longrightarrow> P r acc"
    and "\<And>r acc h. rstate r = READING_HEADER \<Longrightarrow> kFrameHeaderSize \<le> length (buffer r) \<Longrightarrow> front r = Some h \<Longrightarrow>
      maxPayloadSize r < unat (payloadLength h) \<Longrightarrow> P r acc"
    and "\<And>r acc h. rstate r = READING_HEADER \<Longrightarrow> kFrameHeaderSize \<le> length (buffer r) \<Longrightarrow> front r = Some h \<Longrightarrow>
      unat (payloadLength h) \<le> maxPayloadSize r \<Longrightarrow> P (after_header r h) acc \<Longrightarrow> P r acc"
    and "\<And>r acc. rstate r = READING_PAYLOAD \<Longrightarrow> wanted r \<le> length (buffer r) \<Longrightarrow>
      P (after_payload r) (acc @ [taken_frame r]) \<Longrightarrow> P r acc"
  shows "P r acc"
proof (induction "2 * length (buffer r) + (if rstate r = READING_PAYLOAD then 1 else 0)"
    arbitrary: r acc rule: less_induct)
  case (less r acc)
  show ?case
  proof (cases "settled r")
    case True
    then show ?thesis by (rule assms(1))
  next
    case False
    show ?thesis
    proof (cases "rstate r")
      case READING_HEADER
      with False have len: "kFrameHeaderSize \<le> length (buffer r)" by (simp add: settled_def)
      show ?thesis
      proof (cases "front r")
        case None
        with READING_HEADER len show ?thesis by (rule assms(2))
      next
        case (Some h)
        show ?thesis
        proof (cases "maxPayloadSize r < unat (payloadLength h)")
          case True
          with READING_HEADER len Some show ?thesis by (rule assms(3))
        next
          case False
          from READING_HEADER len have "P (after_header r h) acc"
            by (intro less.hyps) (simp add: kFrameHeaderSize_def)
          with READING_HEADER len Some False show ?thesis by (simp add: assms(4))
        qed
      qed
    next
      case READING_PAYLOAD
      with False have "wanted r \<le> length (buffer r)" by (simp add: settled_def)
      moreover from this READING_PAYLOAD have "P (after_payload r) (acc @ [taken_frame r])"
        by (intro less.hyps) simp
      ultimately show ?thesis using READING_PAYLOAD by (simp add: assms(5))
    qed
  qed
qed


lemma read_loop_Inr_settled: "read_loop r acc = (r', Inr fs) \<Longrightarrow> settled r'"
  by (induction r acc rule: read_loop_rounds) (auto simp: read_loop_eqs)

lemma read_loop_acc:
  "read_loop r acc = (case read_loop r [] of (r', Inl e) \<Rightarrow> (r', Inl e) | (r', Inr fs) \<Rightarrow> (r', Inr (acc @ fs)))"
proof -
  have "read_loop r (acc @ bcc) =
      (case read_loop r bcc of (r', Inl e) \<Rightarrow> (r', Inl e) | (r', Inr fs) \<Rightarrow> (r', Inr (acc @ fs)))" for bcc
    by (induction r bcc rule: read_loop_rounds) (auto simp: read_loop_eqs)
  from this [of "[]"] show ?thesis by simp
qed

lemma front_ext: "kFrameHeaderSize \<le> length (buffer r) \<Longrightarrow> front (ext r ys) = front r"
  by simp

lemma read_loop_ext_Inr:
  "read_loop r acc = (r', Inr fs) \<Longrightarrow> read_loop (ext r ys) acc = read_loop (ext r' ys) fs"
  by (induction r acc rule: read_loop_rounds) (auto simp: read_loop_eqs)

lemma read_loop_ext_Inl:
  "read_loop r acc = (r', Inl e) \<Longrightarrow> read_loop (ext r ys) acc = (ext r' ys, Inl e)"
  by (induction r acc rule: read_loop_rounds) (auto simp: read_loop_eqs)

lemma feed_more_ext:
  assumes "feed r xs = (r', Inr fs)"
  shows "feed r (xs @ ys) =
    (case feed r' ys of (r'', Inl e) \<Rightarrow> (r'', Inl e) | (r'', Inr gs) \<Rightarrow> (r'', Inr (fs @ gs)))"
proof -
  from read_loop_ext_Inr [of "ext r xs" "[]" r' fs ys] assms
  have "feed r (xs @ ys) = read_loop (ext r' ys) fs" by (simp add: feed_def)
  with read_loop_acc [of "ext r' ys" fs] show ?thesis by (simp add: feed_def)
qed

interpretation fr: chunked_reader feed settled
proof
  show "feed s [] = (s, Inr [])" if "settled s" for s
    using that by (simp add: feed_def read_loop_settled)
  show "settled s'" if "feed s xs = (s', Inr fs)" for s xs s' fs
    using that by (auto simp: feed_def intro: read_loop_Inr_settled)
  show "feed s (xs @ ys) = (case feed s' ys of (s'', Inl e) \<Rightarrow> (s'', Inl e)
      | (s'', Inr gs) \<Rightarrow> (s'', Inr (fs @ gs)))" if "feed s xs = (s', Inr fs)" for s xs s' fs ys
    using that by (rule feed_more_ext)
  show "\<exists>s''. feed s (xs @ ys) = (s'', Inl e)" if "feed s xs = (s', Inl e)" for s xs s' e ys
    using read_loop_ext_Inl [of "ext s xs" "[]" s' e ys] that by (simp add: feed_def)
qed

section \<open>Reference: parsing the whole stream\<close>

text \<open>The frames of a byte stream, the violation that ends them if there is one, and the
  bytes after the last whole frame. No state, no partial reads.\<close>

function parse_stream :: "nat \<Rightarrow> bytes \<Rightarrow> frame list \<times> reader_error option \<times> bytes" where
  "parse_stream m bs =
     (if length bs < kFrameHeaderSize then ([], None, bs)
      else case deserialize_header (take kFrameHeaderSize bs) of
        None \<Rightarrow> ([], Some Invalid_magic_or_version, bs)
      | Some h \<Rightarrow>
          let n = unat (payloadLength h); body = drop kFrameHeaderSize bs in
          if m < n then ([], Some Payload_too_large, bs)
          else if length body < n then ([], None, bs)
          else case parse_stream m (drop n body) of
            (fs, e, rest) \<Rightarrow> (\<lparr>header = h, payload = take n body\<rparr> # fs, e, rest))"
  by pat_completeness auto
termination
  by (relation "measure (\<lambda>(m, bs). length bs)") (auto simp: kFrameHeaderSize_def)

declare parse_stream.simps [simp del]

text \<open>\<open>bs\<close> are the bytes the reader has taken in since the last frame it completed.\<close>

definition holds :: "reader \<Rightarrow> bytes \<Rightarrow> bool" where
  "holds r bs \<longleftrightarrow>
     (if rstate r = READING_HEADER then bs = buffer r
      else \<exists>h12. length h12 = kFrameHeaderSize \<and> deserialize_header h12 = Some (pendingHeader r) \<and>
        wanted r \<le> maxPayloadSize r \<and> bs = h12 @ buffer r)"

lemma holds_new [simp]: "holds (new_reader m) []"
  by (simp add: holds_def new_reader_def)

lemma parse_stream_frame:
  assumes "length h12 = kFrameHeaderSize" and "deserialize_header h12 = Some h"
    and "unat (payloadLength h) \<le> m" and "length p = unat (payloadLength h)"
  shows "parse_stream m (h12 @ p @ bs) =
    (case parse_stream m bs of (fs, e, rest) \<Rightarrow> (\<lparr>header = h, payload = p\<rparr> # fs, e, rest))"
  using assms by (subst parse_stream.simps) (simp add: Let_def)

lemma parse_stream_partial:
  assumes "length h12 = kFrameHeaderSize" and "deserialize_header h12 = Some h"
    and "unat (payloadLength h) \<le> m" and "length p < unat (payloadLength h)"
  shows "parse_stream m (h12 @ p) = ([], None, h12 @ p)"
  using assms by (subst parse_stream.simps) (simp add: Let_def)

lemma read_loop_refines:
  assumes "holds r bs"
  shows "case parse_stream (maxPayloadSize r) bs of
      (fs, None, rest) \<Rightarrow> \<exists>r'. read_loop r acc = (r', Inr (acc @ fs)) \<and> holds r' rest \<and>
        maxPayloadSize r' = maxPayloadSize r
    | (fs, Some e, rest) \<Rightarrow> \<exists>r'. read_loop r acc = (r', Inl e)"
  using assms
proof (induction r acc arbitrary: bs rule: read_loop_rounds)
  case (settled r acc)
  have "parse_stream (maxPayloadSize r) bs = ([], None, bs)"
  proof (cases "rstate r")
    case READING_HEADER
    with settled show ?thesis
      by (subst parse_stream.simps) (simp add: settled_def holds_def)
  next
    case READING_PAYLOAD
    with settled show ?thesis by (auto simp: settled_def holds_def parse_stream_partial)
  qed
  with settled show ?case by (simp add: read_loop_settled)
next
  case (bad r acc)
  then show ?case by (subst parse_stream.simps) (simp add: holds_def read_loop_bad)
next
  case (large r acc h)
  then show ?case by (subst parse_stream.simps) (simp add: holds_def read_loop_large)
next
  case (header r acc h)
  from header.prems header.hyps have "holds (after_header r h) bs"
    by (auto simp: holds_def intro!: exI [of _ "take kFrameHeaderSize (buffer r)"])
  from header.IH [OF this] header.hyps show ?case
    by (simp add: read_loop_header split: prod.splits option.splits)
next
  case (payload r acc)
  from payload.prems payload.hyps(1) obtain h12 where h12: "length h12 = kFrameHeaderSize"
      "deserialize_header h12 = Some (pendingHeader r)" "wanted r \<le> maxPayloadSize r" "bs = h12 @ buffer r"
    by (auto simp: holds_def)
  have split: "bs = h12 @ take (wanted r) (buffer r) @ drop (wanted r) (buffer r)"
    using h12 by simp
  have "holds (after_payload r) (drop (wanted r) (buffer r))" by (simp add: holds_def)
  from payload.IH [OF this] payload.hyps
  show ?case
    unfolding split by (subst parse_stream_frame) (auto simp: h12 read_loop_payload split: prod.splits option.splits)
qed

lemma feed_parses:
  assumes "holds r bs"
  shows "case parse_stream (maxPayloadSize r) (bs @ data) of
      (fs, None, rest) \<Rightarrow> \<exists>r'. feed r data = (r', Inr fs) \<and> holds r' rest \<and>
        maxPayloadSize r' = maxPayloadSize r
    | (fs, Some e, rest) \<Rightarrow> \<exists>r'. feed r data = (r', Inl e)"
proof -
  from assms have "holds (ext r data) (bs @ data)" by (auto simp: holds_def)
  from read_loop_refines [OF this, of "[]"] show ?thesis
    by (simp add: feed_def split: prod.splits option.splits)
qed


section \<open>Streams of well-formed frames\<close>

definition frames_fit :: "nat \<Rightarrow> frame list \<Rightarrow> bool" where
  "frames_fit m fs \<longleftrightarrow> (\<forall>f \<in> set fs. frame_ok f \<and> length (payload f) \<le> m)"

lemma parse_stream_serialized:
  assumes "frames_fit m fs" and "parse_stream m tail = ([], None, tail)"
  shows "parse_stream m (concat (map serialize_frame fs) @ tail) = (fs, None, tail)"
  using assms(1)
proof (induction fs)
  case Nil
  show ?case by (simp add: assms(2))
next
  case (Cons f fs)
  then have ok: "frame_ok f" "length (payload f) \<le> m" and "frames_fit m fs"
    by (simp_all add: frames_fit_def)
  then have "deserialize_header (serialize_header (header f)) = Some (header f)"
    and "unat (payloadLength (header f)) = length (payload f)"
    by (simp_all add: frame_ok_def deserialize_serialize)
  with ok Cons.IH [OF \<open>frames_fit m fs\<close>] show ?case
    by (simp add: serialize_frame_def parse_stream_frame)
qed

lemma parse_stream_cut_frame:
  assumes "frame_ok g" and "length (payload g) \<le> m" and "k < length (serialize_frame g)"
  shows "parse_stream m (take k (serialize_frame g)) = ([], None, take k (serialize_frame g))"
proof (cases "k < kFrameHeaderSize")
  case True
  with assms(3) show ?thesis by (subst parse_stream.simps) simp
next
  case False
  from assms(1) have "deserialize_header (serialize_header (header g)) = Some (header g)"
    and "unat (payloadLength (header g)) = length (payload g)"
    by (simp_all add: frame_ok_def deserialize_serialize)
  with assms(2,3) False show ?thesis
    by (simp add: serialize_frame_def parse_stream_partial)
qed

text \<open>However TCP cuts the stream of serialised frames, the last of them possibly incomplete,
  the reader delivers exactly the whole frames, in order.\<close>

lemma reader_delivers:
  assumes "frames_fit m fs" and "parse_stream m tail = ([], None, tail)"
    and "concat chunks = concat (map serialize_frame fs) @ tail"
  shows "\<exists>r'. feed_chunks feed (new_reader m) chunks = (r', fs, None) \<and> holds r' tail"
proof -
  have "maxPayloadSize (new_reader m) = m" by (simp add: new_reader_def)
  with feed_parses [OF holds_new, of m "concat chunks"] parse_stream_serialized [OF assms(1,2)] assms(3)
  obtain r' where r': "feed (new_reader m) (concat chunks) = (r', Inr fs)" "holds r' tail"
    by auto
  have "settled (new_reader m)" by (simp add: settled_def new_reader_def kFrameHeaderSize_def)
  with r' show ?thesis by (auto simp: fr.chunks_ok)
qed

section \<open>Bounds and errors\<close>

definition reader_inv :: "reader \<Rightarrow> bool" where
  "reader_inv r \<longleftrightarrow> (rstate r = READING_PAYLOAD \<longrightarrow> wanted r \<le> maxPayloadSize r)"

lemma reader_inv_new [simp]: "reader_inv (new_reader m)"
  by (simp add: reader_inv_def new_reader_def)

lemma reader_inv_reset: "reader_inv (reset_reader r)"
  by (simp add: reader_inv_def reset_reader_def)

lemma read_loop_inv:
  "read_loop r acc = (r', q) \<Longrightarrow> reader_inv r \<Longrightarrow> reader_inv r' \<and> maxPayloadSize r' = maxPayloadSize r"
  by (induction r acc rule: read_loop_rounds) (auto simp: read_loop_eqs reader_inv_def)

lemma feed_inv: "feed r xs = (r', q) \<Longrightarrow> reader_inv r \<Longrightarrow> reader_inv r' \<and> maxPayloadSize r' = maxPayloadSize r"
  using read_loop_inv [of "ext r xs" "[]" r' q] by (auto simp: feed_def reader_inv_def)

lemma read_loop_frames_fit:
  assumes "read_loop r acc = (r', Inr fs)" and "reader_inv r" and "f \<in> set fs"
  shows "f \<in> set acc \<or> unat (payloadLength (header f)) = length (payload f) \<and> length (payload f) \<le> maxPayloadSize r"
  using assms
  by (induction r acc rule: read_loop_rounds) (auto simp: read_loop_eqs reader_inv_def min_def)

lemma feed_error_sticks:
  assumes "feed r xs = (r', Inl e)"
  shows "\<exists>r''. feed r' ys = (r'', Inl e)"
proof -
  have "read_loop s acc = (s', Inl e) \<Longrightarrow> \<exists>s''. read_loop s' acc' = (s'', Inl e)" for s acc s' acc'
    by (induction s acc rule: read_loop_rounds) (auto simp: read_loop_eqs)
  from this [of "ext r xs" "[]" r' "[]"] assms obtain r1 where "read_loop r' [] = (r1, Inl e)"
    by (auto simp: feed_def)
  from read_loop_ext_Inl [OF this, of ys] show ?thesis by (simp add: feed_def)
qed

lemma feed_new:
  "parse_stream m bs = (fs, None, rest) \<Longrightarrow> \<exists>r'. feed (new_reader m) bs = (r', Inr fs) \<and> holds r' rest"
  "parse_stream m bs = (fs, Some e, rest) \<Longrightarrow> \<exists>r'. feed (new_reader m) bs = (r', Inl e)"
  using feed_parses [OF holds_new, of m bs] by (auto simp: new_reader_def)

lemma frame_alone: "frames_fit m [g] \<Longrightarrow> k < length (serialize_frame g) \<Longrightarrow>
   parse_stream m (take k (serialize_frame g)) = ([], None, take k (serialize_frame g))"
  by (rule parse_stream_cut_frame) (simp_all add: frames_fit_def)

lemma parse_stream_violation:
  assumes "frames_fit m fs" and "12 \<le> length bad" and "deserialize_header (take 12 bad) = None"
  shows "parse_stream m (concat (map serialize_frame fs) @ bad) = (fs, Some Invalid_magic_or_version, bad)"
  using assms(1)
proof (induction fs)
  case Nil
  show ?case using assms(2,3) by (subst parse_stream.simps) (simp add: kFrameHeaderSize_def)
next
  case (Cons f fs)
  then have ok: "frame_ok f" "length (payload f) \<le> m" and "frames_fit m fs"
    by (simp_all add: frames_fit_def)
  then have "deserialize_header (serialize_header (header f)) = Some (header f)"
    and "unat (payloadLength (header f)) = length (payload f)"
    by (simp_all add: frame_ok_def deserialize_serialize)
  with ok Cons.IH [OF \<open>frames_fit m fs\<close>] show ?case
    by (simp add: serialize_frame_def parse_stream_frame)
qed

section \<open>Properties\<close>

text \<open>However the transport cuts a stream of well-formed frames into pieces, the reader
  delivers exactly the whole frames, in order and without an error, and keeps the bytes of the
  frame that is still incomplete.\<close>

theorem reader_delivers_frames:
  assumes "frames_fit m (fs @ [g])" and "k < length (serialize_frame g)"
    and "concat chunks = concat (map serialize_frame fs) @ take k (serialize_frame g)"
  shows "\<exists>r'. feed_chunks feed (new_reader m) chunks = (r', fs, None) \<and> holds r' (take k (serialize_frame g))"
  using assms by (intro reader_delivers frame_alone) (auto simp: frames_fit_def)

definition ping_frame :: frame where "ping_frame = create_frame_str PING ''{}''"

lemma ping_frame_eval:
  "serialize_frame ping_frame = [0x4C, 0x54, 0x4C, 0x41, 1, 0x20, 0, 0, 0, 2, 0, 0, 0x7B, 0x7D]"
  "frame_ok ping_frame" "length (payload ping_frame) = 2"
  by code_simp+

theorem reader_delivers_frames_witness:
  "\<exists>r'. feed_chunks feed (new_reader 100)
      [take 5 (serialize_frame ping_frame), drop 5 (serialize_frame ping_frame) @ [0x4C]] = (r', [ping_frame], None) \<and>
    holds r' [0x4C]"
  using reader_delivers_frames [of 100 "[ping_frame]" ping_frame 1
      "[take 5 (serialize_frame ping_frame), drop 5 (serialize_frame ping_frame) @ [0x4C]]"]
  by (simp add: ping_frame_eval frames_fit_def)

text \<open>C9. The reader refines the parser of the whole stream: a reader that holds the
  unconsumed bytes answers each call with the frames the parser finds in them and the new data,
  and with the parser's error when it finds one.\<close>

theorem feed_refines_parser:
  assumes "holds r bs"
  shows "case parse_stream (maxPayloadSize r) (bs @ data) of
      (fs, None, rest) \<Rightarrow> \<exists>r'. feed r data = (r', Inr fs) \<and> holds r' rest \<and> maxPayloadSize r' = maxPayloadSize r
    | (fs, Some e, rest) \<Rightarrow> \<exists>r'. feed r data = (r', Inl e)"
  using assms by (rule feed_parses)

theorem feed_refines_parser_witness:
  "case parse_stream (maxPayloadSize (new_reader 100)) ([] @ serialize_frame ping_frame) of
      (fs, None, rest) \<Rightarrow> \<exists>r'. feed (new_reader 100) (serialize_frame ping_frame) = (r', Inr fs) \<and> holds r' rest \<and>
        maxPayloadSize r' = maxPayloadSize (new_reader 100)
    | (fs, Some e, rest) \<Rightarrow> \<exists>r'. feed (new_reader 100) (serialize_frame ping_frame) = (r', Inl e)"
  by (rule feed_refines_parser) (rule holds_new)

text \<open>Where the pieces are cut does not matter: two cuts of the same bytes end without
  error in the same reader after the same frames, or neither does.\<close>

theorem cut_irrelevant:
  assumes "settled r" and "concat cs = concat ds"
  shows "feed_chunks feed r cs = (r', fs, None) \<longleftrightarrow> feed_chunks feed r ds = (r', fs, None)"
  using assms by (rule fr.chunks_cut_irrelevant)

theorem cut_irrelevant_witness:
  "\<forall>r' fs. feed_chunks feed (new_reader 9) [[1, 2], [3]] = (r', fs, None) \<longleftrightarrow>
    feed_chunks feed (new_reader 9) [[1], [], [2, 3]] = (r', fs, None)"
  by (intro allI cut_irrelevant) (simp_all add: settled_def new_reader_def kFrameHeaderSize_def)


lemma feed_ping: "feed (new_reader 100) (serialize_frame ping_frame @ [7]) =
    (\<lparr>rstate = READING_HEADER, buffer = [7], pendingHeader = header ping_frame, maxPayloadSize = 100\<rparr>, Inr [ping_frame])"
  unfolding ping_frame_eval by code_simp


text \<open>A protocol violation is final: once a call has thrown, every later call on the
  reader throws the same error, whatever it is fed.\<close>

theorem violation_final:
  assumes "feed r xs = (r', Inl e)"
  shows "\<exists>r''. feed r' ys = (r'', Inl e)"
  using assms by (rule feed_error_sticks)

lemma feed_garbage: "feed (new_reader 100) [0, 0, 0, 0, 0, 0, 0, 0, 0, 0, 0, 0] =
    ((new_reader 100)\<lparr>buffer := [0, 0, 0, 0, 0, 0, 0, 0, 0, 0, 0, 0]\<rparr>, Inl Invalid_magic_or_version)"
  by code_simp

theorem violation_final_witness:
  "\<exists>r''. feed ((new_reader 100)\<lparr>buffer := [0, 0, 0, 0, 0, 0, 0, 0, 0, 0, 0, 0]\<rparr>) (serialize_frame ping_frame) =
    (r'', Inl Invalid_magic_or_version)"
  by (rule violation_final) (rule feed_garbage)

text \<open>Whether the frames before a violation are delivered depends on how the bytes arrive:
  in one piece with the bad header they are lost with the exception, in a piece of their own they
  are delivered.\<close>

theorem violation_drops_frames:
  assumes "frames_fit m fs" and "12 \<le> length bad" and "deserialize_header (take 12 bad) = None"
  shows "\<exists>r1 r2. feed_chunks feed (new_reader m) [concat (map serialize_frame fs) @ bad] =
      (r1, [], Some Invalid_magic_or_version) \<and>
    feed_chunks feed (new_reader m) [concat (map serialize_frame fs), bad] =
      (r2, fs, Some Invalid_magic_or_version)"
proof -
  have "parse_stream m [] = ([], None, [])" by (subst parse_stream.simps) (simp add: kFrameHeaderSize_def)
  with parse_stream_serialized [OF assms(1), of "[]"] obtain r where
    r: "feed (new_reader m) (concat (map serialize_frame fs)) = (r, Inr fs)"
    using feed_new(1) [of m "concat (map serialize_frame fs)" fs "[]"] by auto
  obtain r1 where r1: "feed (new_reader m) (concat (map serialize_frame fs) @ bad) = (r1, Inl Invalid_magic_or_version)"
    using feed_new(2) [OF parse_stream_violation [OF assms]] by auto
  with feed_more_ext [OF r, of bad] obtain r2 where "feed r bad = (r2, Inl Invalid_magic_or_version)"
    by (auto split: prod.splits sum.splits)
  with r r1 show ?thesis by simp
qed

theorem violation_drops_frames_witness:
  "\<exists>r1 r2. feed_chunks feed (new_reader 100)
      [concat (map serialize_frame [ping_frame]) @ [0, 0, 0, 0, 0, 0, 0, 0, 0, 0, 0, 0]] =
      (r1, [], Some Invalid_magic_or_version) \<and>
    feed_chunks feed (new_reader 100)
      [concat (map serialize_frame [ping_frame]), [0, 0, 0, 0, 0, 0, 0, 0, 0, 0, 0, 0]] =
      (r2, [ping_frame], Some Invalid_magic_or_version)"
proof (rule violation_drops_frames)
  show "frames_fit 100 [ping_frame]" by (simp add: frames_fit_def ping_frame_eval)
  show "deserialize_header (take 12 [0, 0, 0, 0, 0, 0, 0, 0, 0, 0, 0, 0]) = None" by code_simp
qed simp

end
