(* ===== verification/Tcp_Socket.thy ===== *)
theory Tcp_Socket imports Lantalk_Prelude begin

text \<open>
  TCP sockets (\<open>src/network/tcp_socket.hpp\<close>, \<open>tcp_socket.cpp\<close>): the handle and
  its ownership, the partial-write loop of \<open>sendAll\<close>, and the result codes of
  \<open>recv\<close>. The kernel is not under \<open>src/\<close>: its answers to \<open>::send\<close> and
  \<open>::recv\<close> are given, one value per call. The answers to \<open>::send\<close> on a socket are a
  finite script; when it is used up every further \<open>::send\<close> fails, as on a connection the
  peer has reset. What the kernel accepted is kept in \<open>wire\<close>, which no code reads.
\<close>

type_synonym socket_handle = int

definition kInvalidSocket :: socket_handle where "kInvalidSocket = -1"

text \<open>One answer of \<open>::send\<close>: so many bytes taken, an interrupted or blocked call
  (\<open>EINTR\<close>, \<open>EAGAIN\<close>, \<open>EWOULDBLOCK\<close>), another error.\<close>

datatype send_answer = Accepts nat | Again | Send_error

datatype recv_answer = Received bytes | Recv_again | Recv_error

record tcp_socket =
  handle :: socket_handle
  kernel :: "send_answer list"
  wire :: bytes

definition isValid :: "tcp_socket \<Rightarrow> bool" where
  "isValid s \<longleftrightarrow> handle s \<noteq> kInvalidSocket"

text \<open>\<open>close\<close> returns the descriptor it gave back to the system, if any.\<close>

definition close :: "tcp_socket \<Rightarrow> tcp_socket \<times> socket_handle list" where
  "close s = (if isValid s then (s\<lparr>handle := kInvalidSocket\<rparr>, [handle s]) else (s, []))"

definition release :: "tcp_socket \<Rightarrow> tcp_socket \<times> socket_handle" where
  "release s = (s\<lparr>handle := kInvalidSocket\<rparr>, handle s)"

text \<open>The move constructor and the move assignment: target, source, descriptors closed. The
  test \<open>this != &other\<close> is the first argument.\<close>

definition move_construct :: "tcp_socket \<Rightarrow> tcp_socket \<times> tcp_socket" where
  "move_construct other = (other, other\<lparr>handle := kInvalidSocket\<rparr>)"

definition move_assign :: "bool \<Rightarrow> tcp_socket \<Rightarrow> tcp_socket \<Rightarrow> tcp_socket \<times> tcp_socket \<times> socket_handle list" where
  "move_assign same this other =
     (if \<not> same then
        (case close this of (_, closed) \<Rightarrow> (other, other\<lparr>handle := kInvalidSocket\<rparr>, closed))
      else (this, other, []))"

text \<open>The loop \<open>while (totalSent < len)\<close> on the bytes still to send. The kernel never takes
  more than it is offered.\<close>

fun send_loop :: "send_answer list \<Rightarrow> bytes \<Rightarrow> send_answer list \<times> bytes \<times> bool" where
  "send_loop as [] = (as, [], True)"
| "send_loop [] (b # bs) = ([], [], False)"
| "send_loop (Again # as) (b # bs) = send_loop as (b # bs)"
| "send_loop (Send_error # as) (b # bs) = (as, [], False)"
| "send_loop (Accepts k # as) (b # bs) =
     (case send_loop as (drop k (b # bs)) of (as', w, ok) \<Rightarrow> (as', take k (b # bs) @ w, ok))"

definition sendAll :: "tcp_socket \<Rightarrow> bytes \<Rightarrow> tcp_socket \<times> bool" where
  "sendAll s data =
     (if \<not> isValid s then (s, False)
      else case send_loop (kernel s) data of (as, w, ok) \<Rightarrow> (s\<lparr>kernel := as, wire := wire s @ w\<rparr>, ok))"

text \<open>\<open>recv\<close>: the result code and what the call wrote into the buffer. The code 0 stands
  for a closed connection and for a call that was interrupted or timed out.\<close>

definition recv_code :: "recv_answer \<Rightarrow> nat \<Rightarrow> int \<times> bytes" where
  "recv_code a bufferSize =
     (case a of
        Received d \<Rightarrow> (int (length (take bufferSize d)), take bufferSize d)
      | Recv_again \<Rightarrow> (0, [])
      | Recv_error \<Rightarrow> (-1, []))"

definition recv :: "tcp_socket \<Rightarrow> recv_answer \<Rightarrow> nat \<Rightarrow> int \<times> bytes" where
  "recv s a bufferSize = (if \<not> isValid s then (-1, []) else recv_code a bufferSize)"

section \<open>Facts\<close>

lemma close_simps [simp, state_simps]:
  "\<not> isValid (fst (close s))" "wire (fst (close s)) = wire s" "kernel (fst (close s)) = kernel s"
  by (simp_all add: close_def isValid_def)

lemma close_twice: "close (fst (close s)) = (fst (close s), [])"
  by (simp add: close_def isValid_def)

lemma take_append_prefix:
  "prefix w (drop k d) \<Longrightarrow> prefix (take k d @ w) d"
  by (metis append_take_drop_id same_prefix_prefix)

lemma take_append_eq: "take k d @ w = d \<longleftrightarrow> w = drop k d"
  by (metis append_take_drop_id same_append_eq)

lemma send_loop_spec:
  "send_loop as d = (as', w, ok) \<Longrightarrow> prefix w d \<and> (ok \<longleftrightarrow> w = d)"
proof (induction as d arbitrary: as' w ok rule: send_loop.induct)
  case (5 k as b bs)
  obtain as1 w1 ok1 where 1: "send_loop as (drop k (b # bs)) = (as1, w1, ok1)" by (metis prod_cases3)
  with 5 have "prefix w1 (drop k (b # bs))" "ok1 \<longleftrightarrow> w1 = drop k (b # bs)" by blast+
  with 5(2) show ?case
    unfolding send_loop.simps(5) 1 by (auto simp only: prod.case prod.inject take_append_prefix take_append_eq)
qed auto

lemma sendAll_wire:
  assumes "sendAll s d = (s', ok)"
  shows "\<exists>w. wire s' = wire s @ w \<and> prefix w d \<and> (ok \<longrightarrow> w = d)"
  using assms send_loop_spec [of "kernel s" d]
  by (auto simp: sendAll_def split: if_splits prod.splits)

lemma sendAll_handle [simp, state_simps]: "handle (fst (sendAll s d)) = handle s"
  by (simp add: sendAll_def split: prod.split)

lemma sendAll_valid [simp, state_simps]: "isValid (fst (sendAll s d)) = isValid s"
  by (simp add: isValid_def)

text \<open>Interrupted calls do not change what is sent.\<close>

lemma send_loop_again:
  "snd (send_loop (filter (\<lambda>a. a \<noteq> Again) as) d) = snd (send_loop as d)"
  by (induction as d rule: send_loop.induct) (auto split: prod.splits)

text \<open>A kernel that keeps taking bytes gets them all.\<close>

lemma send_loop_delivers:
  assumes "Send_error \<notin> set as" and "length d \<le> sum_list (map (\<lambda>a. case a of Accepts k \<Rightarrow> k | _ \<Rightarrow> 0) as)"
  shows "\<exists>as'. send_loop as d = (as', d, True)"
  using assms
proof (induction as d rule: send_loop.induct)
  case (5 k as b bs)
  then have "\<exists>as'. send_loop as (drop k (b # bs)) = (as', drop k (b # bs), True)" by auto
  then show ?case by auto
qed auto

section \<open>Properties\<close>

text \<open>Sending is all or a prefix: the bytes the kernel takes are a prefix of the data, the
  whole of it exactly when \<open>sendAll\<close> reports success, and a closed socket sends nothing.\<close>

theorem sendAll_exact:
  "case sendAll s d of (s', ok) \<Rightarrow>
     \<exists>w. wire s' = wire s @ w \<and> prefix w d \<and> (ok \<longleftrightarrow> isValid s \<and> w = d) \<and> handle s' = handle s"
proof -
  obtain as w ok where l: "send_loop (kernel s) d = (as, w, ok)" by (metis prod_cases3)
  from send_loop_spec [OF l] show ?thesis by (auto simp: sendAll_def l)
qed

text \<open>Interrupted and blocked calls are invisible: dropping them from the kernel's answers
  changes neither what is sent nor the result, and a kernel that reports no error and offers room
  for the data gets all of it.\<close>

theorem sendAll_retries:
  assumes "isValid s" and "Send_error \<notin> set (kernel s)"
    and "length d \<le> sum_list (map (\<lambda>a. case a of Accepts k \<Rightarrow> k | _ \<Rightarrow> 0) (kernel s))"
  shows "snd (sendAll s d) \<and> wire (fst (sendAll s d)) = wire s @ d \<and>
    wire (fst (sendAll (s\<lparr>kernel := filter (\<lambda>a. a \<noteq> Again) (kernel s)\<rparr>) d)) = wire s @ d"
proof -
  obtain as where l: "send_loop (kernel s) d = (as, d, True)"
    using send_loop_delivers [OF assms(2,3)] by blast
  with send_loop_again [of "kernel s" d] have "snd (send_loop (filter (\<lambda>a. a \<noteq> Again) (kernel s)) d) = (d, True)"
    by simp
  with l assms(1) show ?thesis by (auto simp: sendAll_def isValid_def split: prod.split)
qed

theorem sendAll_retries_witness:
  "snd (sendAll \<lparr>handle = 4, kernel = [Again, Accepts 1, Again, Accepts 5], wire = []\<rparr> [7, 8, 9])"
  using sendAll_retries [of "\<lparr>handle = 4, kernel = [Again, Accepts 1, Again, Accepts 5], wire = []\<rparr>" "[7, 8, 9]"]
  by (simp add: isValid_def kInvalidSocket_def)

end
