(* ===== verification/Connection.thy ===== *)
theory Connection imports Frame_Reader Tcp_Socket begin

text \<open>
  Connections (\<open>src/network/connection.hpp\<close>, \<open>connection.cpp\<close>): the state, sending,
  the graceful disconnect, and the receiving thread. A round of \<open>recvLoop\<close> is cut where
  control leaves the connection: the head of the loop, the return of \<open>recv\<close>, each frame
  handed to the callback, and the rate check after the last one. The session composes them; \<open>recv_round\<close> is the round of a connection whose callback leaves it alone. The
  locale \<open>connection_client\<close> is what the session relies on.
\<close>

datatype connection_state = CONNECTED | AUTHENTICATING | AUTHENTICATED | DISCONNECTING | DISCONNECTED

record connection_info =
  ciPeerId :: string
  ciPeerName :: string
  ciPeerAddress :: string
  ciPeerPort :: u16
  ciPlatform :: string

text \<open>Where the receiving thread is: not started, about to test \<open>running_\<close>, inside
  \<open>::recv\<close>, with these frames still to hand over, or finished. \<open>frameCount\<close> and \<open>lastCheck\<close> (nanoseconds of the
  steady clock) are locals of \<open>recvLoop\<close>.\<close>

datatype recv_thread = Not_started | At_head | In_recv | Delivering "frame list" | Ended

record connection =
  socket :: "tcp_socket option"
  reader_of :: reader
  state :: connection_state
  info :: connection_info
  running :: bool
  thread :: recv_thread
  frameCount :: int
  lastCheck :: int

definition new_connection :: "tcp_socket option \<Rightarrow> nat \<Rightarrow> connection" where
  "new_connection s m = \<lparr>socket = s, reader_of = new_reader m, state = CONNECTED,
     info = \<lparr>ciPeerId = '''', ciPeerName = '''', ciPeerAddress = '''', ciPeerPort = 0, ciPlatform = ''''\<rparr>,
     running = False, thread = Not_started, frameCount = 0, lastCheck = 0\<rparr>"

definition conn_start :: "int \<Rightarrow> connection \<Rightarrow> connection" where
  "conn_start now c = c\<lparr>running := True, thread := At_head, frameCount := 0, lastCheck := now\<rparr>"

definition setState :: "connection_state \<Rightarrow> connection \<Rightarrow> connection" where
  "setState st c = c\<lparr>state := st\<rparr>"

section \<open>Sending\<close>

definition conn_send :: "connection \<Rightarrow> frame \<Rightarrow> connection \<times> bool" where
  "conn_send c f =
     (case socket c of
        None \<Rightarrow> (c, False)
      | Some s \<Rightarrow>
          if \<not> running c then (c, False)
          else case sendAll s (serialize_frame f) of (s', ok) \<Rightarrow> (c\<lparr>socket := Some s'\<rparr>, ok))"

definition conn_send_str :: "connection \<Rightarrow> message_type \<Rightarrow> string \<Rightarrow> connection \<times> bool" where
  "conn_send_str c t jsonPayload = conn_send c (create_frame_str t jsonPayload)"

definition close_socket :: "connection \<Rightarrow> connection" where
  "close_socket c = (case socket c of None \<Rightarrow> c | Some s \<Rightarrow> c\<lparr>socket := Some (fst (close s))\<rparr>)"

definition conn_disconnect :: "connection \<Rightarrow> string \<Rightarrow> connection" where
  "conn_disconnect c reason =
     (if state c = DISCONNECTED then c
      else
        let c1 = setState DISCONNECTING c;
            c2 = fst (conn_send_str c1 message_type.DISCONNECT reason);
            c3 = close_socket (c2\<lparr>running := False\<rparr>)
        in setState DISCONNECTED c3)"

text \<open>The destructor; its \<open>join\<close> waits until the thread has left its loop.\<close>

definition conn_destroy :: "connection \<Rightarrow> connection" where
  "conn_destroy c = (close_socket (c\<lparr>running := False\<rparr>))
     \<lparr>thread := (if thread c = Not_started then Not_started else Ended)\<rparr>"

definition remoteAddress :: "(tcp_socket \<Rightarrow> string) \<Rightarrow> connection \<Rightarrow> string" where
  "remoteAddress getpeername c =
     (case socket c of None \<Rightarrow> '''' | Some s \<Rightarrow> if isValid s then getpeername s else '''')"

section \<open>The receiving thread\<close>

text \<open>What a part of a round asks for: nothing, or a call of \<open>onDisconnect_\<close>;
  \<open>Null_socket\<close> is the use of a null pointer.\<close>

datatype recv_event = Quiet | Closed string | Null_socket

definition recv_result :: "connection \<Rightarrow> int \<times> bytes \<Rightarrow> connection \<times> recv_event" where
  "recv_result c r =
     (if fst r \<le> 0 then
        (if running c then
           (setState DISCONNECTED (c\<lparr>running := False, thread := Ended\<rparr>), Closed ''Connection closed'')
         else (c\<lparr>thread := Ended\<rparr>, Quiet))
      else case feed (reader_of c) (snd r) of
        (r', Inl e) \<Rightarrow>
          (conn_disconnect (c\<lparr>reader_of := r', thread := Ended\<rparr>) (''Protocol error: '' @ reader_error_what e), Quiet)
      | (r', Inr frames) \<Rightarrow>
          (c\<lparr>reader_of := r', thread := Delivering frames\<rparr>, Quiet))"

text \<open>The test of the loop, and the entry into \<open>recv\<close>, which does not block on a closed socket.\<close>

definition recv_enter :: "connection \<Rightarrow> connection \<times> recv_event" where
  "recv_enter c =
     (if \<not> running c then (c\<lparr>thread := Ended\<rparr>, Quiet)
      else case socket c of
        None \<Rightarrow> (c, Null_socket)
      | Some s \<Rightarrow> if isValid s then (c\<lparr>thread := In_recv\<rparr>, Quiet) else recv_result c (-1, []))"

definition recv_buffer_size :: nat where "recv_buffer_size = 4096"

text \<open>\<open>::recv\<close> returns, to the call that found the socket open.\<close>

definition recv_return :: "connection \<Rightarrow> recv_answer \<Rightarrow> connection \<times> recv_event" where
  "recv_return c a = recv_result c (recv_code a recv_buffer_size)"

text \<open>The next frame of \<open>for (auto& f : frames)\<close>.\<close>

definition next_frame :: "connection \<Rightarrow> (frame \<times> connection) option" where
  "next_frame c =
     (case thread c of
        Delivering (f # fs) \<Rightarrow> Some (f, c\<lparr>frameCount := frameCount c + 1, thread := Delivering fs\<rparr>)
      | _ \<Rightarrow> None)"

text \<open>After the callbacks: the rate check, at most once a second.\<close>

definition rate_check :: "int \<Rightarrow> connection \<Rightarrow> connection" where
  "rate_check now c =
     (if 1 \<le> (now - lastCheck c) div 1000000000 then
        (if 100 < frameCount c then (conn_disconnect c ''Rate limit exceeded'')\<lparr>thread := Ended\<rparr>
         else c\<lparr>frameCount := 0, lastCheck := now, thread := At_head\<rparr>)
      else c\<lparr>thread := At_head\<rparr>)"

text \<open>A whole round for a callback that does not touch the connection: the frames delivered.\<close>

fun deliver_all :: "frame list \<Rightarrow> connection \<Rightarrow> connection" where
  "deliver_all [] c = c"
| "deliver_all (f # fs) c = (case next_frame c of None \<Rightarrow> c | Some (_, c') \<Rightarrow> deliver_all fs c')"

definition recv_round :: "connection \<Rightarrow> recv_answer \<times> int \<Rightarrow> connection \<times> frame list" where
  "recv_round c an =
     (let c1 = fst (recv_enter c) in
      case thread c1 of
        In_recv \<Rightarrow>
          (let c2 = fst (recv_return c1 (fst an)) in
           case thread c2 of
             Delivering fs \<Rightarrow> (rate_check (snd an) (deliver_all fs c2), fs)
           | _ \<Rightarrow> (c2, []))
      | _ \<Rightarrow> (c1, []))"

fun recv_rounds :: "connection \<Rightarrow> (recv_answer \<times> int) list \<Rightarrow> connection \<times> frame list" where
  "recv_rounds c [] = (c, [])"
| "recv_rounds c (a # as) =
     (if thread c = At_head then
        case recv_round c a of (c1, fs) \<Rightarrow> case recv_rounds c1 as of (c2, gs) \<Rightarrow> (c2, fs @ gs)
      else (c, []))"

section \<open>What a client of a connection relies on\<close>

fun sends :: "('c \<Rightarrow> 'f \<Rightarrow> 'c \<times> bool) \<Rightarrow> 'c \<Rightarrow> 'f list \<Rightarrow> 'c \<times> bool" where
  "sends snd_one c [] = (c, True)"
| "sends snd_one c (f # fs) =
     (case snd_one c f of (c1, b) \<Rightarrow> case sends snd_one c1 fs of (c2, bs) \<Rightarrow> (c2, b \<and> bs))"

locale connection_client =
  fixes send :: "'c \<Rightarrow> frame \<Rightarrow> 'c \<times> bool"
    and disc :: "'c \<Rightarrow> string \<Rightarrow> 'c"
    and live :: "'c \<Rightarrow> bool"
    and out :: "'c \<Rightarrow> bytes"
    and ok :: "'c \<Rightarrow> bool"
  assumes send_dead: "\<not> live c \<Longrightarrow> send c f = (c, False)"
    and send_live: "send c f = (c', b) \<Longrightarrow> live c' \<longleftrightarrow> live c"
    and send_out: "send c f = (c', b) \<Longrightarrow>
          \<exists>w. out c' = out c @ w \<and> prefix w (serialize_frame f) \<and> (b \<longrightarrow> w = serialize_frame f)"
    and send_ok: "send c f = (c', b) \<Longrightarrow> ok c \<Longrightarrow> ok c'"
    and disc_ok: "ok c \<Longrightarrow> ok (disc c r)"
    and disc_dead: "ok c \<Longrightarrow> \<not> live (disc c r)"
    and disc_out: "\<exists>w. out (disc c r) = out c @ w"
begin

lemma sends_out:
  "sends send c fs = (c', True) \<Longrightarrow> out c' = out c @ concat (map serialize_frame fs)"
proof (induction fs arbitrary: c)
  case (Cons f fs)
  obtain c1 b where 1: "send c f = (c1, b)" by (cases "send c f")
  obtain c2 bs where 2: "sends send c1 fs = (c2, bs)" by (cases "sends send c1 fs")
  with Cons 1 send_out [OF 1] show ?case by auto
qed simp

lemma sends_prefix: "\<exists>w. out (fst (sends send c fs)) = out c @ w"
proof (induction fs arbitrary: c)
  case (Cons f fs)
  obtain c1 b where 1: "send c f = (c1, b)" by (cases "send c f")
  from Cons [of c1] send_out [OF 1] show ?case by (auto simp: 1 split: prod.splits)
qed simp

lemma sends_dead: "\<not> live c \<Longrightarrow> sends send c (f # fs) = (c, False)"
proof (induction fs arbitrary: f)
  case (Cons g fs)
  from Cons.IH [OF Cons.prems, of g] Cons.prems show ?case by (simp add: send_dead split: prod.splits)
qed (simp add: send_dead)

lemma after_disc: "ok c \<Longrightarrow> send (disc c r) f = (disc c r, False)"
  by (simp add: send_dead disc_dead)

lemma sends_ok: "ok c \<Longrightarrow> ok (fst (sends send c fs))"
proof (induction fs arbitrary: c)
  case (Cons f fs)
  obtain c1 b where 1: "send c f = (c1, b)" by (cases "send c f")
  from Cons.IH [of c1] Cons.prems send_ok [OF 1] show ?case by (auto simp: 1 split: prod.splits)
qed simp

end

subsection \<open>The model's connection provides it\<close>

definition live :: "connection \<Rightarrow> bool" where
  "live c \<longleftrightarrow> running c \<and> socket c \<noteq> None"

definition sent :: "connection \<Rightarrow> bytes" where
  "sent c = (case socket c of None \<Rightarrow> [] | Some s \<Rightarrow> wire s)"

text \<open>A disconnected connection is not running, nor is one whose thread has finished.\<close>

definition conn_ok :: "connection \<Rightarrow> bool" where
  "conn_ok c \<longleftrightarrow> (state c = DISCONNECTED \<longrightarrow> \<not> running c) \<and> (thread c = Ended \<longrightarrow> \<not> running c) \<and>
     (state c = CONNECTED \<or> state c = DISCONNECTED) \<and> reader_inv (reader_of c)"

lemma conn_send_fields:
  assumes "conn_send c f = (c', b)"
  shows "running c' = running c" "state c' = state c" "thread c' = thread c" "reader_of c' = reader_of c"
    "socket c' = None \<longleftrightarrow> socket c = None" "frameCount c' = frameCount c" "lastCheck c' = lastCheck c"
    "info c' = info c"
  using assms by (auto simp: conn_send_def split: option.splits if_splits prod.splits)

lemma conn_send_out:
  assumes "conn_send c f = (c', b)"
  shows "\<exists>w. sent c' = sent c @ w \<and> prefix w (serialize_frame f) \<and> (b \<longrightarrow> w = serialize_frame f)"
  using assms sendAll_wire [of _ "serialize_frame f"]
  by (fastforce simp: conn_send_def sent_def split: option.splits if_splits prod.splits)

lemma close_socket_fields [simp, state_simps]:
  "running (close_socket c) = running c" "state (close_socket c) = state c" "thread (close_socket c) = thread c"
  "reader_of (close_socket c) = reader_of c" "sent (close_socket c) = sent c"
  "socket (close_socket c) = None \<longleftrightarrow> socket c = None"
  "socket (close_socket c) = Some s \<Longrightarrow> \<not> isValid s"
  by (auto simp: close_socket_def sent_def split: option.splits)

lemma conn_disconnect_state:
  assumes "state c \<noteq> DISCONNECTED"
  shows "state (conn_disconnect c r) = DISCONNECTED" "\<not> running (conn_disconnect c r)"
    "thread (conn_disconnect c r) = thread c" "reader_of (conn_disconnect c r) = reader_of c"
    "socket (conn_disconnect c r) = Some s \<Longrightarrow> \<not> isValid s"
    "sent (conn_disconnect c r) = sent (fst (conn_send_str c message_type.DISCONNECT r))"
proof -
  obtain c2 b where 2: "conn_send_str (setState DISCONNECTING c) message_type.DISCONNECT r = (c2, b)"
    by (cases "conn_send_str (setState DISCONNECTING c) message_type.DISCONNECT r")
  have "sent c2 = sent (fst (conn_send_str c message_type.DISCONNECT r))"
    using 2 by (auto simp: conn_send_str_def conn_send_def setState_def sent_def split: option.splits if_splits prod.splits)
  moreover have "conn_disconnect c r = setState DISCONNECTED (close_socket (c2\<lparr>running := False\<rparr>))"
    using assms by (simp add: conn_disconnect_def 2)
  moreover note conn_send_fields [OF 2 [unfolded conn_send_str_def]]
  ultimately show "state (conn_disconnect c r) = DISCONNECTED" "\<not> running (conn_disconnect c r)"
    "thread (conn_disconnect c r) = thread c" "reader_of (conn_disconnect c r) = reader_of c"
    "socket (conn_disconnect c r) = Some s \<Longrightarrow> \<not> isValid s"
    "sent (conn_disconnect c r) = sent (fst (conn_send_str c message_type.DISCONNECT r))"
    by (auto simp: setState_def sent_def [of "_\<lparr>state := _\<rparr>"] sent_def [of "_\<lparr>running := _\<rparr>"] simp flip: sent_def
        dest: close_socket_fields(7))
qed

lemma conn_disconnect_again [simp]: "state c = DISCONNECTED \<Longrightarrow> conn_disconnect c r = c"
  by (simp add: conn_disconnect_def)

lemma disconnect_thread: "thread (conn_disconnect c r) = thread c"
  by (cases "state c = DISCONNECTED") (simp_all add: conn_disconnect_state)

lemma conn_disconnect_ok: "conn_ok c \<Longrightarrow> conn_ok (conn_disconnect c r)"
  by (cases "state c = DISCONNECTED") (simp_all add: conn_ok_def conn_disconnect_state)

interpretation cc: connection_client conn_send conn_disconnect live sent conn_ok
proof unfold_locales
  fix c f c' b r assume s: "conn_send c f = (c', b)"
  show "live c' \<longleftrightarrow> live c" using conn_send_fields [OF s] by (simp add: live_def)
  show "\<exists>w. sent c' = sent c @ w \<and> prefix w (serialize_frame f) \<and> (b \<longrightarrow> w = serialize_frame f)"
    using s by (rule conn_send_out)
  show "conn_ok c \<Longrightarrow> conn_ok c'" using conn_send_fields [OF s] by (simp add: conn_ok_def)
next
  fix c f assume "\<not> live c"
  then show "conn_send c f = (c, False)" by (auto simp: conn_send_def live_def split: option.split)
next
  fix c r assume ok: "conn_ok c"
  then show "conn_ok (conn_disconnect c r)" by (rule conn_disconnect_ok)
  show "\<not> live (conn_disconnect c r)"
    using ok by (cases "state c = DISCONNECTED") (simp_all add: live_def conn_ok_def conn_disconnect_state)
next
  fix c r
  show "\<exists>w. sent (conn_disconnect c r) = sent c @ w"
  proof (cases "state c = DISCONNECTED")
    case False
    obtain c2 b where "conn_send_str c message_type.DISCONNECT r = (c2, b)"
      by (cases "conn_send_str c message_type.DISCONNECT r")
    with False conn_send_out show ?thesis by (fastforce simp: conn_disconnect_state conn_send_str_def)
  qed simp
qed

section \<open>The receiving thread keeps the invariant\<close>

lemma conn_ok_new: "conn_ok (new_connection s m)"
  by (simp add: conn_ok_def new_connection_def)

lemma conn_ok_start: "conn_ok c \<Longrightarrow> state c = CONNECTED \<Longrightarrow> conn_ok (conn_start now c)"
  by (simp add: conn_ok_def conn_start_def)

lemma disconnect_ends:
  assumes "state c = DISCONNECTED \<longrightarrow> \<not> running c" and "state c = CONNECTED \<or> state c = DISCONNECTED"
    and "reader_inv (reader_of c)"
  shows "conn_ok (conn_disconnect c r)" "\<not> running (conn_disconnect c r)"
    "conn_ok ((conn_disconnect c r)\<lparr>thread := t\<rparr>)"
  using assms by (cases "state c = DISCONNECTED"; simp add: conn_ok_def conn_disconnect_state)+

lemma recv_result_ok:
  assumes "conn_ok c" and "recv_result c r = (c', ev)"
  shows "conn_ok c'"
proof (cases "fst r \<le> 0")
  case True
  with assms show ?thesis by (auto simp: recv_result_def conn_ok_def setState_def split: if_splits)
next
  case False
  obtain r1 q where q: "feed (reader_of c) (snd r) = (r1, q)" by (cases "feed (reader_of c) (snd r)")
  with assms(1) feed_inv [OF q] have r1: "reader_inv r1" by (simp add: conn_ok_def)
  show ?thesis
  proof (cases q)
    case (Inl e)
    with assms(2) False q have "c' = conn_disconnect (c\<lparr>reader_of := r1, thread := Ended\<rparr>)
        (''Protocol error: '' @ reader_error_what e)"
      by (simp add: recv_result_def del: append.simps)
    also have "conn_ok \<dots>"
      using assms(1) r1 by (intro disconnect_ends(1)) (simp_all add: conn_ok_def)
    finally show ?thesis .
  next
    case (Inr fs)
    with assms False q r1 show ?thesis by (auto simp: recv_result_def conn_ok_def)
  qed
qed

lemma recv_enter_ok: "conn_ok c \<Longrightarrow> recv_enter c = (c', ev) \<Longrightarrow> conn_ok c'"
  using recv_result_ok [of c "(-1, [])" c' ev]
  by (auto simp: recv_enter_def conn_ok_def split: if_splits option.splits)

lemma recv_return_ok: "conn_ok c \<Longrightarrow> recv_return c a = (c', ev) \<Longrightarrow> conn_ok c'"
  by (simp add: recv_return_def recv_result_ok)

lemma rate_check_ok:
  assumes "conn_ok c" and "thread c \<noteq> Ended"
  shows "conn_ok (rate_check now c)"
proof -
  have "conn_ok ((conn_disconnect c r)\<lparr>thread := Ended\<rparr>)" for r
    using assms by (intro disconnect_ends(3)) (simp_all add: conn_ok_def)
  with assms show ?thesis by (simp add: rate_check_def) (simp add: conn_ok_def)
qed

lemma conn_destroy_ok: "conn_ok c \<Longrightarrow> conn_ok (conn_destroy c)"
  by (auto simp: conn_destroy_def conn_ok_def)

lemma conn_destroy_dead: "\<not> running (conn_destroy c)" "thread (conn_destroy c) \<in> {Not_started, Ended}"
  "socket (conn_destroy c) = Some s \<Longrightarrow> \<not> isValid s"
  by (auto simp: conn_destroy_def dest: close_socket_fields(7))

text \<open>What was sent stays sent.\<close>

lemma sent_fields [simp]:
  "sent (c\<lparr>running := b\<rparr>) = sent c" "sent (c\<lparr>state := st\<rparr>) = sent c" "sent (c\<lparr>thread := th\<rparr>) = sent c"
  "sent (c\<lparr>reader_of := r\<rparr>) = sent c" "sent (c\<lparr>frameCount := n\<rparr>) = sent c" "sent (c\<lparr>lastCheck := l\<rparr>) = sent c"
  "sent (setState st c) = sent c" "sent (conn_start now c) = sent c"
  by (simp_all add: sent_def setState_def conn_start_def)

lemma sent_destroy [simp]: "sent (conn_destroy c) = sent c"
  by (simp add: conn_destroy_def)

section \<open>Delivery\<close>

text \<open>A connection whose thread is about to read from an open socket.\<close>

definition receiving :: "connection \<Rightarrow> bool" where
  "receiving c \<longleftrightarrow> running c \<and> thread c = At_head \<and> (\<exists>s. socket c = Some s \<and> isValid s)"

lemma deliver_all_eq:
  "thread c = Delivering fs \<Longrightarrow>
   deliver_all fs c = c\<lparr>frameCount := frameCount c + int (length fs), thread := Delivering []\<rparr>"
  by (induction fs arbitrary: c) (simp_all add: next_frame_def)

lemma recv_round_data:
  assumes "receiving c" and "d \<noteq> []" and "length d \<le> recv_buffer_size"
    and "feed (reader_of c) d = (r', Inr fs)"
  shows "recv_round c (Received d, now) =
    (rate_check now (c\<lparr>reader_of := r', frameCount := frameCount c + int (length fs), thread := Delivering []\<rparr>), fs)"
  using assms
  by (auto simp: receiving_def recv_round_def recv_enter_def recv_return_def recv_code_def recv_result_def deliver_all_eq)

lemma recv_round_violation:
  assumes "receiving c" and "d \<noteq> []" and "length d \<le> recv_buffer_size"
    and "feed (reader_of c) d = (r', Inl e)"
  shows "recv_round c (Received d, now) =
    (conn_disconnect (c\<lparr>reader_of := r', thread := Ended\<rparr>) (''Protocol error: '' @ reader_error_what e), [])"
  using assms disconnect_thread [of "c\<lparr>reader_of := r', thread := Ended\<rparr>"]
  by (auto simp: receiving_def recv_round_def recv_enter_def recv_return_def recv_code_def recv_result_def simp del: append.simps)

text \<open>Data in pieces that fit the buffer: the frames the reader makes of it, in order, as long
  as the rate check lets every round pass. \<open>P\<close> is the reason it does: a relation of the
  connection, the number of frames to come and the times of the rounds to come.\<close>

abbreviation counted :: "connection \<Rightarrow> reader \<Rightarrow> nat \<Rightarrow> connection" where
  "counted c r k \<equiv> c\<lparr>reader_of := r, frameCount := frameCount c + int k, thread := Delivering []\<rparr>"

definition lets_pass :: "(connection \<Rightarrow> nat \<Rightarrow> int list \<Rightarrow> bool) \<Rightarrow> bool" where
  "lets_pass P \<longleftrightarrow> (\<forall>c k n now ns r. P c (k + n) (now # ns) \<longrightarrow>
     (\<exists>j t. rate_check now (counted c r k) = c\<lparr>thread := At_head, reader_of := r, frameCount := j, lastCheck := t\<rparr> \<and>
        P (c\<lparr>thread := At_head, reader_of := r, frameCount := j, lastCheck := t\<rparr>) n ns))"

lemma recv_rounds_pass:
  assumes "lets_pass P" and "receiving c" and "\<And>d. d \<in> set ds \<Longrightarrow> d \<noteq> [] \<and> length d \<le> recv_buffer_size"
    and "feed_chunks feed (reader_of c) ds = (r', fs, None)" and "length nows = length ds" and "P c (length fs) nows"
  shows "\<exists>c'. recv_rounds c (zip (map Received ds) nows) = (c', fs) \<and> receiving c' \<and> reader_of c' = r'"
  using assms(2-)
proof (induction ds arbitrary: c fs nows)
  case Nil
  then show ?case by auto
next
  case (Cons d ds)
  from Cons.prems(4) obtain now ns where nows: "nows = now # ns" "length ns = length ds" by (cases nows) auto
  from Cons.prems(3) obtain r1 gs hs where f: "feed (reader_of c) d = (r1, Inr gs)"
    "feed_chunks feed r1 ds = (r', hs, None)" "fs = gs @ hs"
    by (auto split: prod.splits sum.splits)
  from Cons.prems(5) have "P c (length gs + length hs) (now # ns)" by (simp add: f(3) nows(1))
  then obtain j t where k: "rate_check now (counted c r1 (length gs)) =
      c\<lparr>thread := At_head, reader_of := r1, frameCount := j, lastCheck := t\<rparr>"
    "P (c\<lparr>thread := At_head, reader_of := r1, frameCount := j, lastCheck := t\<rparr>) (length hs) ns"
    using assms(1) unfolding lets_pass_def by blast
  then obtain c' where "recv_rounds (rate_check now (counted c r1 (length gs))) (zip (map Received ds) ns) = (c', hs)"
    "receiving c'" "reader_of c' = r'"
    using Cons.IH [of "c\<lparr>thread := At_head, reader_of := r1, frameCount := j, lastCheck := t\<rparr>" hs ns]
      Cons.prems(1,2) f(2) nows(2) by (auto simp: receiving_def)
  moreover have "recv_round c (Received d, now) = (rate_check now (counted c r1 (length gs)), gs)"
    by (rule recv_round_data) (use Cons.prems(1,2) f(1) in auto)
  ultimately show ?case using Cons.prems(1) by (simp add: nows(1) f(3) receiving_def)
qed

text \<open>At most a hundred frames pass whatever the clock shows; any number passes before the
  clock has moved on by a second.\<close>

lemma few_pass: "lets_pass (\<lambda>c n ns. 0 \<le> frameCount c \<and> frameCount c + int n \<le> 100)"
  unfolding lets_pass_def
proof (intro allI impI, elim conjE)
  fix c :: connection and k n :: nat and now :: int and ns :: "int list" and r
  assume a: "0 \<le> frameCount c" "frameCount c + int (k + n) \<le> 100"
  then have "rate_check now (counted c r k) = c\<lparr>thread := At_head, reader_of := r, frameCount := 0, lastCheck := now\<rparr> \<or>
      rate_check now (counted c r k) =
        c\<lparr>thread := At_head, reader_of := r, frameCount := frameCount c + int k, lastCheck := lastCheck c\<rparr>"
    by (cases c) (simp add: rate_check_def)
  then show "\<exists>j t. rate_check now (counted c r k) = c\<lparr>thread := At_head, reader_of := r, frameCount := j, lastCheck := t\<rparr> \<and>
      0 \<le> frameCount (c\<lparr>thread := At_head, reader_of := r, frameCount := j, lastCheck := t\<rparr>) \<and>
      frameCount (c\<lparr>thread := At_head, reader_of := r, frameCount := j, lastCheck := t\<rparr>) + int n \<le> 100"
  proof
    assume r: "rate_check now (counted c r k) = c\<lparr>thread := At_head, reader_of := r, frameCount := 0, lastCheck := now\<rparr>"
    show ?thesis by (intro exI conjI, rule r) (use a in simp_all)
  next
    assume r: "rate_check now (counted c r k) =
        c\<lparr>thread := At_head, reader_of := r, frameCount := frameCount c + int k, lastCheck := lastCheck c\<rparr>"
    show ?thesis by (intro exI conjI, rule r) (use a in simp_all)
  qed
qed

lemma window_pass: "lets_pass (\<lambda>c n ns. \<forall>now \<in> set ns. now - lastCheck c < 1000000000)"
  unfolding lets_pass_def
proof (intro allI impI)
  fix c :: connection and k n :: nat and now :: int and ns :: "int list" and r
  assume "\<forall>now \<in> set (now # ns). now - lastCheck c < 1000000000"
  then show "\<exists>j t. rate_check now (counted c r k) = c\<lparr>thread := At_head, reader_of := r, frameCount := j, lastCheck := t\<rparr> \<and>
      (\<forall>now \<in> set ns. now - lastCheck (c\<lparr>thread := At_head, reader_of := r, frameCount := j, lastCheck := t\<rparr>) < 1000000000)"
    by (intro exI [of _ "frameCount c + int k"] exI [of _ "lastCheck c"]) (cases c, auto simp: rate_check_def)
qed

text \<open>More than a hundred in one window: the check at its end cuts the connection.\<close>

lemma rate_check_trips:
  assumes "1000000000 \<le> now - lastCheck c" and "100 < frameCount c"
  shows "rate_check now c = (conn_disconnect c ''Rate limit exceeded'')\<lparr>thread := Ended\<rparr>"
  using assms by (simp add: rate_check_def)

section \<open>Properties\<close>

definition open_socket :: "send_answer list \<Rightarrow> tcp_socket" where
  "open_socket as = \<lparr>handle = 4, kernel = as, wire = []\<rparr>"

definition started :: connection where
  "started = conn_start 0 (new_connection (Some (open_socket [Accepts 100, Accepts 100])) kMaxPayloadSize)"

lemma started_facts: "conn_ok started" "receiving started" "state started = CONNECTED" "frameCount started = 0"
  "lastCheck started = 0" "reader_of started = new_reader kMaxPayloadSize" "sent started = []"
  by (simp_all add: started_def conn_start_def new_connection_def conn_ok_def receiving_def open_socket_def
      isValid_def kInvalidSocket_def sent_def)

text \<open>Disconnecting is final and announced once: the connection is no longer running, its
  state is \<open>DISCONNECTED\<close>, every later send fails without writing, and a second disconnect
  changes nothing; a running connection sends at most one \<open>DISCONNECT\<close> frame, after everything
  sent before.\<close>

theorem disconnect_final:
  assumes "conn_ok c"
  shows "state (conn_disconnect c r) = DISCONNECTED \<and> \<not> running (conn_disconnect c r) \<and>
    conn_send (conn_disconnect c r) f = (conn_disconnect c r, False) \<and>
    conn_disconnect (conn_disconnect c r) r' = conn_disconnect c r \<and>
    (\<exists>w. sent (conn_disconnect c r) = sent c @ w \<and>
       prefix w (serialize_frame (create_frame_str message_type.DISCONNECT r)))"
proof -
  have s: "state (conn_disconnect c r) = DISCONNECTED"
    by (cases "state c = DISCONNECTED") (simp_all add: conn_disconnect_state)
  moreover have "\<exists>w. sent (conn_disconnect c r) = sent c @ w \<and>
      prefix w (serialize_frame (create_frame_str message_type.DISCONNECT r))"
  proof (cases "state c = DISCONNECTED")
    case False
    obtain c2 b where "conn_send c (create_frame_str message_type.DISCONNECT r) = (c2, b)"
      by (cases "conn_send c (create_frame_str message_type.DISCONNECT r)")
    from conn_send_out [OF this] False show ?thesis
      by (auto simp: conn_disconnect_state conn_send_str_def \<open>conn_send c _ = (c2, b)\<close>)
  qed simp
  moreover have "\<not> running (conn_disconnect c r)"
    using assms by (cases "state c = DISCONNECTED") (simp_all add: conn_disconnect_state conn_ok_def)
  ultimately show ?thesis using cc.after_disc [OF assms] by simp
qed

theorem disconnect_final_witness:
  "\<not> running (conn_disconnect started ''bye'') \<and> sent (conn_disconnect started ''bye'') \<noteq> [1]"
  using disconnect_final [OF started_facts(1), of "''bye''" ping_frame "''''"] started_facts(7)
  by (auto simp: prefix_def serialize_frame_def serialize_header_def create_frame_str_def create_frame_def
      default_header_def kProtocolMagic_def be32_def)

text \<open>Data that arrives is delivered: pieces that fit the receive buffer, of a stream the
  reader parses to at most a hundred frames, are handed over as exactly these frames, in order,
  whatever the clock shows, and the connection goes on receiving.\<close>

theorem receives_in_order:
  assumes "receiving c" and "\<And>d. d \<in> set ds \<Longrightarrow> d \<noteq> [] \<and> length d \<le> recv_buffer_size"
    and "feed_chunks feed (reader_of c) ds = (r', fs, None)" and "length nows = length ds"
    and "0 \<le> frameCount c" and "frameCount c + int (length fs) \<le> 100"
  shows "\<exists>c'. recv_rounds c (zip (map Received ds) nows) = (c', fs) \<and> receiving c' \<and> reader_of c' = r'"
  using assms by (intro recv_rounds_pass [OF few_pass]) auto

lemma feed_ping_max: "feed (new_reader kMaxPayloadSize) (serialize_frame ping_frame) =
    ((new_reader kMaxPayloadSize)\<lparr>pendingHeader := header ping_frame\<rparr>, Inr [ping_frame])"
proof -
  have p: "deserialize_header (take kFrameHeaderSize (serialize_frame ping_frame)) = Some (header ping_frame)"
    "payloadLength (header ping_frame) = 2" "payload ping_frame = [0x7B, 0x7D]"
    "ping_frame = \<lparr>header = header ping_frame, payload = [0x7B, 0x7D]\<rparr>"
    by code_simp+
  then show ?thesis
    by (simp add: feed_def new_reader_def ping_frame_eval read_loop.simps kFrameHeaderSize_def kMaxPayloadSize_def)
qed

lemmas feed_ping_eval = feed_ping_max [unfolded ping_frame_eval]

theorem receives_in_order_witness:
  "\<exists>c'. recv_rounds started (zip (map Received [serialize_frame ping_frame]) [9]) = (c', [ping_frame]) \<and>
    receiving c' \<and> reader_of c' = (new_reader kMaxPayloadSize)\<lparr>pendingHeader := header ping_frame\<rparr>"
  by (rule receives_in_order)
    (simp_all add: started_facts feed_ping_eval ping_frame_eval recv_buffer_size_def)

text \<open>The rate limit acts on time windows: within a second of the last check any number of
  frames is delivered and the connection goes on; only when a check finds more than a hundred
  counted in a window that lasted a second is the connection cut.\<close>

theorem rate_window:
  assumes "receiving c" and "conn_ok c" and "\<And>d. d \<in> set ds \<Longrightarrow> d \<noteq> [] \<and> length d \<le> recv_buffer_size"
    and "feed_chunks feed (reader_of c) ds = (r', fs, None)" and "length nows = length ds"
    and "\<And>now. now \<in> set nows \<Longrightarrow> now - lastCheck c < 1000000000"
  shows "(\<exists>c'. recv_rounds c (zip (map Received ds) nows) = (c', fs) \<and> receiving c') \<and>
    (\<forall>now. running (rate_check now c) = (\<not> (lastCheck c + 1000000000 \<le> now \<and> 100 < frameCount c)))"
proof (intro conjI allI)
  show "\<exists>c'. recv_rounds c (zip (map Received ds) nows) = (c', fs) \<and> receiving c'"
    using assms recv_rounds_pass [OF window_pass, of c ds r' fs nows] by blast
  show "running (rate_check now c) = (\<not> (lastCheck c + 1000000000 \<le> now \<and> 100 < frameCount c))" for now
  proof -
    have "1 \<le> (now - lastCheck c) div 1000000000 \<longleftrightarrow> lastCheck c + 1000000000 \<le> now"
      using pos_imp_zdiv_pos_iff [of 1000000000 "now - lastCheck c"] by linarith
    moreover have "\<not> running (conn_disconnect c ''Rate limit exceeded'')"
      using assms(1,2) by (intro disconnect_ends(2)) (auto simp: conn_ok_def receiving_def)
    ultimately show ?thesis using assms(1) by (simp add: rate_check_def receiving_def)
  qed
qed

theorem rate_window_witness:
  "(\<exists>c'. recv_rounds started (zip (map Received [serialize_frame ping_frame]) [9]) = (c', [ping_frame]) \<and> receiving c') \<and>
    (\<forall>now. running (rate_check now started) = (\<not> (lastCheck started + 1000000000 \<le> now \<and> 100 < frameCount started)))"
  by (rule rate_window [where r' = "(new_reader kMaxPayloadSize)\<lparr>pendingHeader := header ping_frame\<rparr>"])
    (simp_all add: started_facts feed_ping_eval ping_frame_eval recv_buffer_size_def)

end
