(* ===== verification/Config.thy ===== *)
theory Config imports Identifiers begin

text \<open>
  The configuration (\<open>src/config/config.hpp\<close>, \<open>config.cpp\<close>): its fields, the named
  keys of \<open>set\<close> and \<open>getAsString\<close>, the INI reader and writer, and the defaults filled in
  at start-up. The environment (\<open>getenv\<close>, the working directory, the file's contents, the
  outcome of creating and opening it, the host name, \<open>RAND_bytes\<close>) is passed as arguments.
  A conversion exception of \<open>std::stoi\<close> and \<open>std::stoul\<close> that nothing catches is
  \<open>Inl\<close>.
\<close>

record app_config =
  deviceId :: string
  displayName :: string
  platform :: string
  listenPort :: u16
  discoveryPort :: u16
  enableIPv6 :: bool
  maxMessageSize :: u32
  connectTimeoutSecs :: i32
  readTimeoutSecs :: i32
  keepaliveIntervalSecs :: i32
  discoveryEnabled :: bool
  pskHash :: string
  requireAuth :: bool
  logLevel :: string
  logFile :: string

definition default_config :: app_config where
  "default_config = \<lparr>deviceId = '''', displayName = '''', platform = '''',
     listenPort = 5050, discoveryPort = 5051, enableIPv6 = False, maxMessageSize = 65536,
     connectTimeoutSecs = 10, readTimeoutSecs = 30, keepaliveIntervalSecs = 15,
     discoveryEnabled = True, pskHash = '''', requireAuth = False, logLevel = ''INFO'', logFile = ''''\<rparr>"

section \<open>Keys\<close>

text \<open>\<open>Config::set\<close>: the new configuration and whether the key is known. Ports are cut to
  16 bits and the message size to 32 by the assignments.\<close>

definition set_stoi :: "string \<Rightarrow> (i32 \<Rightarrow> app_config) \<Rightarrow> conv_error + app_config \<times> bool" where
  "set_stoi value f = (case stoi value of Inl e \<Rightarrow> Inl e | Inr v \<Rightarrow> Inr (f v, True))"

definition config_set :: "app_config \<Rightarrow> string \<Rightarrow> string \<Rightarrow> conv_error + app_config \<times> bool" where
  "config_set c key value =
     (if key = ''device_id'' then Inr (c\<lparr>deviceId := value\<rparr>, True)
      else if key = ''display_name'' then Inr (c\<lparr>displayName := value\<rparr>, True)
      else if key = ''platform'' then Inr (c\<lparr>platform := value\<rparr>, True)
      else if key = ''listen_port'' then set_stoi value (\<lambda>v. c\<lparr>listenPort := ucast v\<rparr>)
      else if key = ''discovery_port'' then set_stoi value (\<lambda>v. c\<lparr>discoveryPort := ucast v\<rparr>)
      else if key = ''enable_ipv6'' then Inr (c\<lparr>enableIPv6 := (value = ''true'')\<rparr>, True)
      else if key = ''max_message_size'' then
        (case stoul value of Inl e \<Rightarrow> Inl e | Inr v \<Rightarrow> Inr (c\<lparr>maxMessageSize := ucast v\<rparr>, True))
      else if key = ''connect_timeout_secs'' then set_stoi value (\<lambda>v. c\<lparr>connectTimeoutSecs := v\<rparr>)
      else if key = ''read_timeout_secs'' then set_stoi value (\<lambda>v. c\<lparr>readTimeoutSecs := v\<rparr>)
      else if key = ''keepalive_interval_secs'' then set_stoi value (\<lambda>v. c\<lparr>keepaliveIntervalSecs := v\<rparr>)
      else if key = ''discovery_enabled'' then Inr (c\<lparr>discoveryEnabled := (value = ''true'')\<rparr>, True)
      else if key = ''psk_hash'' then Inr (c\<lparr>pskHash := value\<rparr>, True)
      else if key = ''require_auth'' then Inr (c\<lparr>requireAuth := (value = ''true'')\<rparr>, True)
      else if key = ''log_level'' then Inr (c\<lparr>logLevel := value\<rparr>, True)
      else if key = ''log_file'' then Inr (c\<lparr>logFile := value\<rparr>, True)
      else Inr (c, False))"

definition getAsString :: "app_config \<Rightarrow> string \<Rightarrow> string option" where
  "getAsString c key =
     (if key = ''device_id'' then Some (deviceId c)
      else if key = ''display_name'' then Some (displayName c)
      else if key = ''platform'' then Some (platform c)
      else if key = ''log_level'' then Some (logLevel c)
      else if key = ''log_file'' then Some (logFile c)
      else None)"

section \<open>Defaults\<close>

definition ensureDeviceId :: "bytes option \<Rightarrow> app_config \<Rightarrow> app_config" where
  "ensureDeviceId rnd c = (if deviceId c = '''' then c\<lparr>deviceId := config_generateUUID rnd\<rparr> else c)"

text \<open>\<open>gethostname\<close> may fail: \<open>None\<close>.\<close>

definition readHostname :: "string option \<Rightarrow> string" where
  "readHostname host = (case host of Some h \<Rightarrow> h | None \<Rightarrow> '''')"

definition ensureDisplayName :: "string option \<Rightarrow> app_config \<Rightarrow> app_config" where
  "ensureDisplayName host c =
     (if displayName c = '''' then
        (let n = readHostname host in
         c\<lparr>displayName := (if n = '''' then ''UnknownUser'' else n)\<rparr>)
      else c)"

datatype build_os = Windows | MacOS | Linux | OtherOS

fun platformName :: "build_os \<Rightarrow> string" where
  "platformName Windows = ''Windows''"
| "platformName MacOS = ''macOS''"
| "platformName Linux = ''Linux''"
| "platformName OtherOS = ''Unknown''"

definition construct_config :: "build_os \<Rightarrow> bytes option \<Rightarrow> string option \<Rightarrow> app_config" where
  "construct_config os rnd host =
     ensureDisplayName host (ensureDeviceId rnd (default_config\<lparr>platform := platformName os\<rparr>))"

section \<open>Where the file is\<close>

text \<open>\<open>std::filesystem::path::operator/\<close> with a relative right-hand side.\<close>

definition path_join :: "string \<Rightarrow> string \<Rightarrow> string" where
  "path_join a b = (if a = '''' \<or> last a = CHR ''/'' then a @ b else a @ ''/'' @ b)"

definition configDirectory :: "build_os \<Rightarrow> (string \<Rightarrow> string option) \<Rightarrow> string \<Rightarrow> string" where
  "configDirectory os getenv cwd =
     (case os of
        Windows \<Rightarrow> (case getenv ''APPDATA'' of
            Some d \<Rightarrow> path_join d ''LanTalk'' | None \<Rightarrow> path_join cwd ''config'')
      | MacOS \<Rightarrow> (case getenv ''HOME'' of
            Some d \<Rightarrow> path_join d ''Library/Application Support/LanTalk'' | None \<Rightarrow> path_join cwd ''config'')
      | _ \<Rightarrow> (case getenv ''XDG_CONFIG_HOME'' of
            Some d \<Rightarrow> path_join d ''lantalk''
          | None \<Rightarrow> (case getenv ''HOME'' of
              Some d \<Rightarrow> path_join (path_join d ''.config'') ''lantalk''
            | None \<Rightarrow> path_join cwd ''config'')))"

definition configFilePath :: "build_os \<Rightarrow> (string \<Rightarrow> string option) \<Rightarrow> string \<Rightarrow> string" where
  "configFilePath os getenv cwd = path_join (configDirectory os getenv cwd) ''config.ini''"

section \<open>Writing\<close>

definition bool_text :: "bool \<Rightarrow> string" where
  "bool_text b = (if b then ''true'' else ''false'')"

text \<open>The lines \<open>Config::save\<close> writes, each ended by a newline: section names and
  \<open>file << "key = " << value\<close>.\<close>

definition config_line :: "string \<Rightarrow> string \<Rightarrow> string" where
  "config_line key value = key @ '' = '' @ value"

definition config_lines :: "app_config \<Rightarrow> string list" where
  "config_lines c =
     [''[identity]'',
      config_line ''device_id'' (deviceId c),
      config_line ''display_name'' (displayName c),
      config_line ''platform'' (platform c),
      '''',
      ''[network]'',
      config_line ''listen_port'' (nat_to_string (unat (listenPort c))),
      config_line ''discovery_port'' (nat_to_string (unat (discoveryPort c))),
      config_line ''enable_ipv6'' (bool_text (enableIPv6 c)),
      config_line ''max_message_size'' (nat_to_string (unat (maxMessageSize c))),
      config_line ''connect_timeout_secs'' (int_to_string (sint (connectTimeoutSecs c))),
      config_line ''read_timeout_secs'' (int_to_string (sint (readTimeoutSecs c))),
      config_line ''keepalive_interval_secs'' (int_to_string (sint (keepaliveIntervalSecs c))),
      '''',
      ''[discovery]'',
      config_line ''discovery_enabled'' (bool_text (discoveryEnabled c)),
      '''',
      ''[security]'',
      config_line ''psk_hash'' (pskHash c),
      config_line ''require_auth'' (bool_text (requireAuth c)),
      '''',
      ''[logging]'',
      config_line ''log_level'' (logLevel c),
      config_line ''log_file'' (logFile c)]"

text \<open>What the file system answers: whether the directory exists, whether it can be created,
  whether the file opens for writing. The result is the returned value and the text written.\<close>

record fs_answers =
  dirExists :: bool
  dirCreated :: bool
  writeOpens :: bool

definition config_save :: "fs_answers \<Rightarrow> app_config \<Rightarrow> bool \<times> string option" where
  "config_save fs c =
     (if \<not> dirExists fs \<and> \<not> dirCreated fs then (False, None)
      else if \<not> writeOpens fs then (False, None)
      else (True, Some (unlines (config_lines c))))"

section \<open>Reading\<close>

text \<open>\<open>std::getline\<close> until it fails: a final newline starts no further line.\<close>

function getlines :: "string \<Rightarrow> string list" where
  "getlines s =
     (if s = [] then []
      else takeWhile (\<lambda>c. c \<noteq> ch_nl) s # getlines (drop 1 (dropWhile (\<lambda>c. c \<noteq> ch_nl) s)))"
  by pat_completeness auto
termination
proof (relation "measure length")
  fix s :: string assume "s \<noteq> []"
  then show "(drop 1 (dropWhile (\<lambda>c. c \<noteq> ch_nl) s), s) \<in> measure length"
    using length_dropWhile_le [of "\<lambda>c. c \<noteq> ch_nl" s] by (cases s) auto
qed simp

declare getlines.simps [simp del]

definition is_blank :: "char \<Rightarrow> bool" where
  "is_blank c \<longleftrightarrow> c = CHR '' '' \<or> c = ch_tab"

definition trim :: "string \<Rightarrow> string" where
  "trim s = rev (dropWhile is_blank (rev (dropWhile is_blank s)))"

definition load_line :: "app_config \<Rightarrow> string \<Rightarrow> conv_error + app_config" where
  "load_line c line =
     (if line = [] \<or> hd line = CHR '';'' \<or> hd line = CHR ''#'' then Inr c
      else if hd line = CHR ''['' \<and> last line = CHR '']'' then Inr c
      else case str_find ''='' line of
        None \<Rightarrow> Inr c
      | Some pos \<Rightarrow>
          (case config_set c (trim (take pos line)) (trim (drop (pos + 1) line)) of
             Inl e \<Rightarrow> Inl e | Inr (c', _) \<Rightarrow> Inr c'))"

fun load_lines :: "app_config \<Rightarrow> string list \<Rightarrow> conv_error + app_config" where
  "load_lines c [] = Inr c"
| "load_lines c (l # ls) = (case load_line c l of Inl e \<Rightarrow> Inl e | Inr c' \<Rightarrow> load_lines c' ls)"

datatype config_file = Missing | Unreadable | Contents string

text \<open>\<open>Config::load\<close>: the returned value, the configuration, and the text written when the
  file was missing.\<close>

definition config_load :: "fs_answers \<Rightarrow> config_file \<Rightarrow> bytes option \<Rightarrow> string option \<Rightarrow> app_config \<Rightarrow>
    conv_error + bool \<times> app_config \<times> string option" where
  "config_load fs file rnd host c =
     (case file of
        Missing \<Rightarrow> (case config_save fs c of (ok, out) \<Rightarrow> Inr (ok, c, out))
      | Unreadable \<Rightarrow> Inr (False, c, None)
      | Contents t \<Rightarrow>
          (case load_lines c (getlines t) of
             Inl e \<Rightarrow> Inl e
           | Inr c' \<Rightarrow> Inr (True, ensureDisplayName host (ensureDeviceId rnd c'), None)))"

section \<open>Lines and keys\<close>

lemma getlines_Nil [simp]: "getlines [] = []"
  by (subst getlines.simps) simp

lemma getlines_line:
  assumes "ch_nl \<notin> set l"
  shows "getlines (l @ ch_nl # r) = l # getlines r"
proof -
  from assms have "takeWhile (\<lambda>c. c \<noteq> ch_nl) (l @ ch_nl # r) = l"
    by (induction l) auto
  moreover from assms have "dropWhile (\<lambda>c. c \<noteq> ch_nl) (l @ ch_nl # r) = ch_nl # r"
    by (induction l) auto
  ultimately show ?thesis by (subst getlines.simps) simp
qed

lemma getlines_unlines: "(\<And>l. l \<in> set ls \<Longrightarrow> ch_nl \<notin> set l) \<Longrightarrow> getlines (unlines ls) = ls"
  by (induction ls) (simp_all add: unlines_def getlines_line)

text \<open>Text that survives \<open>trim\<close> and \<open>getline\<close>: one line, no blank at either end.\<close>

definition trimmed :: "string \<Rightarrow> bool" where
  "trimmed s \<longleftrightarrow> s = [] \<or> \<not> is_blank (hd s) \<and> \<not> is_blank (last s)"

lemma dropWhile_hd: "s = [] \<or> \<not> P (hd s) \<Longrightarrow> dropWhile P s = s"
  by (cases s) auto

lemma trim_value: "trimmed v \<Longrightarrow> trim (CHR '' '' # v) = v"
  by (auto simp: trim_def trimmed_def is_blank_def dropWhile_hd hd_rev)

lemma trim_key: "trimmed k \<Longrightarrow> k \<noteq> [] \<Longrightarrow> trim (k @ '' '') = k"
  by (auto simp: trim_def trimmed_def is_blank_def dropWhile_hd hd_rev)

definition key_name :: "string \<Rightarrow> bool" where
  "key_name k \<longleftrightarrow> k \<noteq> [] \<and> trimmed k \<and> CHR ''='' \<notin> set k \<and> hd k \<notin> {CHR '';'', CHR ''#'', CHR ''[''}"

text \<open>A line \<open>key = value\<close> does what \<open>set(key, value)\<close> does.\<close>

lemma load_key_line:
  assumes "key_name k" and "trimmed v"
  shows "load_line c (k @ '' = '' @ v) =
    (case config_set c k v of Inl e \<Rightarrow> Inl e | Inr (c', _) \<Rightarrow> Inr c')"
proof -
  have "takeWhile (\<lambda>ch. ch \<noteq> CHR ''='') (k @ '' = '' @ v) = k @ '' ''"
    using assms(1) by (subst takeWhile_append2) (auto simp: key_name_def)
  then have "str_find ''='' (k @ '' = '' @ v) = Some (Suc (length k))"
    by (subst str_find_char) simp
  moreover have "take (Suc (length k)) (k @ '' = '' @ v) = k @ '' ''"
    and "drop (Suc (Suc (length k))) (k @ '' = '' @ v) = CHR '' '' # v"
    by simp_all
  ultimately show ?thesis
    using assms by (simp add: load_line_def key_name_def trim_value trim_key)
qed

lemma load_section_lines [simp]:
  "load_line c ''[identity]'' = Inr c" "load_line c ''[network]'' = Inr c" "load_line c ''[discovery]'' = Inr c"
  "load_line c ''[security]'' = Inr c" "load_line c ''[logging]'' = Inr c"
  by (simp_all add: load_line_def)

lemma load_empty_line [simp]: "load_line c [] = Inr c"
  by (simp add: load_line_def)

section \<open>Saving and loading\<close>

text \<open>What a configuration needs to survive a file: its strings are single lines without
  outer blanks, and it is identified.\<close>

definition saveable :: "string \<Rightarrow> bool" where
  "saveable s \<longleftrightarrow> trimmed s \<and> ch_nl \<notin> set s"

definition config_ok :: "app_config \<Rightarrow> bool" where
  "config_ok c \<longleftrightarrow> saveable (deviceId c) \<and> saveable (displayName c) \<and> saveable (platform c) \<and>
     saveable (pskHash c) \<and> saveable (logLevel c) \<and> saveable (logFile c) \<and>
     deviceId c \<noteq> '''' \<and> displayName c \<noteq> ''''"

lemma digits_saveable:
  assumes "\<And>ch. ch \<in> set s \<Longrightarrow> is_digit ch \<or> ch = CHR ''-''"
  shows "saveable s"
proof -
  have "\<not> is_blank ch \<and> ch \<noteq> ch_nl" if "ch \<in> set s" for ch
    using assms [OF that] by (auto simp: is_digit_def is_blank_def)
  then show ?thesis
    by (cases "s = []") (auto simp: saveable_def trimmed_def)
qed

lemma numbers_saveable [simp]: "saveable (nat_to_string n)" "saveable (int_to_string i)"
  by (auto intro!: digits_saveable dest: nat_to_string_digits int_to_string_chars)

lemma bool_saveable [simp]: "saveable (bool_text b)"
  by (simp add: bool_text_def saveable_def trimmed_def is_blank_def)

lemma saveable_trimmed: "saveable s \<Longrightarrow> trimmed s"
  by (simp add: saveable_def)

lemma saveable_one_line: "saveable s \<Longrightarrow> ch_nl \<notin> set s"
  by (simp add: saveable_def)

lemma config_keys [simp]:
  "key_name ''device_id''" "key_name ''display_name''" "key_name ''platform''" "key_name ''listen_port''"
  "key_name ''discovery_port''" "key_name ''enable_ipv6''" "key_name ''max_message_size''"
  "key_name ''connect_timeout_secs''" "key_name ''read_timeout_secs''" "key_name ''keepalive_interval_secs''"
  "key_name ''discovery_enabled''" "key_name ''psk_hash''" "key_name ''require_auth''" "key_name ''log_level''"
  "key_name ''log_file''"
  by (simp_all add: key_name_def trimmed_def is_blank_def)

lemma port_text:
  fixes p :: u16
  shows "stoi (nat_to_string (unat p)) = Inr (ucast p)" and "ucast (ucast p :: i32) = p"
proof -
  have "unat p < 2 ^ 16" using unsigned_less [of p] by simp
  then have "unat p < 2 ^ 31" by simp
  then show "stoi (nat_to_string (unat p)) = Inr (ucast p)" by (simp add: stoi_nat_to_string unsigned_ucast_eq)
  show "ucast (ucast p :: i32) = p" by (rule bit_word_eqI) (auto simp: bit_simps)
qed

lemma size_text:
  fixes n :: u32
  shows "stoul (nat_to_string (unat n)) = Inr (ucast n)" and "ucast (ucast n :: 64 word) = n"
proof -
  have "unat n < 2 ^ 32" using unsigned_less [of n] by simp
  then have "unat n < 2 ^ 64" by simp
  then show "stoul (nat_to_string (unat n)) = Inr (ucast n)" by (simp add: stoul_nat_to_string)
  show "ucast (ucast n :: 64 word) = n" by (rule bit_word_eqI) (auto simp: bit_simps)
qed

lemma bool_text_true [simp]: "bool_text b = ''true'' \<longleftrightarrow> b"
  by (simp add: bool_text_def)

lemma config_lines_one_line: "config_ok c \<Longrightarrow> l \<in> set (config_lines c) \<Longrightarrow> ch_nl \<notin> set l"
  by (auto simp: config_lines_def config_ok_def config_line_def saveable_one_line)

lemma load_config_line:
  "key_name k \<Longrightarrow> saveable v \<Longrightarrow>
   load_line c (config_line k v) = (case config_set c k v of Inl e \<Rightarrow> Inl e | Inr (c', _) \<Rightarrow> Inr c')"
  using load_key_line [of k v c] by (simp add: config_line_def saveable_trimmed)

text \<open>Whatever the configuration was before, reading the saved lines gives the saved one.\<close>

lemma load_config_lines:
  assumes "config_ok c"
  shows "load_lines c0 (config_lines c) = Inr c"
  using assms
  by (simp add: config_lines_def config_ok_def load_config_line config_set_def set_stoi_def port_text size_text)

lemma load_saved:
  assumes "config_ok c"
  shows "config_load fs (Contents (unlines (config_lines c))) rnd host c0 = Inr (True, c, None)"
proof -
  have "getlines (unlines (config_lines c)) = config_lines c"
    using config_lines_one_line [OF assms] by (intro getlines_unlines)
  with load_config_lines [OF assms] assms show ?thesis
    by (simp add: config_load_def ensureDeviceId_def ensureDisplayName_def config_ok_def)
qed

interpretation config_codec: wire_codec "\<lambda>c. unlines (config_lines c)"
    "\<lambda>t. case load_lines default_config (getlines t) of Inl _ \<Rightarrow> None | Inr c \<Rightarrow> Some c" config_ok
  by unfold_locales (simp add: getlines_unlines config_lines_one_line load_config_lines)

text \<open>\<open>set\<close> touches nothing for an unknown key, and knows exactly fifteen keys.\<close>

definition known_keys :: "string list" where
  "known_keys = [''device_id'', ''display_name'', ''platform'', ''listen_port'', ''discovery_port'',
     ''enable_ipv6'', ''max_message_size'', ''connect_timeout_secs'', ''read_timeout_secs'',
     ''keepalive_interval_secs'', ''discovery_enabled'', ''psk_hash'', ''require_auth'', ''log_level'', ''log_file'']"

lemma config_set_unknown: "key \<notin> set known_keys \<Longrightarrow> config_set c key v = Inr (c, False)"
  by (simp add: config_set_def known_keys_def)

lemma config_set_known: "key \<in> set known_keys \<Longrightarrow> config_set c key v = Inr (c', ok) \<Longrightarrow> ok"
  by (auto simp: config_set_def set_stoi_def known_keys_def split: sum.splits if_splits)

lemma get_after_set:
  "getAsString c key \<noteq> None \<Longrightarrow> \<exists>c'. config_set c key v = Inr (c', True) \<and> getAsString c' key = Some v"
  by (auto simp: getAsString_def config_set_def split: if_splits)

lemma construct_identified:
  "deviceId (construct_config os rnd host) = config_generateUUID rnd \<and> displayName (construct_config os rnd host) \<noteq> ''''"
  by (auto simp: construct_config_def default_config_def ensureDeviceId_def ensureDisplayName_def Let_def)

section \<open>Properties\<close>

text \<open>C29. A configuration survives the file: what \<open>save\<close> writes for an identified
  configuration whose strings are single lines without outer blanks is loaded as that
  configuration, whatever the loading object held before.\<close>

theorem config_survives_file:
  assumes "config_ok c" and "config_save fs c = (True, Some t)"
  shows "config_load fs' (Contents t) rnd host c0 = Inr (True, c, None)"
proof -
  from assms(2) have "t = unlines (config_lines c)" by (auto simp: config_save_def split: if_splits)
  with load_saved [OF assms(1)] show ?thesis by simp
qed

definition sample_config :: app_config where
  "sample_config = default_config\<lparr>deviceId := ''dev-1'', displayName := ''Ann B'', pskHash := ''k'', requireAuth := True\<rparr>"

lemma sample_config_ok: "config_ok sample_config"
  by (simp add: config_ok_def sample_config_def default_config_def saveable_def trimmed_def is_blank_def)

theorem config_survives_file_witness:
  "config_load \<lparr>dirExists = True, dirCreated = True, writeOpens = True\<rparr>
      (Contents (unlines (config_lines sample_config))) None None default_config = Inr (True, sample_config, None)"
  by (rule config_survives_file [OF sample_config_ok,
        where fs = "\<lparr>dirExists = True, dirCreated = True, writeOpens = True\<rparr>"])
    (simp add: config_save_def)

text \<open>Reading a key back gives the value set, for every key that can be read; an unknown
  key changes nothing and is reported, and setting a known key never reports it as unknown.\<close>

theorem set_then_get:
  "(if getAsString c key = None then True else \<exists>c'. config_set c key v = Inr (c', True) \<and> getAsString c' key = Some v) \<and>
   (if key \<in> set known_keys then \<forall>c'. config_set c key v \<noteq> Inr (c', False) else config_set c key v = Inr (c, False))"
proof (intro conjI)
  show "if getAsString c key = None then True else \<exists>c'. config_set c key v = Inr (c', True) \<and> getAsString c' key = Some v"
    using get_after_set [of c key v] by simp
  show "if key \<in> set known_keys then \<forall>c'. config_set c key v \<noteq> Inr (c', False) else config_set c key v = Inr (c, False)"
    using config_set_unknown [of key c v] by (auto dest: config_set_known)
qed

text \<open>A port is not validated: any number below \<open>2 ^ 31\<close> is accepted for
  \<open>listen_port\<close> and stored modulo \<open>2 ^ 16\<close>.\<close>

theorem port_truncated:
  assumes "n < 2 ^ 31"
  shows "\<exists>c'. config_set c ''listen_port'' (nat_to_string n) = Inr (c', True) \<and> unat (listenPort c') = n mod 65536"
proof -
  have "unat (ucast (word_of_nat n :: i32) :: u16) = n mod 65536"
    using assms by (simp add: unsigned_ucast_eq unat_of_nat take_bit_eq_mod)
  then show ?thesis using assms by (simp add: config_set_def set_stoi_def stoi_nat_to_string)
qed

theorem port_truncated_witness:
  "\<exists>c'. config_set default_config ''listen_port'' ''70000'' = Inr (c', True) \<and> unat (listenPort c') = 4464"
proof -
  have "digit_char 7 = CHR ''7''" "digit_char 0 = CHR ''0''" by code_simp+
  then have "nat_to_string 70000 = ''70000''" by (simp add: nat_to_string.simps)
  with port_truncated [of 70000 default_config] show ?thesis by simp
qed

end
