(* ===== verification/Std_Map.thy ===== *)
theory Std_Map imports Lantalk_Prelude begin

text \<open>
  \<open>std::map<std::string, T>\<close>: an association list sorted by key. The order is the one
  of \<open>std::string\<close>, bytewise lexicographic, so walking the list is the iteration order
  of the C++ container; the session and the parser iterate and stop early, which makes that
  order part of their behaviour. The interface the components use is the locale
  \<open>ordered_map\<close>, interpreted on the association list at the end.
\<close>

type_synonym ('k, 'v) smap = "('k \<times> 'v) list"

text \<open>\<open>find\<close>, \<open>operator[] =\<close> / insertion, \<open>erase\<close>.\<close>

abbreviation sm_lookup :: "('k, 'v) smap \<Rightarrow> 'k \<Rightarrow> 'v option" where
  "sm_lookup \<equiv> map_of"

fun sm_insert :: "'k :: linorder \<Rightarrow> 'v \<Rightarrow> ('k, 'v) smap \<Rightarrow> ('k, 'v) smap" where
  "sm_insert k v [] = [(k, v)]"
| "sm_insert k v ((k', v') # m) =
     (if k = k' then (k, v) # m
      else if k < k' then (k, v) # (k', v') # m
      else (k', v') # sm_insert k v m)"

definition sm_erase :: "'k \<Rightarrow> ('k, 'v) smap \<Rightarrow> ('k, 'v) smap" where
  "sm_erase k m = filter (\<lambda>p. fst p \<noteq> k) m"

definition sm_ok :: "('k :: linorder, 'v) smap \<Rightarrow> bool" where
  "sm_ok m \<longleftrightarrow> sorted_wrt (<) (map fst m)"

text \<open>\<open>operator[]\<close> on an absent key value-initialises the element first.\<close>

definition sm_at :: "'v \<Rightarrow> ('k, 'v) smap \<Rightarrow> 'k \<Rightarrow> 'v" where
  "sm_at d m k = (case sm_lookup m k of None \<Rightarrow> d | Some v \<Rightarrow> v)"

section \<open>The interface\<close>

locale ordered_map =
  fixes look :: "'m \<Rightarrow> 'k \<Rightarrow> 'v option"
    and ins :: "'k \<Rightarrow> 'v \<Rightarrow> 'm \<Rightarrow> 'm"
    and del :: "'k \<Rightarrow> 'm \<Rightarrow> 'm"
    and ok :: "'m \<Rightarrow> bool"
  assumes look_ins: "look (ins k v m) = (look m)(k \<mapsto> v)"
    and look_del: "look (del k m) = (look m)(k := None)"
    and ok_ins: "ok m \<Longrightarrow> ok (ins k v m)"
    and ok_del: "ok m \<Longrightarrow> ok (del k m)"
begin

lemma look_ins_same: "look (ins k v m) k = Some v"
  by (simp add: look_ins)

lemma look_ins_other: "k' \<noteq> k \<Longrightarrow> look (ins k v m) k' = look m k'"
  by (simp add: look_ins)

lemma look_del_same: "look (del k m) k = None"
  by (simp add: look_del)

lemma look_del_other: "k' \<noteq> k \<Longrightarrow> look (del k m) k' = look m k'"
  by (simp add: look_del)

lemma ins_overwrites: "look (ins k w (ins k v m)) = look (ins k w m)"
  by (simp add: look_ins)

lemma del_ins: "look (del k (ins k v m)) = look (del k m)"
  by (simp add: look_del look_ins)

lemma keep_ins:
  assumes "\<And>j w. look m j = Some w \<Longrightarrow> P j w" and "P k v" and "look (ins k v m) j = Some w"
  shows "P j w"
  using assms by (auto simp: look_ins split: if_splits)

lemma keep_del:
  assumes "\<And>j w. look m j = Some w \<Longrightarrow> P j w" and "look (del k m) j = Some w"
  shows "P j w"
  using assms by (auto simp: look_del split: if_splits)

end

section \<open>The sorted association list provides it\<close>

lemma map_of_sm_insert [simp, state_simps]: "map_of (sm_insert k v m) = (map_of m)(k \<mapsto> v)"
  by (induction k v m rule: sm_insert.induct) (auto simp: fun_eq_iff)

lemma map_of_sm_erase [simp, state_simps]: "map_of (sm_erase k m) = (map_of m)(k := None)"
  by (induction m) (auto simp: sm_erase_def fun_eq_iff)

lemma set_keys_sm_insert: "set (map fst (sm_insert k v m)) = insert k (set (map fst m))"
  by (induction k v m rule: sm_insert.induct) auto

lemma set_keys_sm_erase: "set (map fst (sm_erase k m)) = set (map fst m) - {k}"
  by (auto simp: sm_erase_def)

lemma sm_ok_Nil [simp]: "sm_ok []"
  by (simp add: sm_ok_def)

lemma sm_ok_insert: "sm_ok m \<Longrightarrow> sm_ok (sm_insert k v m)"
proof (induction k v m rule: sm_insert.induct)
  case (1 k v)
  then show ?case by (simp add: sm_ok_def)
next
  case (2 k v k' v' m)
  then show ?case
    using set_keys_sm_insert [of k v m] by (auto simp: sm_ok_def)
qed

lemma sm_ok_erase: "sm_ok m \<Longrightarrow> sm_ok (sm_erase k m)"
  by (induction m) (auto simp: sm_ok_def sm_erase_def)

lemma sm_ok_distinct: "sm_ok m \<Longrightarrow> distinct (map fst m)"
  by (simp add: sm_ok_def strict_sorted_iff)

lemma sm_ok_lookup: "sm_ok m \<Longrightarrow> (k, v) \<in> set m \<Longrightarrow> map_of m k = Some v"
  by (simp add: sm_ok_distinct)

lemma sm_at_insert [simp, state_simps]: "sm_at d (sm_insert k v m) k' = (if k' = k then v else sm_at d m k')"
  by (simp add: sm_at_def)

interpretation om: ordered_map map_of "sm_insert :: 'k :: linorder \<Rightarrow> 'v \<Rightarrow> ('k, 'v) smap \<Rightarrow> ('k, 'v) smap"
    sm_erase sm_ok
  by unfold_locales (simp_all add: sm_ok_insert sm_ok_erase)

text \<open>A key above all others goes to the end, so a sorted list is rebuilt by inserting it in order.\<close>

lemma sm_insert_last:
  "sm_ok (m @ [(k, v)]) \<Longrightarrow> sm_insert k v m = m @ [(k, v)]"
  by (induction k v m rule: sm_insert.induct) (auto simp: sm_ok_def sorted_wrt_append)

lemma sm_ok_butlast: "sm_ok (m @ p) \<Longrightarrow> sm_ok m"
  by (simp add: sm_ok_def sorted_wrt_append)

lemma fold_sm_insert:
  "sm_ok (m @ m') \<Longrightarrow> fold (\<lambda>p. sm_insert (fst p) (snd p)) m' m = m @ m'"
proof (induction m' arbitrary: m)
  case Nil
  then show ?case by simp
next
  case (Cons p m')
  obtain k v where p: "p = (k, v)" by (cases p)
  from Cons.prems have "sm_ok (m @ [(k, v)])" using sm_ok_butlast [of "m @ [p]" m'] by (simp add: p)
  then have "sm_insert k v m = m @ [(k, v)]" by (rule sm_insert_last)
  with Cons.IH [of "m @ [(k, v)]"] Cons.prems show ?case by (simp add: p)
qed

text \<open>Updates in place: of one element, and of all of them in a walk over the map.\<close>

lemma keys_sm_insert_same:
  "sm_ok m \<Longrightarrow> map_of m k = Some w \<Longrightarrow> map fst (sm_insert k v m) = map fst m"
  by (induction k v m rule: sm_insert.induct)
    (auto simp: sm_ok_def dest!: map_of_SomeD split: if_splits)

lemma keys_map_values: "map fst (map (\<lambda>(k, v). (k, f k v)) m) = map fst m"
  by (induction m) auto

lemma map_of_map_values: "map_of (map (\<lambda>(k, v). (k, f k v)) m) k = map_option (f k) (map_of m k)"
  by (induction m) auto

lemma dom_same_keys: "map fst m = map fst m' \<Longrightarrow> map_of m k = None \<longleftrightarrow> map_of m' k = None"
  by (metis map_of_eq_None_iff set_map)

end
