(* ===== verification/Authentication.thy ===== *)
theory Authentication imports Connection Json_Text Config Std_Map begin

text \<open>
  The challenge-response authenticator (\<open>src/security/authentication.hpp\<close>,
  \<open>authentication.cpp\<close>) and what it uses of \<open>src/security/crypto.cpp\<close>. OpenSSL is
  outside: \<open>mac\<close> stands for HMAC-SHA256 (\<open>None\<close>: a call failed), \<open>digest\<close> for
  SHA-256, \<open>base64\<close> for the BIO filter; random bytes are arguments.
\<close>

section \<open>Crypto\<close>

definition hmacSha256 :: "(string \<Rightarrow> string \<Rightarrow> bytes option) \<Rightarrow> string \<Rightarrow> string \<Rightarrow> crypto_error + string" where
  "hmacSha256 mac key msg = (case mac key msg of None \<Rightarrow> Inl Hmac_failed | Some h \<Rightarrow> Inr (bytesToHex h))"

definition sha256 :: "(bytes \<Rightarrow> bytes option) \<Rightarrow> bytes \<Rightarrow> crypto_error + string" where
  "sha256 digest input = (case digest input of None \<Rightarrow> Inl Digest_failed | Some h \<Rightarrow> Inr (bytesToHex h))"

definition sha256_str :: "(bytes \<Rightarrow> bytes option) \<Rightarrow> string \<Rightarrow> crypto_error + string" where
  "sha256_str digest input = sha256 digest (string_to_bytes input)"

definition generateChallenge :: "(bytes \<Rightarrow> string) \<Rightarrow> bytes option \<Rightarrow> crypto_error + string" where
  "generateChallenge base64 rnd = andThen (randomBytes rnd) (\<lambda>b. Inr (base64 b))"

text \<open>Base64 is OpenSSL's: \<open>encoding\<close> is the text the filter leaves in the memory buffer when bytes
  were written to it and flushed, \<open>decoding\<close> what \<open>BIO_read\<close> answers for a text of a length and
  room for so many bytes: its result and what it stored. Lengths pass through \<open>int\<close>; \<open>BIO_write\<close>
  of a negative length writes nothing.\<close>

definition size_as_int :: "nat \<Rightarrow> int" where
  "size_as_int n = sint (word_of_nat n :: 32 word)"

definition base64Encode :: "(bytes \<Rightarrow> string) \<Rightarrow> bytes \<Rightarrow> string" where
  "base64Encode encoding data = encoding (take (nat (size_as_int (length data))) data)"

definition base64Decode :: "(string \<Rightarrow> int \<Rightarrow> int \<Rightarrow> int \<times> bytes) \<Rightarrow> string \<Rightarrow> bytes" where
  "base64Decode decoding encoded =
     (let n = length encoded in
      case decoding encoded (size_as_int n) (size_as_int n) of (len, stored) \<Rightarrow>
        if len < 0 then []
        else
          let buffer = stored @ replicate (n - length stored) 0
          in take (nat len) buffer @ replicate (nat len - length buffer) 0)"

text \<open>\<open>CRYPTO_memcmp\<close>: no early exit, the differences are collected.\<close>

fun memcmp_acc :: "u8 \<Rightarrow> bytes \<Rightarrow> bytes \<Rightarrow> u8" where
  "memcmp_acc x (a # as) (b # bs) = memcmp_acc (x OR (a XOR b)) as bs"
| "memcmp_acc x _ _ = x"

definition secureCompare :: "string \<Rightarrow> string \<Rightarrow> bool" where
  "secureCompare a b =
     (if length a \<noteq> length b then False
      else memcmp_acc 0 (string_to_bytes a) (string_to_bytes b) = 0)"

section \<open>Authenticator\<close>

record authenticator =
  auth_config :: app_config
  pendingChallenges :: "(string, string) smap"

definition new_authenticator :: "app_config \<Rightarrow> authenticator" where
  "new_authenticator c = \<lparr>auth_config = c, pendingChallenges = []\<rparr>"

definition storePendingChallenge :: "string \<Rightarrow> string \<Rightarrow> authenticator \<Rightarrow> authenticator" where
  "storePendingChallenge connId challenge a =
     a\<lparr>pendingChallenges := sm_insert connId challenge (pendingChallenges a)\<rparr>"

definition getPendingChallenge :: "string \<Rightarrow> authenticator \<Rightarrow> string option" where
  "getPendingChallenge connId a = sm_lookup (pendingChallenges a) connId"

definition clearPendingChallenge :: "string \<Rightarrow> authenticator \<Rightarrow> authenticator" where
  "clearPendingChallenge connId a = a\<lparr>pendingChallenges := sm_erase connId (pendingChallenges a)\<rparr>"

definition computeExpectedResponse ::
    "(string \<Rightarrow> string \<Rightarrow> bytes option) \<Rightarrow> authenticator \<Rightarrow> string \<Rightarrow> crypto_error + string" where
  "computeExpectedResponse mac a challenge =
     (if pskHash (auth_config a) = '''' then Inr '''' else hmacSha256 mac (pskHash (auth_config a)) challenge)"

definition sendChallenge :: "(tcp_socket \<Rightarrow> string) \<Rightarrow> (bytes \<Rightarrow> string) \<Rightarrow> bytes option \<Rightarrow>
    authenticator \<Rightarrow> connection \<Rightarrow> crypto_error + authenticator \<times> connection" where
  "sendChallenge getpeername base64 rnd a conn =
     andThen (generateChallenge base64 rnd) (\<lambda>challenge.
       let connAddr = remoteAddress getpeername conn;
           a1 = storePendingChallenge connAddr challenge a;
           payload = buildJson (''challenge'', challenge) ('''', '''') ('''', '''')
       in Inr (a1, fst (conn_send_str conn AUTH_REQUEST payload)))"

definition verifyResponse :: "(string \<Rightarrow> string \<Rightarrow> bytes option) \<Rightarrow> authenticator \<Rightarrow> string \<Rightarrow> string \<Rightarrow>
    crypto_error + bool" where
  "verifyResponse mac a challenge responsePayload =
     (if pskHash (auth_config a) = '''' then Inr True
      else
        let response = auth_extractStr responsePayload ''response'' in
        if response = '''' then Inr False
        else andThen (computeExpectedResponse mac a challenge) (\<lambda>expected.
          Inr (secureCompare response expected)))"

definition buildResponse :: "(string \<Rightarrow> string \<Rightarrow> bytes option) \<Rightarrow> authenticator \<Rightarrow> string \<Rightarrow> crypto_error + string" where
  "buildResponse mac a challengePayload =
     (let challenge = auth_extractStr challengePayload ''challenge'' in
      if challenge = '''' then Inr ''''
      else andThen (computeExpectedResponse mac a challenge) (\<lambda>response.
        Inr (buildJson (''response'', response) (''device_id'', deviceId (auth_config a)) ('''', ''''))))"

section \<open>Comparison\<close>

lemma size_as_int_small:
  assumes "n < 2 ^ 31"
  shows "size_as_int n = int n"
proof -
  have "size_as_int n = signed_take_bit 31 (int n)"
    using sint_sbintrunc' [of "int n", where 'a = 32] by (simp add: size_as_int_def)
  moreover have "int n < 2 ^ 31" using assms by (metis of_nat_less_iff of_nat_numeral of_nat_power)
  ultimately show ?thesis by (simp add: signed_take_bit_int_eq_self)
qed

text \<open>What was encoded is decoded, up to the length an \<open>int\<close> can hold, if the filter reads what it
  wrote.\<close>

lemma base64_roundtrip:
  assumes "\<And>d n. length d \<le> n \<Longrightarrow> decoding (encoding d) (int (length (encoding d))) (int n) = (int (length d), d)"
    and "length data \<le> length (encoding data)" and "length (encoding data) < 2 ^ 31"
  shows "base64Decode decoding (base64Encode encoding data) = data"
  using assms by (simp add: base64Encode_def base64Decode_def size_as_int_small Let_def)

lemma xor_zero: "a XOR b = 0 \<longleftrightarrow> a = b" for a b :: u8
  by (auto simp: bit_eq_iff bit_xor_iff)

lemma memcmp_acc_zero:
  "length as = length bs \<Longrightarrow> memcmp_acc x as bs = 0 \<longleftrightarrow> x = 0 \<and> as = bs"
  by (induction x as bs rule: memcmp_acc.induct) (auto simp: or_eq_0_iff xor_zero)

lemma string_to_bytes_inject [simp]: "string_to_bytes a = string_to_bytes b \<longleftrightarrow> a = b"
  by (metis bytes_to_string_to_bytes)

lemma secureCompare_eq: "secureCompare a b \<longleftrightarrow> a = b"
  by (auto simp: secureCompare_def memcmp_acc_zero)

section \<open>The exchange\<close>

lemma auth_scan_plain: "plain v \<Longrightarrow> auth_scan (v @ ch_quote # r) = v"
  by (induction v rule: auth_scan.induct; cases r) (auto simp: plain_def)

lemma auth_first_key:
  "plain v \<Longrightarrow> auth_extractStr (buildJson (k, v) p2 p3) k = v"
proof -
  assume "plain v"
  have "str_after (str_pat k) (CHR ''{'' # str_pat k @ v @ ch_quote # r) = Some (v @ ch_quote # r)" for r
    using msg_esc.at_member [of k "[]" "v @ ch_quote # r"] by (simp add: char_skip_str del: str_after.simps)
  with auth_scan_plain [OF \<open>plain v\<close>] show ?thesis
    by (simp add: auth_extractStr_eq buildJson_def del: str_after.simps)
qed

lemma plain_hex: "plain (bytesToHex h)"
  using bytesToHex_chars [of ch_quote h] bytesToHex_chars [of ch_bs h] by (auto simp: plain_def is_hex_digit_def)

text \<open>Both sides hold the same key: the answer to a challenge is accepted.\<close>

lemma verify_build:
  assumes "pskHash (auth_config b) = pskHash (auth_config a)" and "challenge \<noteq> ''''" and "plain challenge"
    and "mac (pskHash (auth_config a)) challenge = Some h" and "h \<noteq> []"
    and "buildResponse mac b (buildJson (''challenge'', challenge) ('''', '''') ('''', '''')) = Inr p"
  shows "verifyResponse mac a challenge p = Inr True"
proof (cases "pskHash (auth_config a) = ''''")
  case False
  have e: "computeExpectedResponse mac x challenge = Inr (bytesToHex h)" if "x = a \<or> x = b" for x
    using that assms(1,4) False by (auto simp: computeExpectedResponse_def hmacSha256_def)
  with assms(2,3,6) have "p = buildJson (''response'', bytesToHex h) (''device_id'', deviceId (auth_config b)) ('''', '''')"
    by (simp add: buildResponse_def auth_first_key)
  moreover have "bytesToHex h \<noteq> ''''" using assms(5) length_bytesToHex [of h] by (cases h) auto
  ultimately show ?thesis
    using False e by (simp add: verifyResponse_def auth_first_key plain_hex secureCompare_eq)
qed (simp add: verifyResponse_def)

text \<open>What is accepted: exactly the hexadecimal MAC of the challenge under the key.\<close>

lemma verify_iff:
  assumes "pskHash (auth_config a) \<noteq> ''''"
  shows "verifyResponse mac a challenge p = Inr True \<longleftrightarrow>
    (\<exists>h. mac (pskHash (auth_config a)) challenge = Some h \<and> h \<noteq> [] \<and> auth_extractStr p ''response'' = bytesToHex h)"
proof -
  have n: "bytesToHex h = [] \<longleftrightarrow> h = []" for h using length_bytesToHex [of h] by (cases h) auto
  show ?thesis
  proof (cases "mac (pskHash (auth_config a)) challenge")
    case None
    with assms show ?thesis
      by (simp add: verifyResponse_def computeExpectedResponse_def hmacSha256_def Let_def)
  next
    case (Some h)
    with assms n [of h] show ?thesis
      by (auto simp: verifyResponse_def computeExpectedResponse_def hmacSha256_def secureCompare_eq Let_def
          split: if_splits)
  qed
qed

text \<open>The store of challenges is a map.\<close>

definition pending :: "authenticator \<Rightarrow> string \<Rightarrow> string option" where
  "pending a k = getPendingChallenge k a"

lemma pending_store: "pending (storePendingChallenge k v a) = (pending a)(k \<mapsto> v)"
  and pending_clear: "pending (clearPendingChallenge k a) = (pending a)(k := None)"
  by (auto simp: pending_def getPendingChallenge_def storePendingChallenge_def clearPendingChallenge_def fun_eq_iff)

interpretation challenges: ordered_map pending storePendingChallenge clearPendingChallenge
    "\<lambda>a. sm_ok (pendingChallenges a)"
  by unfold_locales
    (auto simp: storePendingChallenge_def clearPendingChallenge_def sm_ok_insert sm_ok_erase pending_def getPendingChallenge_def fun_eq_iff)

section \<open>Properties\<close>

text \<open>C32. Two authenticators with the same key agree: the response one builds to a challenge of
  the other is accepted, for every challenge without quotes and backslashes and any MAC that
  returns a value.\<close>

theorem authenticators_agree:
  assumes "pskHash (auth_config b) = pskHash (auth_config a)" and "challenge \<noteq> ''''" and "plain challenge"
    and "mac (pskHash (auth_config a)) challenge = Some h" and "h \<noteq> []"
    and "buildResponse mac b (buildJson (''challenge'', challenge) ('''', '''') ('''', '''')) = Inr p"
  shows "verifyResponse mac a challenge p = Inr True"
  using assms by (rule verify_build)

definition sample_auth :: authenticator where
  "sample_auth = new_authenticator (default_config\<lparr>deviceId := ''d'', pskHash := ''k''\<rparr>)"

theorem authenticators_agree_witness:
  "verifyResponse (\<lambda>k c. Some (string_to_bytes (k @ c))) sample_auth ''xy''
    (buildJson (''response'', bytesToHex (string_to_bytes ''kxy'')) (''device_id'', ''d'') ('''', '''')) = Inr True"
proof (rule authenticators_agree [where b = sample_auth and h = "string_to_bytes ''kxy''"])
  show "plain ''xy''" by (simp add: plain_def)
  then show "buildResponse (\<lambda>k c. Some (string_to_bytes (k @ c))) sample_auth
      (buildJson (''challenge'', ''xy'') ('''', '''') ('''', '''')) =
    Inr (buildJson (''response'', bytesToHex (string_to_bytes ''kxy'')) (''device_id'', ''d'') ('''', ''''))"
    by (simp add: buildResponse_def auth_first_key computeExpectedResponse_def hmacSha256_def sample_auth_def
        new_authenticator_def default_config_def string_to_bytes_def)
qed (simp_all add: string_to_bytes_def sample_auth_def new_authenticator_def default_config_def)

text \<open>With a key configured nothing else is accepted: a response passes exactly when its
  \<open>response\<close> field is the hexadecimal form of the non-empty MAC of the challenge under the key.\<close>

theorem response_accepted_iff:
  assumes "pskHash (auth_config a) \<noteq> ''''"
  shows "verifyResponse mac a challenge p = Inr True \<longleftrightarrow>
    (\<exists>h. mac (pskHash (auth_config a)) challenge = Some h \<and> h \<noteq> [] \<and> auth_extractStr p ''response'' = bytesToHex h)"
  using assms by (rule verify_iff)

theorem response_accepted_iff_witness:
  "verifyResponse (\<lambda>k c. None) sample_auth ''xy'' ''{}'' \<noteq> Inr True"
  using response_accepted_iff [of sample_auth "\<lambda>k c. None" "''xy''" "''{}''"]
  by (simp add: sample_auth_def new_authenticator_def default_config_def)

end
