(* ===== verification/Connection_Threads.thy ===== *)
theory Connection_Threads imports Connection begin

text \<open>
  One connection used by many threads at once (\<open>src/network/connection.cpp\<close>): any number of
  threads call \<open>send\<close> and \<open>disconnect\<close>, and the receiving thread finds the connection
  lost. A call is cut at every access to what the threads share: the flags \<open>running_\<close> and
  \<open>state_\<close>, the mutex \<open>sendMutex_\<close>, each \<open>::send\<close> of the loop of \<open>sendAll\<close>, and the
  test, the system call and the assignment of \<open>TcpSocket::close\<close>. A schedule is a list of calls and
  turns of the threads, in the order in which they happen. Accesses are sequentially consistent, also
  those to the handle, which is not atomic.
\<close>

section \<open>Threads in the calls of a connection\<close>

text \<open>Where a thread is: \<open>sd_\<close> is whether the \<open>send\<close> belongs to a \<open>disconnect\<close>.\<close>

datatype call_pc =
    Free
  | Tested bool frame
  | Locked bool frame
  | Writing bool frame nat
  | Disc_entered string
  | Disc_marked string
  | Disc_sent
  | Disc_stopped
  | Disc_valid
  | Disc_closed
  | Disc_last
  | Lost_running
  | Lost_stopped

record sending =
  by_thread :: nat
  its_frame :: frame
  its_bytes :: bytes
  its_result :: bool

text \<open>The shared state, with two histories: the outcomes of the sends that got the mutex, in that
  order, and the descriptors given to \<open>::close\<close>.\<close>

record conn_threads =
  shared :: connection
  sendMutex :: "nat option"
  call_at :: "nat \<Rightarrow> call_pc"
  written :: "sending list"
  fds_closed :: "socket_handle list"

definition all_free :: "connection \<Rightarrow> conn_threads" where
  "all_free c = \<lparr>shared = c, sendMutex = None, call_at = (\<lambda>t. Free), written = [], fds_closed = []\<rparr>"

definition goes_to :: "nat \<Rightarrow> call_pc \<Rightarrow> conn_threads \<Rightarrow> conn_threads" where
  "goes_to t p s = s\<lparr>call_at := (call_at s)(t := p)\<rparr>"

definition shared_handle :: "conn_threads \<Rightarrow> socket_handle" where
  "shared_handle s = (case socket (shared s) of None \<Rightarrow> kInvalidSocket | Some k \<Rightarrow> handle k)"

text \<open>The test of \<open>send\<close>, and its way out, with the mutex given back if it was taken.\<close>

definition send_enter :: "nat \<Rightarrow> bool \<Rightarrow> frame \<Rightarrow> conn_threads \<Rightarrow> conn_threads" where
  "send_enter t sd f s =
     (if \<not> running (shared s) \<or> socket (shared s) = None then goes_to t (if sd then Disc_sent else Free) s
      else goes_to t (Tested sd f) s)"

definition send_leave :: "nat \<Rightarrow> bool \<Rightarrow> frame \<Rightarrow> nat \<Rightarrow> bool \<Rightarrow> conn_threads \<Rightarrow> conn_threads" where
  "send_leave t sd f n ok s =
     (goes_to t (if sd then Disc_sent else Free) s)
       \<lparr>sendMutex := None,
        written := written s @ [\<lparr>by_thread = t, its_frame = f, its_bytes = take n (serialize_frame f), its_result = ok\<rparr>]\<rparr>"

text \<open>One turn of the loop of \<open>sendAll\<close>; a descriptor that was closed takes nothing.\<close>

definition write_turn :: "nat \<Rightarrow> send_answer \<Rightarrow> bool \<Rightarrow> frame \<Rightarrow> nat \<Rightarrow> conn_threads \<Rightarrow> conn_threads" where
  "write_turn t a sd f n s =
     (let data = serialize_frame f;
          answer = (if shared_handle s = kInvalidSocket \<or> shared_handle s \<in> set (fds_closed s) then Send_error else a)
      in if \<not> n < length data then send_leave t sd f n True s
         else case answer of
           Again \<Rightarrow> s
         | Send_error \<Rightarrow> send_leave t sd f n False s
         | Accepts k \<Rightarrow>
             (let w = take k (drop n data) in
              goes_to t (Writing sd f (n + length w))
                (s\<lparr>shared := (shared s)\<lparr>socket := map_option (\<lambda>k. k\<lparr>wire := wire k @ w\<rparr>) (socket (shared s))\<rparr>\<rparr>)))"

text \<open>A turn of a thread. A thread that waits for the mutex stays where it is.\<close>

definition call_turn :: "nat \<Rightarrow> send_answer \<Rightarrow> conn_threads \<Rightarrow> conn_threads" where
  "call_turn t a s =
     (case call_at s t of
        Free \<Rightarrow> s
      | Tested sd f \<Rightarrow> (if sendMutex s = None then goes_to t (Locked sd f) (s\<lparr>sendMutex := Some t\<rparr>) else s)
      | Locked sd f \<Rightarrow>
          (if shared_handle s = kInvalidSocket then send_leave t sd f 0 False s else goes_to t (Writing sd f 0) s)
      | Writing sd f n \<Rightarrow> write_turn t a sd f n s
      | Disc_entered r \<Rightarrow> goes_to t (Disc_marked r) (s\<lparr>shared := setState DISCONNECTING (shared s)\<rparr>)
      | Disc_marked r \<Rightarrow> send_enter t True (create_frame_str message_type.DISCONNECT r) s
      | Disc_sent \<Rightarrow> goes_to t Disc_stopped (s\<lparr>shared := (shared s)\<lparr>running := False\<rparr>\<rparr>)
      | Disc_stopped \<Rightarrow> goes_to t (if shared_handle s = kInvalidSocket then Disc_last else Disc_valid) s
      | Disc_valid \<Rightarrow> goes_to t Disc_closed
          (if shared_handle s = kInvalidSocket then s else s\<lparr>fds_closed := fds_closed s @ [shared_handle s]\<rparr>)
      | Disc_closed \<Rightarrow> goes_to t Disc_last
          (s\<lparr>shared := (shared s)\<lparr>socket := map_option (\<lambda>k. k\<lparr>handle := kInvalidSocket\<rparr>) (socket (shared s))\<rparr>\<rparr>)
      | Disc_last \<Rightarrow> goes_to t Free (s\<lparr>shared := setState DISCONNECTED (shared s)\<rparr>)
      | Lost_running \<Rightarrow> goes_to t Lost_stopped (s\<lparr>shared := (shared s)\<lparr>running := False\<rparr>\<rparr>)
      | Lost_stopped \<Rightarrow> goes_to t Free (s\<lparr>shared := setState DISCONNECTED (shared s)\<rparr>))"

text \<open>The actions of a schedule; a thread that is in a call begins no other.\<close>

datatype conn_action = Calls_send nat frame | Calls_disconnect nat string | Finds_lost nat | Thread_turn nat send_answer

fun conn_act :: "conn_action \<Rightarrow> conn_threads \<Rightarrow> conn_threads" where
  "conn_act (Calls_send t f) s = (if call_at s t = Free then send_enter t False f s else s)"
| "conn_act (Calls_disconnect t r) s =
     (if call_at s t = Free \<and> state (shared s) \<noteq> DISCONNECTED then goes_to t (Disc_entered r) s else s)"
| "conn_act (Finds_lost t) s =
     (if call_at s t = Free \<and> running (shared s) then goes_to t Lost_running s else s)"
| "conn_act (Thread_turn t a) s = call_turn t a s"

section \<open>What is on the wire\<close>

lemma goes_to_simps [simp]:
  "call_at (goes_to t p s) u = (if u = t then p else call_at s u)" "shared (goes_to t p s) = shared s"
  "sendMutex (goes_to t p s) = sendMutex s" "written (goes_to t p s) = written s"
  "fds_closed (goes_to t p s) = fds_closed s" "shared_handle (goes_to t p s) = shared_handle s"
  by (simp_all add: goes_to_def shared_handle_def)

lemma send_leave_simps [simp]:
  "call_at (send_leave t sd f n ok s) u = (if u = t then if sd then Disc_sent else Free else call_at s u)"
  "shared (send_leave t sd f n ok s) = shared s" "sendMutex (send_leave t sd f n ok s) = None"
  "written (send_leave t sd f n ok s) =
     written s @ [\<lparr>by_thread = t, its_frame = f, its_bytes = take n (serialize_frame f), its_result = ok\<rparr>]"
  "fds_closed (send_leave t sd f n ok s) = fds_closed s"
  by (simp_all add: send_leave_def)

definition in_section :: "call_pc \<Rightarrow> bool" where
  "in_section p = (case p of Locked sd f \<Rightarrow> True | Writing sd f n \<Rightarrow> True | _ \<Rightarrow> False)"

lemma in_section_simps [simp]:
  "\<not> in_section Free" "\<not> in_section (Tested sd f)" "in_section (Locked sd f)" "in_section (Writing sd f n)"
  "\<not> in_section (Disc_entered r)" "\<not> in_section (Disc_marked r)" "\<not> in_section Disc_sent" "\<not> in_section Disc_stopped"
  "\<not> in_section Disc_valid" "\<not> in_section Disc_closed" "\<not> in_section Disc_last"
  "\<not> in_section Lost_running" "\<not> in_section Lost_stopped"
  by (simp_all add: in_section_def)

fun bytes_at :: "call_pc \<Rightarrow> bytes" where
  "bytes_at (Writing sd f n) = take n (serialize_frame f)"
| "bytes_at p = []"

definition on_its_way :: "conn_threads \<Rightarrow> bytes" where
  "on_its_way s = (case sendMutex s of None \<Rightarrow> [] | Some t \<Rightarrow> bytes_at (call_at s t))"

definition exact :: "sending \<Rightarrow> bool" where
  "exact e \<longleftrightarrow> prefix (its_bytes e) (serialize_frame (its_frame e)) \<and>
     (its_result e \<longleftrightarrow> its_bytes e = serialize_frame (its_frame e))"

definition threads_inv :: "bytes \<Rightarrow> conn_threads \<Rightarrow> bool" where
  "threads_inv w s \<longleftrightarrow> (\<forall>t. sendMutex s = Some t \<longleftrightarrow> in_section (call_at s t)) \<and>
     sent (shared s) = w @ concat (map its_bytes (written s)) @ on_its_way s \<and> (\<forall>e \<in> set (written s). exact e)"

lemma inv_all_free: "threads_inv (sent c) (all_free c)"
  by (simp add: threads_inv_def all_free_def on_its_way_def)

text \<open>A move of a thread outside the mutual exclusion that writes nothing.\<close>

lemma inv_moves:
  assumes i: "threads_inv w s" and t: "\<not> in_section (call_at s t)" "\<not> in_section p" and c: "sent c = sent (shared s)"
  shows "threads_inv w (goes_to t p (s\<lparr>shared := c, fds_closed := fs\<rparr>))"
proof -
  have "sendMutex s \<noteq> Some t" using i t(1) by (simp add: threads_inv_def)
  then have "on_its_way (goes_to t p (s\<lparr>shared := c, fds_closed := fs\<rparr>)) = on_its_way s"
    by (auto simp: on_its_way_def split: option.split)
  then show ?thesis using i t c by (simp add: threads_inv_def)
qed

lemma inv_stays:
  assumes "threads_inv w s" and "\<not> in_section (call_at s t)" and "\<not> in_section p"
  shows "threads_inv w (goes_to t p s)"
  using inv_moves [OF assms, of "shared s" "fds_closed s"] by simp

lemma only_one:
  assumes "threads_inv w s" and "in_section (call_at s t)"
  shows "sendMutex s = Some t" "u \<noteq> t \<Longrightarrow> \<not> in_section (call_at s u)" "on_its_way s = bytes_at (call_at s t)"
proof -
  have m: "\<And>u. sendMutex s = Some u \<longleftrightarrow> in_section (call_at s u)" using assms(1) by (simp add: threads_inv_def)
  from m [of t] assms(2) show t: "sendMutex s = Some t" by simp
  from m [of u] t show "u \<noteq> t \<Longrightarrow> \<not> in_section (call_at s u)" by simp
  from t show "on_its_way s = bytes_at (call_at s t)" by (simp add: on_its_way_def)
qed

lemma inv_leave:
  assumes i: "threads_inv w s" and t: "in_section (call_at s t)" and b: "bytes_at (call_at s t) = take n (serialize_frame f)"
    and ok: "ok \<longleftrightarrow> length (serialize_frame f) \<le> n"
  shows "threads_inv w (send_leave t sd f n ok s)"
proof -
  have "take n (serialize_frame f) = serialize_frame f \<longleftrightarrow> ok" using ok by (metis take_all_iff)
  then have "exact \<lparr>by_thread = t, its_frame = f, its_bytes = take n (serialize_frame f), its_result = ok\<rparr>"
    by (simp add: exact_def take_is_prefix)
  then show ?thesis using i only_one [OF i t] b by (simp add: threads_inv_def on_its_way_def)
qed

lemma inv_write:
  assumes i: "threads_inv w s" and p: "call_at s t = Writing sd f n"
  shows "threads_inv w (write_turn t a sd f n s)"
proof -
  have t: "in_section (call_at s t)" using p by simp
  have "threads_inv w (goes_to t (Writing sd f (n + length x))
          (s\<lparr>shared := (shared s)\<lparr>socket := map_option (\<lambda>k. k\<lparr>wire := wire k @ x\<rparr>) (socket (shared s))\<rparr>\<rparr>))"
    if x: "x = take k (drop n (serialize_frame f))" and h: "shared_handle s \<noteq> kInvalidSocket" for x k
  proof -
    obtain y where "socket (shared s) = Some y" using h by (auto simp: shared_handle_def split: option.splits)
    moreover have "take (n + length x) (serialize_frame f) = take n (serialize_frame f) @ x"
      using x by (simp add: take_add min_def)
    ultimately show ?thesis using i only_one [OF i t] p by (simp add: threads_inv_def on_its_way_def sent_def)
  qed
  then show ?thesis using inv_leave [OF i t, of n f _ sd] p i
    by (auto simp: write_turn_def Let_def split: send_answer.split)
qed

lemma inv_locks:
  assumes i: "threads_inv w s" and p: "call_at s t = Tested sd f" and m: "sendMutex s = None"
  shows "threads_inv w (goes_to t (Locked sd f) (s\<lparr>sendMutex := Some t\<rparr>))"
proof -
  have "\<And>u. \<not> in_section (call_at s u)" using i m by (simp add: threads_inv_def)
  then show ?thesis using i m by (auto simp: threads_inv_def on_its_way_def)
qed

lemma inv_begins:
  assumes i: "threads_inv w s" and p: "call_at s t = Locked sd f"
  shows "threads_inv w (goes_to t (Writing sd f 0) s)"
  using i only_one [OF i, of t] p by (auto simp: threads_inv_def on_its_way_def)

lemma inv_turn:
  assumes i: "threads_inv w s"
  shows "threads_inv w (call_turn t a s)"
proof (cases "in_section (call_at s t)")
  case True
  then show ?thesis using inv_write [OF i] inv_begins [OF i] inv_leave [OF i True, of 0 _ False]
    by (cases "call_at s t") (auto simp: call_turn_def kFrameHeaderSize_def)
next
  case False
  have sock: "sent ((shared s)\<lparr>socket := map_option (\<lambda>k. k\<lparr>handle := h\<rparr>) (socket (shared s))\<rparr>) = sent (shared s)" for h
    by (simp add: sent_def split: option.split)
  note moves = inv_moves [OF i False] inv_moves [OF i False, of _ "shared s"] inv_moves [OF i False, of _ _ "fds_closed s"]
    inv_stays [OF i False] inv_locks [OF i] i sock
  from False show ?thesis
    by (cases "call_at s t") (use moves in \<open>auto simp: call_turn_def send_enter_def setState_def sent_def\<close>)
qed

lemma inv_act: "threads_inv w s \<Longrightarrow> threads_inv w (conn_act a s)"
  using inv_turn inv_stays by (cases a) (auto simp: send_enter_def)

lemma inv_schedule: "threads_inv (sent c) (fold conn_act as (all_free c))"
  by (rule fold_invariant [where Q = "\<lambda>a. True"]) (auto simp: inv_all_free inv_act)

section \<open>The order of the frames of a thread\<close>

fun frame_at :: "call_pc \<Rightarrow> frame list" where
  "frame_at (Tested sd f) = [f]"
| "frame_at (Locked sd f) = [f]"
| "frame_at (Writing sd f n) = [f]"
| "frame_at (Disc_entered r) = [create_frame_str message_type.DISCONNECT r]"
| "frame_at (Disc_marked r) = [create_frame_str message_type.DISCONNECT r]"
| "frame_at p = []"

definition frames_of :: "nat \<Rightarrow> sending list \<Rightarrow> frame list" where
  "frames_of t w = map its_frame (filter (\<lambda>e. by_thread e = t) w)"

lemma frames_of_simps [simp]:
  "frames_of t [] = []" "frames_of t (w @ [e]) = frames_of t w @ (if by_thread e = t then [its_frame e] else [])"
  by (simp_all add: frames_of_def)

fun frames_called :: "nat \<Rightarrow> conn_action \<Rightarrow> frame list" where
  "frames_called t (Calls_send u f) = (if u = t then [f] else [])"
| "frames_called t (Calls_disconnect u r) = (if u = t then [create_frame_str message_type.DISCONNECT r] else [])"
| "frames_called t a = []"

abbreviation handed_in :: "nat \<Rightarrow> conn_threads \<Rightarrow> frame list" where
  "handed_in t s \<equiv> frames_of t (written s) @ frame_at (call_at s t)"

lemma turn_hands_in: "subseq (handed_in t (call_turn u a s)) (handed_in t s)"
  by (cases "u = t"; cases "call_at s u")
    (auto simp: call_turn_def send_enter_def write_turn_def Let_def split: send_answer.split)

lemma act_hands_in: "subseq (handed_in t (conn_act a s)) (handed_in t s @ frames_called t a)"
  using turn_hands_in by (cases a) (auto simp: send_enter_def intro: subseq_order.trans [OF list_emb_append2])

lemma schedule_hands_in: "subseq (handed_in t (fold conn_act as (all_free c))) (concat (map (frames_called t) as))"
proof (induction as rule: rev_induct)
  case Nil
  then show ?case by (simp add: all_free_def)
next
  case (snoc a as)
  let ?s = "fold conn_act as (all_free c)" and ?h = "concat (map (frames_called t) as)"
  have "subseq (handed_in t (conn_act a ?s)) (handed_in t ?s @ frames_called t a)" by (rule act_hands_in)
  moreover have "subseq (handed_in t ?s @ frames_called t a) (?h @ frames_called t a)" using snoc by (simp only: subseq_append)
  ultimately have "subseq (handed_in t (conn_act a ?s)) (?h @ frames_called t a)" by (rule subseq_order.trans)
  then show ?case by simp
qed

section \<open>Descriptors and progress\<close>

text \<open>Where a call of \<open>disconnect\<close> has passed the test of \<open>close\<close> and has yet to close.\<close>

lemma turn_moves:
  assumes "call_at s t \<noteq> Free" and "\<And>f sd. call_at s t = Tested sd f \<Longrightarrow> sendMutex s = None"
  shows "call_at (call_turn t (Accepts 1) s) t \<noteq> call_at s t"
  using assms by (cases "call_at s t")
    (auto simp: call_turn_def send_enter_def write_turn_def Let_def split: send_answer.split)

lemma some_thread_moves:
  assumes i: "threads_inv w s" and t: "call_at s t \<noteq> Free"
  shows "\<exists>u. call_at (call_turn u (Accepts 1) s) u \<noteq> call_at s u"
proof (cases "(\<exists>sd f. call_at s t = Tested sd f) \<and> sendMutex s \<noteq> None")
  case True
  then obtain u where "sendMutex s = Some u" by auto
  then have "in_section (call_at s u)" using i unfolding threads_inv_def by metis
  then have "call_at (call_turn u (Accepts 1) s) u \<noteq> call_at s u" by (intro turn_moves) auto
  then show ?thesis ..
next
  case False
  then show ?thesis using turn_moves [OF t] by auto
qed

definition disconnecting :: "call_pc \<Rightarrow> bool" where
  "disconnecting p \<longleftrightarrow> p \<in> {Disc_sent, Disc_stopped, Disc_valid, Disc_closed, Disc_last} \<or>
     (\<exists>r. p = Disc_entered r \<or> p = Disc_marked r) \<or> (\<exists>f n. p = Tested True f \<or> p = Locked True f \<or> p = Writing True f n)"

definition closes_once :: "nat \<Rightarrow> conn_threads \<Rightarrow> bool" where
  "closes_once d s \<longleftrightarrow> (\<forall>u. disconnecting (call_at s u) \<longrightarrow> u = d) \<and>
     (call_at s d = Disc_valid \<longrightarrow> shared_handle s \<noteq> kInvalidSocket \<and> fds_closed s = []) \<and>
     (fds_closed s \<noteq> [] \<longrightarrow> length (fds_closed s) = 1 \<and> (call_at s d = Disc_closed \<or> shared_handle s = kInvalidSocket))"

lemma disconnecting_simps [simp]:
  "\<not> disconnecting Free" "disconnecting (Tested sd f) = sd" "disconnecting (Locked sd f) = sd" "disconnecting (Writing sd f n) = sd"
  "disconnecting (Disc_entered r)" "disconnecting (Disc_marked r)" "disconnecting Disc_sent" "disconnecting Disc_stopped"
  "disconnecting Disc_valid" "disconnecting Disc_closed" "disconnecting Disc_last"
  "\<not> disconnecting Lost_running" "\<not> disconnecting Lost_stopped"
  by (auto simp: disconnecting_def)

lemma handle_updates [simp]:
  "shared_handle (s\<lparr>shared := (shared s)\<lparr>socket := map_option (\<lambda>k. k\<lparr>wire := wire k @ w\<rparr>) (socket (shared s))\<rparr>\<rparr>) = shared_handle s"
  "shared_handle (s\<lparr>shared := (shared s)\<lparr>socket := map_option (\<lambda>k. k\<lparr>handle := kInvalidSocket\<rparr>) (socket (shared s))\<rparr>\<rparr>) = kInvalidSocket"
  "shared_handle (s\<lparr>shared := setState st (shared s)\<rparr>) = shared_handle s"
  "shared_handle (s\<lparr>shared := (shared s)\<lparr>running := b\<rparr>\<rparr>) = shared_handle s"
  "shared_handle (s\<lparr>sendMutex := m\<rparr>) = shared_handle s" "shared_handle (s\<lparr>fds_closed := fs\<rparr>) = shared_handle s"
  "shared_handle (send_leave t sd f n ok s) = shared_handle s"
  by (simp_all add: shared_handle_def setState_def send_leave_def goes_to_def option.case_eq_if option.map_sel)

lemma once_turn:
  assumes o: "closes_once d s"
  shows "closes_once d (call_turn t a s)"
proof (cases "t = d")
  case True
  with o show ?thesis
    by (cases "call_at s d")
      (auto simp: closes_once_def call_turn_def send_enter_def write_turn_def Let_def split: send_answer.split)
next
  case False
  with o have "\<not> disconnecting (call_at s t)" unfolding closes_once_def by blast
  with False o show ?thesis
    by (cases "call_at s t")
      (auto simp: closes_once_def call_turn_def send_enter_def write_turn_def Let_def split: send_answer.split)
qed

lemma once_act:
  assumes o: "closes_once d s" and a: "\<And>t r. a = Calls_disconnect t r \<Longrightarrow> t = d"
  shows "closes_once d (conn_act a s)"
proof (cases a)
  case (Thread_turn t b)
  then show ?thesis by (simp add: once_turn [OF o])
next
  case (Calls_disconnect t r)
  then show ?thesis using o a [of t r] by (auto simp: closes_once_def)
next
  case (Finds_lost t)
  then show ?thesis using o by (auto simp: closes_once_def)
next
  case (Calls_send t f)
  then show ?thesis using o by (auto simp: closes_once_def send_enter_def)
qed

lemma once_schedule:
  "(\<And>t r. Calls_disconnect t r \<in> set as \<Longrightarrow> t = d) \<Longrightarrow> closes_once d (fold conn_act as (all_free c))"
proof (induction as rule: rev_induct)
  case Nil
  then show ?case by (simp add: closes_once_def all_free_def)
next
  case (snoc a as)
  have "t = d" if "Calls_disconnect t r \<in> set as" for t r using snoc.prems [of t r] that by simp
  from snoc.IH [OF this] snoc.prems show ?case by (auto intro!: once_act)
qed

section \<open>Races\<close>

definition usable :: "connection \<Rightarrow> bool" where
  "usable c \<longleftrightarrow> running c \<and> state c = CONNECTED \<and> (\<exists>s. socket c = Some s \<and> isValid s)"

abbreviation turns :: "nat \<Rightarrow> send_answer list \<Rightarrow> conn_action list" where
  "turns t \<equiv> map (Thread_turn t)"

text \<open>The turns of a send that the kernel takes as a whole, and what they do when the mutex is free.\<close>

definition sends_whole :: "nat \<Rightarrow> frame \<Rightarrow> conn_action list" where
  "sends_whole t f = turns t [Again, Again, Accepts (length (serialize_frame f)), Again]"

definition writes :: "bytes \<Rightarrow> connection \<Rightarrow> connection" where
  "writes w c = c\<lparr>socket := map_option (\<lambda>k. k\<lparr>wire := wire k @ w\<rparr>) (socket c)\<rparr>"

lemma writes_simps [simp]:
  "running (writes w c) = running c" "state (writes w c) = state c" "socket c \<noteq> None \<Longrightarrow> sent (writes w c) = sent c @ w"
  "socket (writes w c) = None \<longleftrightarrow> socket c = None"
  "writes w (c\<lparr>state := st\<rparr>) = (writes w c)\<lparr>state := st\<rparr>" "writes w (c\<lparr>running := b\<rparr>) = (writes w c)\<lparr>running := b\<rparr>"
  by (auto simp: writes_def sent_def)

lemma sends_whole_run:
  assumes p: "call_at s t = Tested sd f" and m: "sendMutex s = None"
    and h: "shared_handle s \<noteq> kInvalidSocket" "shared_handle s \<notin> set (fds_closed s)"
  shows "fold conn_act (sends_whole t f) s = s\<lparr>shared := writes (serialize_frame f) (shared s),
    call_at := (call_at s)(t := if sd then Disc_sent else Free),
    written := written s @ [\<lparr>by_thread = t, its_frame = f, its_bytes = serialize_frame f, its_result = True\<rparr>]\<rparr>"
proof -
  define s1 where "s1 = goes_to t (Writing sd f 0) (s\<lparr>sendMutex := Some t\<rparr>)"
  have "call_turn t Again (call_turn t Again s) = s1"
    using p m h by (simp add: call_turn_def s1_def) (simp add: goes_to_def)
  moreover have "call_turn t (Accepts (length (serialize_frame f))) s1 =
      goes_to t (Writing sd f (length (serialize_frame f))) (s1\<lparr>shared := writes (serialize_frame f) (shared s1)\<rparr>)"
    using h by (simp add: call_turn_def s1_def write_turn_def Let_def writes_def kFrameHeaderSize_def)
  ultimately show ?thesis
    using m by (simp add: sends_whole_def) (simp add: call_turn_def write_turn_def s1_def goes_to_def send_leave_def)
qed

text \<open>A send that has passed its test waits for the mutex while another thread disconnects.\<close>

definition overtaken :: "frame \<Rightarrow> string \<Rightarrow> conn_action list" where
  "overtaken f r =
     [Calls_send 1 f, Calls_disconnect 2 r] @ turns 2 [Again, Again] @
     sends_whole 2 (create_frame_str message_type.DISCONNECT r) @ turns 2 [Again] @ sends_whole 1 f"

text \<open>Two threads pass the test of \<open>disconnect\<close>, and then the test of \<open>close\<close>, before one of them closes.\<close>

definition both_disconnect :: "string \<Rightarrow> string \<Rightarrow> conn_action list" where
  "both_disconnect r q =
     [Calls_disconnect 1 r, Calls_disconnect 2 q] @ turns 1 [Again, Again] @
     sends_whole 1 (create_frame_str message_type.DISCONNECT r) @ turns 1 [Again, Again] @
     turns 2 [Again, Again, Again, Again] @ turns 1 [Again] @ turns 2 [Again]"

lemma overtaken_run:
  assumes "usable c"
  shows "fold conn_act (overtaken f r) (all_free c) =
    (let d = create_frame_str message_type.DISCONNECT r in
     \<lparr>shared = (writes (serialize_frame f) (writes (serialize_frame d) c))\<lparr>state := DISCONNECTING, running := False\<rparr>,
      sendMutex = None, call_at = (\<lambda>t. Free)(1 := Free, 2 := Disc_stopped),
      written = [\<lparr>by_thread = 2, its_frame = d, its_bytes = serialize_frame d, its_result = True\<rparr>,
                 \<lparr>by_thread = 1, its_frame = f, its_bytes = serialize_frame f, its_result = True\<rparr>],
      fds_closed = []\<rparr>)"
proof -
  let ?d = "create_frame_str message_type.DISCONNECT r"
  from assms obtain k where c: "running c" "state c = CONNECTED" "socket c = Some k" "handle k \<noteq> kInvalidSocket"
    by (auto simp: usable_def isValid_def)
  let ?c1 = "c\<lparr>state := DISCONNECTING\<rparr>"
  have 1: "fold conn_act ([Calls_send 1 f, Calls_disconnect 2 r] @ turns 2 [Again, Again]) (all_free c) =
      (all_free ?c1)\<lparr>call_at := (\<lambda>t. Free)(1 := Tested False f, 2 := Tested True ?d)\<rparr>" (is "_ = ?s1")
    using c by (simp add: all_free_def send_enter_def call_turn_def goes_to_def setState_def fun_upd_twist)
  let ?s2 = "fold conn_act (turns 2 [Again]) (fold conn_act (sends_whole 2 ?d) ?s1)"
  have 2: "?s2 = (all_free ((writes (serialize_frame ?d) ?c1)\<lparr>running := False\<rparr>))
      \<lparr>call_at := (\<lambda>t. Free)(1 := Tested False f, 2 := Disc_stopped),
       written := [\<lparr>by_thread = 2, its_frame = ?d, its_bytes = serialize_frame ?d, its_result = True\<rparr>]\<rparr>"
    using c by (subst sends_whole_run [of _ 2 True])
      (simp_all add: all_free_def shared_handle_def call_turn_def goes_to_def)
  have "fold conn_act (overtaken f r) (all_free c) = fold conn_act (sends_whole 1 f) ?s2"
    unfolding overtaken_def fold_append comp_apply 1 [unfolded fold_append comp_apply] ..
  also have "\<dots> = ?s2\<lparr>shared := writes (serialize_frame f) (shared ?s2), call_at := (call_at ?s2)(1 := Free),
      written := written ?s2 @ [\<lparr>by_thread = 1, its_frame = f, its_bytes = serialize_frame f, its_result = True\<rparr>]\<rparr>"
    unfolding 2 using c by (subst sends_whole_run [of _ 1 False]) (simp_all add: all_free_def shared_handle_def writes_def)
  finally show ?thesis unfolding 2 using c by (simp add: all_free_def Let_def fun_upd_twist)
qed

lemma both_disconnect_run:
  assumes "usable c" and k: "socket c = Some k"
  shows "fds_closed (fold conn_act (both_disconnect r q) (all_free c)) = [handle k, handle k]"
proof -
  let ?d = "create_frame_str message_type.DISCONNECT r" and ?c1 = "c\<lparr>state := DISCONNECTING\<rparr>"
  from assms have c: "running c" "state c = CONNECTED" "handle k \<noteq> kInvalidSocket" by (auto simp: usable_def isValid_def)
  have 1: "fold conn_act ([Calls_disconnect 1 r, Calls_disconnect 2 q] @ turns 1 [Again, Again]) (all_free c) =
      (all_free ?c1)\<lparr>call_at := (\<lambda>t. Free)(1 := Tested True ?d, 2 := Disc_entered q)\<rparr>" (is "_ = ?s1")
    using c k by (simp add: all_free_def send_enter_def call_turn_def goes_to_def setState_def fun_upd_twist)
  let ?s2 = "fold conn_act (turns 1 [Again, Again]) (fold conn_act (sends_whole 1 ?d) ?s1)"
  have 2: "?s2 = (all_free ((writes (serialize_frame ?d) ?c1)\<lparr>running := False\<rparr>))
      \<lparr>call_at := (\<lambda>t. Free)(1 := Disc_valid, 2 := Disc_entered q),
       written := [\<lparr>by_thread = 1, its_frame = ?d, its_bytes = serialize_frame ?d, its_result = True\<rparr>]\<rparr>"
    using c k by (subst sends_whole_run [of _ 1 True])
      (simp_all add: all_free_def shared_handle_def call_turn_def goes_to_def writes_def fun_upd_twist)
  have "fold conn_act (both_disconnect r q) (all_free c) =
      fold conn_act (turns 2 [Again, Again, Again, Again] @ turns 1 [Again] @ turns 2 [Again]) ?s2"
    unfolding both_disconnect_def fold_append comp_apply 1 [unfolded fold_append comp_apply] ..
  then show ?thesis unfolding 2 using c k
    by (simp add: all_free_def shared_handle_def call_turn_def goes_to_def send_enter_def setState_def writes_def)
qed

section \<open>Properties\<close>

text \<open>C8. Sends of one connection never mix: whatever calls and turns the threads take, at most one of
  them writes, and the bytes on the wire are what the finished sends wrote, one after the other in the
  order in which they got the mutex, followed by the part of the send under way. Each wrote a prefix of
  its frame, and the whole of it exactly if it reported success.\<close>

theorem sends_never_mix:
  "let s = fold conn_act as (all_free c) in
     sent (shared s) = sent c @ concat (map its_bytes (written s)) @ on_its_way s \<and>
     (\<forall>e \<in> set (written s). prefix (its_bytes e) (serialize_frame (its_frame e)) \<and>
        (its_result e \<longleftrightarrow> its_bytes e = serialize_frame (its_frame e))) \<and>
     (\<forall>t. sendMutex s = Some t \<longleftrightarrow> in_section (call_at s t))"
  using inv_schedule [of c as] by (simp add: threads_inv_def exact_def Let_def)

theorem sends_never_mix_witness:
  "sent (shared (fold conn_act (overtaken ping_frame ''bye'') (all_free started))) =
     concat (map its_bytes (written (fold conn_act (overtaken ping_frame ''bye'') (all_free started)))) \<and>
   length (written (fold conn_act (overtaken ping_frame ''bye'') (all_free started))) = 2"
proof -
  have "usable started" using started_facts by (simp add: usable_def receiving_def)
  from overtaken_run [OF this] sends_never_mix [of "overtaken ping_frame ''bye''" started]
  show ?thesis by (simp add: Let_def on_its_way_def started_facts)
qed

text \<open>C24. Each thread's frames go out in the order of its calls, each at most once; and no schedule gets
  stuck: as long as a call is under way, some thread can take a turn.\<close>

theorem sends_keep_order:
  "let s = fold conn_act as (all_free c) in
     subseq (frames_of t (written s)) (concat (map (frames_called t) as)) \<and>
     (call_at s t \<noteq> Free \<longrightarrow> (\<exists>u. call_at (call_turn u (Accepts 1) s) u \<noteq> call_at s u))"
proof -
  let ?s = "fold conn_act as (all_free c)"
  have "subseq (frames_of t (written ?s)) (handed_in t ?s)" by (rule prefix_imp_subseq) simp
  then have "subseq (frames_of t (written ?s)) (concat (map (frames_called t) as))"
    using schedule_hands_in by (rule subseq_order.trans)
  then show ?thesis using some_thread_moves [OF inv_schedule] by (simp add: Let_def)
qed

theorem sends_keep_order_witness:
  "\<exists>u. call_at (call_turn u (Accepts 1) (conn_act (Calls_send 1 ping_frame) (all_free started))) u \<noteq>
     call_at (conn_act (Calls_send 1 ping_frame) (all_free started)) u"
proof -
  have "call_at (conn_act (Calls_send 1 ping_frame) (all_free started)) 1 \<noteq> Free"
    using started_facts(2) by (auto simp: receiving_def send_enter_def all_free_def)
  then show ?thesis using sends_keep_order [of "[Calls_send 1 ping_frame]" started 1] by (simp add: Let_def)
qed

text \<open>C23. The descriptor is closed once as long as one thread at most disconnects. Two threads that
  disconnect at the same time can close it twice, the second time when the number may already belong to
  another connection; and a frame can follow the last one, \<open>DISCONNECT\<close>, from a thread that tested
  \<open>running_\<close> before.\<close>

theorem disconnect_races:
  assumes "usable c" and "socket c = Some k"
  shows "((\<forall>t r. Calls_disconnect t r \<in> set as \<longrightarrow> t = d) \<longrightarrow> length (fds_closed (fold conn_act as (all_free c))) \<le> 1) \<and>
    fds_closed (fold conn_act (both_disconnect r q) (all_free c)) = [handle k, handle k] \<and>
    sent (shared (fold conn_act (overtaken f r) (all_free c))) =
      sent c @ serialize_frame (create_frame_str message_type.DISCONNECT r) @ serialize_frame f"
proof (intro conjI)
  show "sent (shared (fold conn_act (overtaken f r) (all_free c))) =
      sent c @ serialize_frame (create_frame_str message_type.DISCONNECT r) @ serialize_frame f"
    unfolding overtaken_run [OF assms(1)] using assms(2) by (simp add: Let_def sent_def writes_def)
qed (use once_schedule [of as d c] both_disconnect_run [OF assms] in \<open>auto simp: closes_once_def le_Suc_eq\<close>)

theorem disconnect_races_witness:
  "fds_closed (fold conn_act (both_disconnect ''bye'' ''bye'') (all_free started)) = [4, 4] \<and>
   length (fds_closed (fold conn_act (overtaken ping_frame ''bye'') (all_free started))) \<le> 1"
proof -
  have u: "usable started" using started_facts by (simp add: usable_def receiving_def)
  have k: "socket started = Some (open_socket [Accepts 100, Accepts 100])"
    by (simp add: started_def conn_start_def new_connection_def)
  have "Calls_disconnect t r \<in> set (overtaken ping_frame ''bye'') \<longrightarrow> t = 2" for t r
    by (auto simp: overtaken_def sends_whole_def)
  then show ?thesis
    using disconnect_races [OF u k, of "overtaken ping_frame ''bye''" 2 "''bye''" "''bye''" ping_frame]
    by (simp add: open_socket_def)
qed

end
