(* ===== verification/Chat_Session.thy ===== *)
theory Chat_Session imports Connection Message Config Std_Map begin

text \<open>
  The chat session (\<open>src/chat/chat_session.hpp\<close>, \<open>chat_session.cpp\<close>): the tables of
  connections and peers, the frame handlers, sending, the ping loop, start and stop. Every
  operation holds \<open>connMutex_\<close> while it uses the tables and is one transition here; the ping
  loop, which releases it between its sweep and the removals, is cut there (\<open>Session_Locks\<close> cuts
  \<open>addConnection\<close> and \<open>stop\<close> further, where they wait). A call of a callback
  is an event of the result. A connection whose last reference goes away is destroyed: it moves,
  as \<open>conn_destroy\<close> leaves it, to the list \<open>destroyed\<close>, which no code reads.
\<close>

record peer_info =
  piDeviceId :: string
  piDisplayName :: string
  piAddress :: string
  piPort :: u16
  piPlatform :: string
  piState :: connection_state

definition default_peer :: peer_info where
  "default_peer = \<lparr>piDeviceId = '''', piDisplayName = '''', piAddress = '''', piPort = 0,
     piPlatform = '''', piState = CONNECTED\<rparr>"

record session =
  config :: app_config
  has_messageCallback :: bool
  has_peerEventCallback :: bool
  connections :: "(string, connection) smap"
  peers :: "(string, peer_info) smap"
  session_running :: bool
  deadConns :: "string list"
  destroyed :: "connection list"

datatype event = Message_event chat_message string | Peer_event peer_info bool

definition new_session :: "app_config \<Rightarrow> session" where
  "new_session c = \<lparr>config = c, has_messageCallback = False, has_peerEventCallback = False,
     connections = [], peers = [], session_running = False, deadConns = [], destroyed = []\<rparr>"

definition setMessageCallback :: "session \<Rightarrow> session" where
  "setMessageCallback s = s\<lparr>has_messageCallback := True\<rparr>"

definition setPeerEventCallback :: "session \<Rightarrow> session" where
  "setPeerEventCallback s = s\<lparr>has_peerEventCallback := True\<rparr>"

text \<open>The use of one connection under the lock, if it is in the table.\<close>

definition on_connection :: "string \<Rightarrow> (connection \<Rightarrow> connection) \<Rightarrow> session \<Rightarrow> session" where
  "on_connection connId f s =
     (case sm_lookup (connections s) connId of
        None \<Rightarrow> s
      | Some c \<Rightarrow> s\<lparr>connections := sm_insert connId (f c) (connections s)\<rparr>)"

abbreviation send_on :: "string \<Rightarrow> message_type \<Rightarrow> string \<Rightarrow> session \<Rightarrow> session" where
  "send_on connId t p \<equiv> on_connection connId (\<lambda>c. fst (conn_send_str c t p))"

abbreviation disconnect_on :: "string \<Rightarrow> string \<Rightarrow> session \<Rightarrow> session" where
  "disconnect_on connId reason \<equiv> on_connection connId (\<lambda>c. conn_disconnect c reason)"

definition is_authenticated :: "session \<Rightarrow> string \<Rightarrow> bool" where
  "is_authenticated s connId \<longleftrightarrow>
     (case sm_lookup (peers s) connId of None \<Rightarrow> False | Some p \<Rightarrow> piState p = AUTHENTICATED)"

section \<open>Adding a connection\<close>

definition hello_payload :: "app_config \<Rightarrow> string" where
  "hello_payload c =
     ''{'' @ jsonStr ''device_id'' (deviceId c) @ '','' @
     jsonStr ''display_name'' (displayName c) @ '','' @
     jsonStr ''platform'' (platform c) @ '','' @
     int_pat ''tcp_port'' @ int_to_string (uint (listenPort c)) @ ''}''"

definition sendHello :: "string \<Rightarrow> session \<Rightarrow> session" where
  "sendHello connId s = send_on connId HELLO (hello_payload (config s)) s"

text \<open>The assignment \<open>connections_[connId] = connPtr\<close> drops a connection with the same id.\<close>

definition addConnection :: "bytes option \<Rightarrow> int \<Rightarrow> int \<Rightarrow> connection \<Rightarrow> session \<Rightarrow> session" where
  "addConnection rnd ts now conn s =
     (if \<not> session_running s then s\<lparr>destroyed := destroyed s @ [conn_destroy conn]\<rparr>
      else
        let connId = makeConnId rnd ts;
            dropped = (case sm_lookup (connections s) connId of None \<Rightarrow> [] | Some c \<Rightarrow> [conn_destroy c]);
            s1 = s\<lparr>connections := sm_insert connId conn (connections s),
                   destroyed := destroyed s @ dropped,
                   peers := sm_insert connId default_peer (peers s)\<rparr>;
            s2 = on_connection connId (conn_start now) s1
        in sendHello connId s2)"

section \<open>Sending\<close>

definition own_message :: "bytes option \<Rightarrow> i64 \<Rightarrow> string \<Rightarrow> session \<Rightarrow> chat_message" where
  "own_message rnd now text s = \<lparr>msgId = generateId rnd, senderId = deviceId (config s),
     senderName = displayName (config s), timestampUtc = now, msgText = text\<rparr>"

text \<open>The peers are tried in key order; the first that matches decides.\<close>

definition find_target :: "string \<Rightarrow> session \<Rightarrow> string option" where
  "find_target peerId s =
     (case find (\<lambda>(cid, p). piDeviceId p = peerId \<and> piState p = AUTHENTICATED) (peers s) of
        None \<Rightarrow> None
      | Some (cid, p) \<Rightarrow> if sm_lookup (connections s) cid = None then None else Some cid)"

definition sendTo :: "bytes option \<Rightarrow> i64 \<Rightarrow> string \<Rightarrow> string \<Rightarrow> session \<Rightarrow> session \<times> bool" where
  "sendTo rnd now peerId text s =
     (case find_target peerId s of
        None \<Rightarrow> (s, False)
      | Some cid \<Rightarrow>
          (case sm_lookup (connections s) cid of
             None \<Rightarrow> (s, False)
           | Some c \<Rightarrow>
               (case conn_send_str c CHAT_MESSAGE (toJson (own_message rnd now text s)) of
                  (c', ok) \<Rightarrow> (s\<lparr>connections := sm_insert cid c' (connections s)\<rparr>, ok))))"

definition broadcast :: "bytes option \<Rightarrow> i64 \<Rightarrow> string \<Rightarrow> session \<Rightarrow> session" where
  "broadcast rnd now text s =
     (let json = toJson (own_message rnd now text s)
      in s\<lparr>connections := map (\<lambda>(cid, c). (cid,
             if is_authenticated s cid then fst (conn_send_str c CHAT_MESSAGE json) else c)) (connections s)\<rparr>)"

definition list_peers :: "session \<Rightarrow> peer_info list" where
  "list_peers s = filter (\<lambda>p. piState p = AUTHENTICATED) (map snd (peers s))"

definition peerCount :: "session \<Rightarrow> nat" where
  "peerCount s = fold (\<lambda>(cid, p) n. if piState p = AUTHENTICATED then n + 1 else n) (peers s) 0"

section \<open>Handlers\<close>

definition peer_event :: "session \<Rightarrow> bool \<Rightarrow> peer_info \<Rightarrow> bool \<Rightarrow> event list" where
  "peer_event s notify p connected = (if notify \<and> has_peerEventCallback s then [Peer_event p connected] else [])"

definition auth_request_payload :: "string \<Rightarrow> app_config \<Rightarrow> string" where
  "auth_request_payload peerDeviceId c =
     ''{'' @ jsonStr ''challenge'' (peerDeviceId @ ''|'' @ deviceId c) @ ''}''"

definition handleHello :: "string \<Rightarrow> string \<Rightarrow> session \<Rightarrow> session \<times> event list" where
  "handleHello connId p s =
     (let peerDeviceId = session_extractStr p ''device_id'';
          peerName = session_extractStr p ''display_name'';
          peerPlatform = session_extractStr p ''platform''
      in if peerDeviceId = '''' then (disconnect_on connId ''invalid HELLO'' s, [])
         else
           let peer = (sm_at default_peer (peers s) connId)
                 \<lparr>piDeviceId := peerDeviceId, piDisplayName := peerName, piPlatform := peerPlatform\<rparr>
           in if requireAuth (config s) then
                (send_on connId AUTH_REQUEST (auth_request_payload peerDeviceId (config s))
                   (s\<lparr>peers := sm_insert connId (peer\<lparr>piState := AUTHENTICATING\<rparr>) (peers s)\<rparr>), [])
              else
                let snap = peer\<lparr>piState := AUTHENTICATED\<rparr>
                in (s\<lparr>peers := sm_insert connId snap (peers s)\<rparr>, peer_event s True snap True))"

definition handleChatMessage :: "string \<Rightarrow> string \<Rightarrow> session \<Rightarrow> session \<times> event list" where
  "handleChatMessage connId p s =
     (if \<not> is_authenticated s connId then (s, [])
      else case fromJson p of
        None \<Rightarrow> (s, [])
      | Some m \<Rightarrow> (s, if has_messageCallback s then [Message_event m (senderName m)] else []))"

definition handlePing :: "string \<Rightarrow> session \<Rightarrow> session \<times> event list" where
  "handlePing connId s = (send_on connId PONG ''{}'' s, [])"

definition handleDisconnect :: "string \<Rightarrow> session \<Rightarrow> session \<times> event list" where
  "handleDisconnect connId s = (disconnect_on connId ''peer requested disconnect'' s, [])"

text \<open>The \<open>challenge\<close> of the request is read and not used.\<close>

definition auth_response_payload :: "app_config \<Rightarrow> string" where
  "auth_response_payload c =
     (let response = (if pskHash c = '''' then ''ok'' else pskHash c)
      in ''{'' @ jsonStr ''response'' response @ '','' @ jsonStr ''device_id'' (deviceId c) @ ''}'')"

definition handleAuthRequest :: "string \<Rightarrow> string \<Rightarrow> session \<Rightarrow> session \<times> event list" where
  "handleAuthRequest connId p s = (send_on connId AUTH_RESPONSE (auth_response_payload (config s)) s, [])"

definition auth_fail_payload :: string where
  "auth_fail_payload = ''{'' @ str_pat ''reason'' @ ''bad credentials'' @ [ch_quote] @ ''}''"

definition auth_accepts :: "app_config \<Rightarrow> string \<Rightarrow> bool" where
  "auth_accepts c p = (if pskHash c = '''' then True else session_extractStr p ''response'' = pskHash c)"

definition handleAuthResponse :: "string \<Rightarrow> string \<Rightarrow> session \<Rightarrow> session \<times> event list" where
  "handleAuthResponse connId p s =
     (if sm_lookup (connections s) connId = None then (s, [])
      else if auth_accepts (config s) p then
        let snap = (sm_at default_peer (peers s) connId)\<lparr>piState := AUTHENTICATED\<rparr>
        in (send_on connId AUTH_OK ''{}'' (s\<lparr>peers := sm_insert connId snap (peers s)\<rparr>), peer_event s True snap True)
      else (disconnect_on connId ''authentication failed'' (send_on connId AUTH_FAIL auth_fail_payload s), []))"

definition onFrame :: "string \<Rightarrow> frame \<Rightarrow> session \<Rightarrow> session \<times> event list" where
  "onFrame connId f s =
     (let p = payloadAsString f in
      case htype (header f) of
        HELLO \<Rightarrow> handleHello connId p s
      | AUTH_REQUEST \<Rightarrow> handleAuthRequest connId p s
      | AUTH_RESPONSE \<Rightarrow> handleAuthResponse connId p s
      | CHAT_MESSAGE \<Rightarrow> handleChatMessage connId p s
      | PING \<Rightarrow> handlePing connId s
      | PONG \<Rightarrow> (s, [])
      | message_type.DISCONNECT \<Rightarrow> handleDisconnect connId s
      | _ \<Rightarrow> (s, []))"

definition onDisconnect :: "string \<Rightarrow> session \<Rightarrow> session \<times> event list" where
  "onDisconnect connId s =
     (let info = sm_at default_peer (peers s) connId;
          shouldNotify = (sm_lookup (peers s) connId \<noteq> None \<and> piState info = AUTHENTICATED);
          dropped = (case sm_lookup (connections s) connId of None \<Rightarrow> [] | Some c \<Rightarrow> [conn_destroy c])
      in (s\<lparr>peers := sm_erase connId (peers s), connections := sm_erase connId (connections s),
            destroyed := destroyed s @ dropped\<rparr>,
          peer_event s shouldNotify info False))"

section \<open>Lifetime\<close>

definition start_session :: "session \<Rightarrow> session" where
  "start_session s = s\<lparr>session_running := True\<rparr>"

text \<open>\<open>stop\<close> joins the ping thread, which first removes the connections it found dead.\<close>

fun reap :: "string list \<Rightarrow> session \<Rightarrow> session \<times> event list" where
  "reap [] s = (s, [])"
| "reap (cid # cids) s =
     (case onDisconnect cid s of (s1, e1) \<Rightarrow> case reap cids s1 of (s2, e2) \<Rightarrow> (s2, e1 @ e2))"

definition stop_session :: "session \<Rightarrow> session \<times> event list" where
  "stop_session s =
     (if \<not> session_running s then (s, [])
      else case reap (deadConns s) (s\<lparr>session_running := False, deadConns := []\<rparr>) of
        (s1, ev) \<Rightarrow>
          (s1\<lparr>destroyed := destroyed s1 @
                 map (\<lambda>(cid, c). conn_destroy (conn_disconnect c ''session stopped'')) (connections s1),
              connections := [], peers := []\<rparr>, ev))"

text \<open>The ping thread: a sweep under the lock, then one removal after the other. \<open>deadConns\<close>
  is a local of \<open>pingLoop\<close>.\<close>

definition ping_sweep :: "session \<Rightarrow> session" where
  "ping_sweep s =
     (let pinged = map (\<lambda>(cid, c). (cid, conn_send_str c PING ''{}'')) (connections s)
      in s\<lparr>connections := map (\<lambda>(cid, c, ok). (cid, c)) pinged,
           deadConns := map fst (filter (\<lambda>(cid, c, ok). \<not> ok) pinged)\<rparr>)"

definition ping_reap :: "session \<Rightarrow> session \<times> event list" where
  "ping_reap s = (case deadConns s of [] \<Rightarrow> (s, []) | cid # cids \<Rightarrow> onDisconnect cid (s\<lparr>deadConns := cids\<rparr>))"

text \<open>One pass of the loop without another thread in between.\<close>

definition ping_round :: "session \<Rightarrow> session \<times> event list" where
  "ping_round s =
     (if \<not> session_running s then (s, [])
      else let s1 = ping_sweep s in reap (deadConns s1) (s1\<lparr>deadConns := []\<rparr>))"

section \<open>The invariant of the tables\<close>

text \<open>Both tables are sorted maps, every connection is in order and has an entry among the
  peers, a stopped session has no connection, and destroyed connections do not run.\<close>

definition session_inv :: "session \<Rightarrow> bool" where
  "session_inv s \<longleftrightarrow> sm_ok (connections s) \<and> sm_ok (peers s) \<and>
     (\<forall>k c. sm_lookup (connections s) k = Some c \<longrightarrow> conn_ok c) \<and>
     (\<forall>k. sm_lookup (connections s) k \<noteq> None \<longrightarrow> sm_lookup (peers s) k \<noteq> None) \<and>
     (\<not> session_running s \<longrightarrow> connections s = []) \<and>
     (\<forall>c \<in> set (destroyed s). \<not> running c)"

lemma session_inv_new: "session_inv (new_session c)"
  by (simp add: session_inv_def new_session_def)

lemma inv_connections:
  assumes "session_inv s" and "map fst cs = map fst (connections s)"
    and "\<And>k c. sm_lookup cs k = Some c \<Longrightarrow> conn_ok c"
  shows "session_inv (s\<lparr>connections := cs\<rparr>)"
  using assms dom_same_keys [OF assms(2)] by (auto simp: session_inv_def sm_ok_def)

lemma inv_peers:
  assumes "session_inv s"
  shows "session_inv (s\<lparr>peers := sm_insert k p (peers s)\<rparr>)"
  using assms by (auto simp: session_inv_def sm_ok_insert)

lemma inv_on_connection:
  assumes "session_inv s" and "\<And>c. conn_ok c \<Longrightarrow> conn_ok (f c)"
  shows "session_inv (on_connection k f s)"
proof (cases "sm_lookup (connections s) k")
  case (Some c)
  moreover have "conn_ok c" using assms(1) Some by (simp add: session_inv_def)
  moreover have "sm_ok (connections s)" using assms(1) by (simp add: session_inv_def)
  ultimately have "session_inv (s\<lparr>connections := sm_insert k (f c) (connections s)\<rparr>)"
    using assms Some by (intro inv_connections keys_sm_insert_same) (auto simp: session_inv_def split: if_splits)
  with Some show ?thesis by (simp add: on_connection_def)
qed (simp add: on_connection_def assms(1))

lemma send_keeps_ok: "conn_ok c \<Longrightarrow> conn_ok (fst (conn_send_str c t p))"
  using cc.send_ok [of c "create_frame_str t p"] by (cases "conn_send c (create_frame_str t p)") (simp add: conn_send_str_def)

lemmas inv_handlers = inv_on_connection inv_peers send_keeps_ok conn_disconnect_ok

lemma inv_onDisconnect: "session_inv s \<Longrightarrow> session_inv (fst (onDisconnect k s))"
  using conn_destroy_dead(1)
  by (auto simp: onDisconnect_def session_inv_def Let_def sm_ok_erase split: option.splits)
    (auto simp: sm_erase_def)

lemma inv_handleHello: "session_inv s \<Longrightarrow> session_inv (fst (handleHello k p s))"
  by (simp add: handleHello_def Let_def inv_handlers)

lemma inv_handleAuthResponse: "session_inv s \<Longrightarrow> session_inv (fst (handleAuthResponse k p s))"
  by (simp add: handleAuthResponse_def Let_def inv_handlers)

lemma handleChatMessage_same [simp]: "fst (handleChatMessage k p s) = s"
  by (simp add: handleChatMessage_def split: option.split)

lemma inv_onFrame: "session_inv s \<Longrightarrow> session_inv (fst (onFrame k f s))"
  by (cases "htype (header f)")
    (simp_all add: onFrame_def inv_handleHello inv_handleAuthResponse handleAuthRequest_def handlePing_def
      handleDisconnect_def inv_handlers)

lemma inv_reap: "session_inv s \<Longrightarrow> session_inv (fst (reap ks s))"
proof (induction ks arbitrary: s)
  case (Cons k ks)
  then have "session_inv (fst (reap ks (fst (onDisconnect k s))))" by (intro Cons.IH inv_onDisconnect)
  then show ?case by (simp add: case_prod_unfold)
qed simp

lemma on_connection_fields [simp, state_simps]:
  "peers (on_connection k f s) = peers s" "config (on_connection k f s) = config s"
  "session_running (on_connection k f s) = session_running s" "destroyed (on_connection k f s) = destroyed s"
  "deadConns (on_connection k f s) = deadConns s"
  "has_messageCallback (on_connection k f s) = has_messageCallback s"
  "has_peerEventCallback (on_connection k f s) = has_peerEventCallback s"
  "sm_lookup (connections (on_connection k f s)) j =
     (if j = k then map_option f (sm_lookup (connections s) k) else sm_lookup (connections s) j)"
  by (auto simp: on_connection_def split: option.split)

lemma inv_addConnection:
  assumes "session_inv s" and "conn_ok c" and "state c = CONNECTED"
  shows "session_inv (addConnection rnd ts now c s)"
proof (cases "session_running s")
  case False
  with assms(1) show ?thesis by (simp add: addConnection_def session_inv_def conn_destroy_dead)
next
  case True
  define k where "k = makeConnId rnd ts"
  define s1 where "s1 = s\<lparr>connections := sm_insert k c (connections s),
    destroyed := destroyed s @ (case sm_lookup (connections s) k of None \<Rightarrow> [] | Some c \<Rightarrow> [conn_destroy c]),
    peers := sm_insert k default_peer (peers s)\<rparr>"
  have "session_inv s1"
    using assms True unfolding s1_def
    by (auto simp: session_inv_def sm_ok_insert conn_destroy_dead split: option.splits)
  moreover have "on_connection k (conn_start now) s1 = s1\<lparr>connections := sm_insert k (conn_start now c) (connections s1)\<rparr>"
    by (simp add: on_connection_def s1_def)
  moreover have "session_inv (s1\<lparr>connections := sm_insert k (conn_start now c) (connections s1)\<rparr>)"
    using \<open>session_inv s1\<close> conn_ok_start [OF assms(2,3)]
    by (intro inv_connections keys_sm_insert_same [of _ _ c]) (auto simp: session_inv_def s1_def split: if_splits)
  ultimately have "session_inv (sendHello k (on_connection k (conn_start now) s1))"
    by (simp add: sendHello_def inv_handlers)
  with True show ?thesis by (simp add: addConnection_def Let_def s1_def k_def)
qed

lemma inv_map_connections:
  assumes "session_inv s" and "\<And>k c. conn_ok c \<Longrightarrow> conn_ok (f k c)"
  shows "session_inv (s\<lparr>connections := map (\<lambda>(k, c). (k, f k c)) (connections s)\<rparr>)"
  using assms by (intro inv_connections keys_map_values) (auto simp: map_of_map_values session_inv_def)

lemma inv_broadcast: "session_inv s \<Longrightarrow> session_inv (broadcast rnd now t s)"
  unfolding broadcast_def Let_def by (rule inv_map_connections) (simp_all add: send_keeps_ok)

lemma sendTo_on_connection:
  "fst (sendTo rnd now peer t s) =
    (case find_target peer s of None \<Rightarrow> s
     | Some cid \<Rightarrow> send_on cid CHAT_MESSAGE (toJson (own_message rnd now t s)) s)"
  by (auto simp: sendTo_def on_connection_def split: option.split prod.split)

lemma inv_sendTo: "session_inv s \<Longrightarrow> session_inv (fst (sendTo rnd now peer t s))"
  by (simp add: sendTo_on_connection inv_handlers split: option.split)

lemma ping_sweep_connections:
  "connections (ping_sweep s) = map (\<lambda>(k, c). (k, fst (conn_send_str c PING ''{}''))) (connections s)"
  by (simp add: ping_sweep_def comp_def case_prod_unfold)

lemma inv_deadConns: "session_inv (s\<lparr>deadConns := ks\<rparr>) = session_inv s"
  by (simp add: session_inv_def)

lemma inv_ping_sweep: "session_inv s \<Longrightarrow> session_inv (ping_sweep s)"
proof -
  assume "session_inv s"
  then have "session_inv (s\<lparr>connections := map (\<lambda>(k, c). (k, fst (conn_send_str c PING ''{}''))) (connections s)\<rparr>)"
    by (rule inv_map_connections) (rule send_keeps_ok)
  moreover have "ping_sweep s = (s\<lparr>connections := connections (ping_sweep s)\<rparr>)\<lparr>deadConns := deadConns (ping_sweep s)\<rparr>"
    by (simp add: ping_sweep_def Let_def)
  ultimately show ?thesis by (metis inv_deadConns ping_sweep_connections)
qed

lemma inv_ping_reap: "session_inv s \<Longrightarrow> session_inv (fst (ping_reap s))"
  by (auto simp: ping_reap_def inv_deadConns intro!: inv_onDisconnect split: list.split)

lemma inv_start: "session_inv s \<Longrightarrow> session_inv (start_session s)"
  by (simp add: start_session_def session_inv_def)

lemma reap_all_running:
  "session_running (fst (reap ks s)) = session_running s"
  by (induction ks arbitrary: s) (simp_all add: onDisconnect_def Let_def case_prod_unfold)

lemma reap_frame:
  "reap ks (s\<lparr>session_running := b, deadConns := ds\<rparr>) =
    ((fst (reap ks s))\<lparr>session_running := b, deadConns := ds\<rparr>, snd (reap ks s))"
proof (induction ks arbitrary: s)
  case (Cons k ks)
  have "onDisconnect k (s\<lparr>session_running := b, deadConns := ds\<rparr>) =
      ((fst (onDisconnect k s))\<lparr>session_running := b, deadConns := ds\<rparr>, snd (onDisconnect k s))"
    by (simp add: onDisconnect_def Let_def peer_event_def)
  with Cons [of "fst (onDisconnect k s)"] show ?case by (simp add: case_prod_unfold)
qed simp

lemma stop_result:
  assumes "session_inv s"
  shows "session_inv (fst (stop_session s))" "connections (fst (stop_session s)) = []"
    "session_running s \<Longrightarrow> peers (fst (stop_session s)) = []" "\<not> session_running (fst (stop_session s))"
proof -
  have "session_inv (fst (reap (deadConns s) s))" using assms by (rule inv_reap)
  then show "session_inv (fst (stop_session s))"
    using assms by (auto simp: stop_session_def reap_frame case_prod_unfold session_inv_def conn_destroy_dead)
  show "connections (fst (stop_session s)) = []" "session_running s \<Longrightarrow> peers (fst (stop_session s)) = []"
    "\<not> session_running (fst (stop_session s))"
    using assms by (auto simp: stop_session_def case_prod_unfold session_inv_def reap_frame)
qed

section \<open>What the operations do\<close>

lemma broadcast_connections:
  "sm_lookup (connections (broadcast rnd now t s)) k =
    map_option (\<lambda>c. if is_authenticated s k
      then fst (conn_send_str c CHAT_MESSAGE (toJson (own_message rnd now t s))) else c)
      (sm_lookup (connections s) k)"
  by (simp add: broadcast_def Let_def map_of_map_values)

lemma broadcast_nobody:
  assumes "\<And>k c. sm_lookup (connections s) k = Some c \<Longrightarrow> \<not> is_authenticated s k" and "sm_ok (connections s)"
  shows "broadcast rnd now t s = s"
proof -
  have "map (\<lambda>(k, c). (k, if is_authenticated s k then f c else c)) (connections s) = connections s" for f :: "connection \<Rightarrow> connection"
    using assms sm_ok_lookup [OF assms(2)] by (intro map_idI) auto
  then show ?thesis by (simp add: broadcast_def Let_def)
qed

lemma peerCount_list: "peerCount s = length (list_peers s)"
proof -
  have "fold (\<lambda>(cid, p) n. if piState p = AUTHENTICATED then n + 1 else n) m n =
      n + length (filter (\<lambda>p. piState p = AUTHENTICATED) (map snd m))" for m :: "(string \<times> peer_info) list" and n
    by (induction m arbitrary: n) auto
  from this [of "peers s" 0] show ?thesis by (simp add: peerCount_def list_peers_def)
qed

lemma find_target_Some:
  assumes "find_target peer s = Some k" and "sm_ok (peers s)"
  shows "\<exists>p c. sm_lookup (peers s) k = Some p \<and> piDeviceId p = peer \<and> piState p = AUTHENTICATED \<and>
    sm_lookup (connections s) k = Some c"
proof -
  from assms(1) obtain p where p: "find (\<lambda>(cid, p). piDeviceId p = peer \<and> piState p = AUTHENTICATED) (peers s) = Some (k, p)"
    and c: "sm_lookup (connections s) k \<noteq> None"
    by (auto simp: find_target_def split: option.splits if_splits)
  from p have "(k, p) \<in> set (peers s)" "piDeviceId p = peer" "piState p = AUTHENTICATED"
    by (auto simp: find_Some_iff) (metis nth_mem)
  with c sm_ok_lookup [OF assms(2)] show ?thesis by auto
qed

lemma is_authenticated_insert:
  "is_authenticated (s\<lparr>peers := sm_insert k p (peers s)\<rparr>) j \<longleftrightarrow>
    (if j = k then piState p = AUTHENTICATED else is_authenticated s j)"
  by (simp add: is_authenticated_def)

lemma is_authenticated_on_connection [simp]: "is_authenticated (on_connection k f s) j = is_authenticated s j"
  by (simp add: is_authenticated_def)

text \<open>A chat message is shown only for an authenticated peer, and it is the one in the payload.\<close>

lemma message_event_iff:
  "Message_event m n \<in> set (snd (onFrame k f s)) \<longleftrightarrow>
    htype (header f) = CHAT_MESSAGE \<and> is_authenticated s k \<and> has_messageCallback s \<and>
    fromJson (payloadAsString f) = Some m \<and> n = senderName m"
  by (cases "htype (header f)")
    (auto simp: onFrame_def handleHello_def handleAuthRequest_def handleAuthResponse_def handleChatMessage_def
      handlePing_def handleDisconnect_def peer_event_def Let_def split: option.splits)

text \<open>How a peer becomes authenticated by a frame.\<close>

lemma becomes_authenticated:
  assumes "is_authenticated (fst (onFrame k f s)) j" and "\<not> is_authenticated s j"
  shows "j = k \<and>
    (htype (header f) = HELLO \<and> \<not> requireAuth (config s) \<and> session_extractStr (payloadAsString f) ''device_id'' \<noteq> '''' \<or>
     htype (header f) = AUTH_RESPONSE \<and> sm_lookup (connections s) k \<noteq> None \<and> auth_accepts (config s) (payloadAsString f))"
  using assms
  by (cases "htype (header f)")
    (auto simp: onFrame_def handleHello_def handleAuthRequest_def handleAuthResponse_def handleChatMessage_def
      handlePing_def handleDisconnect_def Let_def is_authenticated_insert split: option.splits if_splits)

section \<open>Reading the payloads back\<close>

text \<open>Text the session's own extractor reads back: no control character but those with a short
  escape; \<open>\u00XX\<close> is written and not understood.\<close>

definition decodable :: "string \<Rightarrow> bool" where
  "decodable s \<longleftrightarrow> (\<forall>c \<in> set s. 0x20 \<le> (of_char c :: nat) \<or> c \<in> {ch_nl, ch_cr, ch_tab})"

lemma session_scan_char:
  assumes "0x20 \<le> (of_char c :: nat) \<or> c \<in> {ch_nl, ch_cr, ch_tab}" and "r \<noteq> []"
  shows "session_scan (jsonEscape_char c @ r) = c # session_scan r"
proof (cases "c \<in> {ch_quote, ch_bs, ch_nl, ch_cr, ch_tab}")
  case True
  then show ?thesis by (elim insertE) (simp_all add: jsonEscape_char_def unescape_char_def)
next
  case False
  with assms(1) have "jsonEscape_char c = [c]" by (simp add: jsonEscape_char_def)
  moreover obtain d r' where "r = d # r'" using assms(2) by (cases r) auto
  ultimately show ?thesis using False by simp
qed

lemma session_scan_escape: "decodable v \<Longrightarrow> session_scan (jsonEscape v @ ch_quote # r) = v"
proof (induction v)
  case Nil
  then show ?case by (cases r) (simp_all add: jsonEscape_def)
next
  case (Cons c v)
  then have "session_scan (jsonEscape_char c @ jsonEscape v @ ch_quote # r) = c # session_scan (jsonEscape v @ ch_quote # r)"
    by (intro session_scan_char) (auto simp: decodable_def)
  with Cons show ?case by (simp add: jsonEscape_def decodable_def)
qed

lemma session_keys [simp]:
  "key_ok ''device_id''" "key_ok ''display_name''" "key_ok ''platform''" "key_ok ''response''" "key_ok ''challenge''"
  "plain ''device_id''" "plain ''display_name''" "plain ''platform''" "plain ''response''" "plain ''challenge''"
  "plain ''tcp_port''"
  by (simp_all add: key_ok_def plain_def)

lemma jsonEscape_plain: "(\<And>c. c \<in> set k \<Longrightarrow> jsonEscape_char c = [c]) \<Longrightarrow> jsonEscape k = k"
  by (induction k) (simp_all add: jsonEscape_def)

lemma jsonStr_member:
  assumes "jsonEscape k = k"
  shows "jsonStr k v @ r = str_pat k @ jsonEscape v @ ch_quote # r"
  by (simp add: jsonStr_def str_pat_def assms)

lemma session_keys_escape:
  "jsonEscape ''device_id'' = ''device_id''" "jsonEscape ''display_name'' = ''display_name''"
  "jsonEscape ''platform'' = ''platform''" "jsonEscape ''response'' = ''response''"
  "jsonEscape ''challenge'' = ''challenge''"
  by (simp_all add: jsonEscape_def jsonEscape_char_def)

lemmas jsonStr_members = session_keys_escape [THEN jsonStr_member]

lemmas walk_session = session_esc.member_skip_str session_esc.at_member walk_object jsonStr_members

lemma hello_device_id: "decodable (deviceId c) \<Longrightarrow> session_extractStr (hello_payload c) ''device_id'' = deviceId c"
  by (simp add: session_extractStr_eq hello_payload_def walk_session session_scan_escape del: str_after.simps)

lemma hello_display_name: "decodable (displayName c) \<Longrightarrow> session_extractStr (hello_payload c) ''display_name'' = displayName c"
  by (simp add: session_extractStr_eq hello_payload_def walk_session session_scan_escape del: str_after.simps)

lemma hello_platform: "decodable (platform c) \<Longrightarrow> session_extractStr (hello_payload c) ''platform'' = platform c"
  by (simp add: session_extractStr_eq hello_payload_def walk_session session_scan_escape del: str_after.simps)

lemma auth_response_read:
  "decodable (pskHash c) \<Longrightarrow> pskHash c \<noteq> '''' \<Longrightarrow>
   session_extractStr (auth_response_payload c) ''response'' = pskHash c"
  by (simp add: session_extractStr_eq auth_response_payload_def Let_def walk_session session_scan_escape del: str_after.simps)

section \<open>Properties\<close>

text \<open>The number of peers is the length of the list of peers, which are exactly the
  authenticated ones, in the order of their connection ids.\<close>

theorem peer_list_exact:
  "peerCount s = length (list_peers s) \<and> set (list_peers s) = {p \<in> set (map snd (peers s)). piState p = AUTHENTICATED}"
  by (auto simp: peerCount_list list_peers_def)

text \<open>Stopping leaves nothing behind: the tables are empty, every connection has been
  disconnected and destroyed, none of the destroyed connections runs, and the invariant holds, so
  that the session can be started again.\<close>

theorem stop_leaves_nothing:
  assumes "session_inv s" and "session_running s"
  shows "case stop_session s of (s', _) \<Rightarrow> session_inv s' \<and> connections s' = [] \<and> peers s' = [] \<and>
    \<not> session_running s' \<and> (\<forall>c \<in> set (destroyed s'). \<not> running c)"
  using stop_result [OF assms(1)] assms(2) by (auto simp: session_inv_def case_prod_unfold)

definition lone_session :: session where
  "lone_session = (start_session (setPeerEventCallback (setMessageCallback (new_session sample_config))))
     \<lparr>connections := [(''c1'', started)], peers := [(''c1'', default_peer)]\<rparr>"

lemma lone_facts: "session_inv lone_session" "session_running lone_session" "config lone_session = sample_config"
  "sm_lookup (connections lone_session) ''c1'' = Some started" "has_messageCallback lone_session"
  "has_peerEventCallback lone_session"
  by (simp_all add: lone_session_def session_inv_def start_session_def setPeerEventCallback_def
      setMessageCallback_def new_session_def sm_ok_def started_facts)

theorem stop_leaves_nothing_witness:
  "connections (fst (stop_session lone_session)) = [] \<and> list_all (\<lambda>c. \<not> running c) (destroyed (fst (stop_session lone_session)))"
  using stop_leaves_nothing [OF lone_facts(1,2)] by (auto simp: list_all_iff split: prod.splits)

text \<open>A broadcast sends the same message once over every connection whose peer is
  authenticated and touches no other connection; peers, settings and the invariant stay.\<close>

theorem broadcast_reaches_authenticated:
  assumes "session_inv s"
  shows "session_inv (broadcast rnd now t s) \<and> peers (broadcast rnd now t s) = peers s \<and>
    sm_lookup (connections (broadcast rnd now t s)) k =
      (case sm_lookup (connections s) k of None \<Rightarrow> None
       | Some c \<Rightarrow> Some (if is_authenticated s k
           then fst (conn_send_str c CHAT_MESSAGE (toJson (own_message rnd now t s))) else c))"
  using assms
  by (simp add: inv_broadcast broadcast_connections split: option.split) (simp add: broadcast_def Let_def)

theorem broadcast_reaches_authenticated_witness:
  "sm_lookup (connections (broadcast None 0 ''hi'' lone_session)) ''c1'' = Some started"
proof -
  have "\<not> is_authenticated lone_session ''c1''"
    by (simp add: is_authenticated_def lone_session_def default_peer_def)
  then show ?thesis
    using broadcast_reaches_authenticated [OF lone_facts(1), of None 0 "''hi''" "''c1''"] lone_facts(4) by simp
qed

text \<open>A direct message goes to the connection of an authenticated peer with the device id
  asked for, and success means that the whole frame was written after what was sent before; when
  no peer is found nothing changes and the result is false.\<close>

theorem sendTo_target:
  assumes "session_inv s"
  shows "case sendTo rnd now peer t s of (s', ok) \<Rightarrow>
    if find_target peer s = None then s' = s \<and> \<not> ok
    else \<exists>k p c c'. sm_lookup (peers s) k = Some p \<and> piDeviceId p = peer \<and> piState p = AUTHENTICATED \<and>
      sm_lookup (connections s) k = Some c \<and> s' = s\<lparr>connections := sm_insert k c' (connections s)\<rparr> \<and>
      (\<not> ok \<or> sent c' = sent c @ serialize_frame (create_frame_str CHAT_MESSAGE (toJson (own_message rnd now t s))))"
proof (cases "find_target peer s")
  case None
  then show ?thesis by (simp add: sendTo_def)
next
  case (Some k)
  from find_target_Some [OF this] assms(1) obtain p c where
    pc: "sm_lookup (peers s) k = Some p" "piDeviceId p = peer" "piState p = AUTHENTICATED"
      "sm_lookup (connections s) k = Some c"
    by (auto simp: session_inv_def)
  obtain c' b where c': "conn_send c (create_frame_str CHAT_MESSAGE (toJson (own_message rnd now t s))) = (c', b)"
    by (cases "conn_send c (create_frame_str CHAT_MESSAGE (toJson (own_message rnd now t s)))")
  with Some pc have "sendTo rnd now peer t s = (s\<lparr>connections := sm_insert k c' (connections s)\<rparr>, b)"
    by (simp add: sendTo_def conn_send_str_def)
  moreover from conn_send_out [OF c'] have "\<not> b \<or>
      sent c' = sent c @ serialize_frame (create_frame_str CHAT_MESSAGE (toJson (own_message rnd now t s)))" by auto
  ultimately show ?thesis using Some pc by auto
qed

lemma lone_authenticated:
  "session_inv (lone_session\<lparr>peers := [(''c1'', default_peer\<lparr>piDeviceId := ''d1'', piState := AUTHENTICATED\<rparr>)]\<rparr>)"
  using lone_facts(1) by (simp add: session_inv_def lone_session_def sm_ok_def split: if_splits)

theorem sendTo_target_witness:
  "case sendTo None 0 ''d1'' ''hi'' (lone_session\<lparr>peers := [(''c1'', default_peer\<lparr>piDeviceId := ''d1'', piState := AUTHENTICATED\<rparr>)]\<rparr>)
    of (s', ok) \<Rightarrow> \<exists>c'. sm_lookup (connections s') ''c1'' = Some c'"
  using sendTo_target [OF lone_authenticated, where rnd = None and now = 0 and peer = "''d1''" and t = "''hi''"] lone_facts(4)
  by (auto split: prod.splits if_splits)

end
