(* ===== verification/Session_Steps.thy ===== *)
theory Session_Steps imports Chat_Session begin

text \<open>
  The session at run time: the transitions of its threads (the user's input, the accept and
  connect paths, one receiving thread per connection, the ping thread), each as long as
  \<open>connMutex_\<close> is held. \<open>route\<close> is the connection id that the callbacks given to a
  \<open>Connection\<close> pass on: \<open>main.cpp\<close> wires them with the empty string
  (\<open>main_route\<close>), while the handlers are written for the id of the connection.
\<close>

definition main_route :: "string \<Rightarrow> string" where
  "main_route connId = ''''"

definition set_conn :: "string \<Rightarrow> connection \<Rightarrow> session \<Rightarrow> session" where
  "set_conn cid c s = s\<lparr>connections := sm_insert cid c (connections s)\<rparr>"

definition notify_closed :: "(string \<Rightarrow> string) \<Rightarrow> string \<Rightarrow> recv_event \<Rightarrow> session \<Rightarrow> session \<times> event list" where
  "notify_closed route cid ev s = (case ev of Closed r \<Rightarrow> onDisconnect (route cid) s | _ \<Rightarrow> (s, []))"

text \<open>The label of a step: the frames it handled, with the id they were handled under, and
  the callbacks it made.\<close>

type_synonym step_label = "(string \<times> frame) list \<times> event list"

inductive session_step :: "(string \<Rightarrow> string) \<Rightarrow> session \<Rightarrow> step_label \<Rightarrow> session \<Rightarrow> bool"
  for route where
  Add: "session_step route s ([], []) (addConnection rnd ts now (new_connection (Some sock) kMaxPayloadSize) s)"
| Send_to: "session_step route s ([], []) (fst (sendTo rnd t peer txt s))"
| Broadcast: "session_step route s ([], []) (broadcast rnd t txt s)"
| Enter: "sm_lookup (connections s) cid = Some c \<Longrightarrow> thread c = At_head \<Longrightarrow> recv_enter c = (c', ev) \<Longrightarrow>
    notify_closed route cid ev (set_conn cid c' s) = (s', es) \<Longrightarrow> session_step route s ([], es) s'"
| Return: "sm_lookup (connections s) cid = Some c \<Longrightarrow> thread c = In_recv \<Longrightarrow> recv_return c a = (c', ev) \<Longrightarrow>
    notify_closed route cid ev (set_conn cid c' s) = (s', es) \<Longrightarrow> session_step route s ([], es) s'"
| Frame: "sm_lookup (connections s) cid = Some c \<Longrightarrow> next_frame c = Some (f, c') \<Longrightarrow>
    onFrame (route cid) f (set_conn cid c' s) = (s', es) \<Longrightarrow> session_step route s ([(route cid, f)], es) s'"
| Check: "sm_lookup (connections s) cid = Some c \<Longrightarrow> thread c = Delivering [] \<Longrightarrow>
    session_step route s ([], []) (set_conn cid (rate_check now c) s)"
| Sweep: "session_running s \<Longrightarrow> deadConns s = [] \<Longrightarrow> session_step route s ([], []) (ping_sweep s)"
| Reap: "deadConns s \<noteq> [] \<Longrightarrow> ping_reap s = (s', es) \<Longrightarrow> session_step route s ([], es) s'"
| Start: "session_step route s ([], []) (start_session s)"
| Stop: "stop_session s = (s', es) \<Longrightarrow> session_step route s ([], es) s'"

text \<open>A run from a session as \<open>main.cpp\<close> sets it up: the frames handled and the
  callbacks made, in order.\<close>

definition wired_session :: "app_config \<Rightarrow> session" where
  "wired_session c = start_session (setPeerEventCallback (setMessageCallback (new_session c)))"

inductive session_run :: "(string \<Rightarrow> string) \<Rightarrow> app_config \<Rightarrow> step_label \<Rightarrow> session \<Rightarrow> bool"
  for route c where
  Init: "session_run route c ([], []) (wired_session c)"
| Step: "session_run route c (hs, es) s \<Longrightarrow> session_step route s (hs', es') s' \<Longrightarrow>
    session_run route c (hs @ hs', es @ es') s'"

inductive_cases session_step_elim: "session_step route s l s'"
inductive_simps session_run_from: "session_run route c l s"

lemma run_invariant [consumes 1]:
  assumes "session_run route c l s" and "I ([], []) (wired_session c)"
    and "\<And>hs es s hs' es' s'. I (hs, es) s \<Longrightarrow> session_step route s (hs', es') s' \<Longrightarrow> I (hs @ hs', es @ es') s'"
  shows "I l s"
  using assms by (induction rule: session_run.induct) auto

section \<open>The tables stay in order\<close>

lemma inv_set_conn:
  "session_inv s \<Longrightarrow> sm_lookup (connections s) cid = Some c \<Longrightarrow> conn_ok c' \<Longrightarrow> session_inv (set_conn cid c' s)"
  unfolding set_conn_def
  by (intro inv_connections keys_sm_insert_same) (auto simp: session_inv_def split: if_splits)

lemma inv_lookup: "session_inv s \<Longrightarrow> sm_lookup (connections s) cid = Some c \<Longrightarrow> conn_ok c"
  by (simp add: session_inv_def)

lemma inv_notify: "session_inv s \<Longrightarrow> session_inv (fst (notify_closed route cid ev s))"
  by (simp add: notify_closed_def inv_onDisconnect split: recv_event.split)

lemma next_frame_ok: "conn_ok c \<Longrightarrow> next_frame c = Some (f, c') \<Longrightarrow> conn_ok c'"
  by (auto simp: next_frame_def conn_ok_def split: recv_thread.splits list.splits)

lemma session_inv_step:
  assumes "session_inv s" and "session_step route s l s'"
  shows "session_inv s'"
  using assms(2,1)
proof cases
  case (Add rnd ts now sock)
  have "state (new_connection (Some sock) kMaxPayloadSize) = CONNECTED" by (simp add: new_connection_def)
  with Add assms(1) show ?thesis by (simp add: inv_addConnection conn_ok_new)
next
  case (Enter cid c c' ev es)
  from recv_enter_ok [OF inv_lookup [OF assms(1) Enter(2)] Enter(4)]
  have "session_inv (set_conn cid c' s)" by (rule inv_set_conn [OF assms(1) Enter(2)])
  from inv_notify [OF this, of route cid ev] Enter(5) show ?thesis by simp
next
  case (Return cid c a c' ev es)
  from recv_return_ok [OF inv_lookup [OF assms(1) Return(2)] Return(4)]
  have "session_inv (set_conn cid c' s)" by (rule inv_set_conn [OF assms(1) Return(2)])
  from inv_notify [OF this, of route cid ev] Return(5) show ?thesis by simp
next
  case (Frame cid c f c' es)
  from next_frame_ok [OF inv_lookup [OF assms(1) Frame(2)] Frame(3)]
  have "session_inv (set_conn cid c' s)" by (rule inv_set_conn [OF assms(1) Frame(2)])
  from inv_onFrame [OF this, of "route cid" f] Frame(4) show ?thesis by simp
next
  case (Check cid c now)
  from rate_check_ok [OF inv_lookup [OF assms(1) Check(3)]] Check(4)
  have "session_inv (set_conn cid (rate_check now c) s)" by (intro inv_set_conn [OF assms(1) Check(3)]) simp
  with Check show ?thesis by simp
next
  case Reap
  with assms(1) show ?thesis by (metis inv_ping_reap fst_conv)
next
  case Stop
  with assms(1) show ?thesis by (metis stop_result(1) fst_conv)
qed (use assms(1) in \<open>simp_all add: inv_sendTo inv_broadcast inv_ping_sweep inv_start\<close>)

lemma inv_wired: "session_inv (wired_session c)"
  by (simp add: wired_session_def start_session_def setPeerEventCallback_def setMessageCallback_def
      new_session_def session_inv_def)

lemma run_inv:
  assumes "session_run route c l s"
  shows "session_inv s"
  using assms by (rule run_invariant [where I = "\<lambda>_. session_inv"]) (auto simp: inv_wired intro: session_inv_step)

text \<open>The configuration and the callbacks stay as they were set.\<close>

abbreviation settings :: "session \<Rightarrow> app_config \<times> bool \<times> bool" where
  "settings s \<equiv> (config s, has_messageCallback s, has_peerEventCallback s)"

lemma settings_onFrame: "settings (fst (onFrame k f s)) = settings s"
  by (cases "htype (header f)")
    (simp_all add: onFrame_def handleHello_def handleAuthRequest_def handleAuthResponse_def
      handlePing_def handleDisconnect_def Let_def)

lemma settings_onDisconnect: "settings (fst (onDisconnect k s)) = settings s"
  by (simp add: onDisconnect_def Let_def)

lemma settings_reap: "settings (fst (reap ks s)) = settings s"
  using settings_onDisconnect by (induction ks arbitrary: s) (simp_all add: case_prod_unfold)

lemma settings_notify: "settings (fst (notify_closed route cid ev s)) = settings s"
  using settings_onDisconnect by (simp add: notify_closed_def split: recv_event.split)

lemma settings_set_conn: "settings (set_conn cid c s) = settings s"
  by (simp add: set_conn_def)

lemma settings_step:
  assumes "session_step route s l s'"
  shows "settings s' = settings s"
  using assms
proof cases
  case (Stop)
  then show ?thesis using settings_reap [of "deadConns s" "s\<lparr>session_running := False, deadConns := []\<rparr>"]
    by (auto simp: stop_session_def case_prod_unfold split: if_splits)
next
  case (Frame cid c f c' es)
  then show ?thesis using settings_onFrame settings_set_conn by (metis fst_conv)
next
  case (Enter cid c c' ev es)
  then show ?thesis using settings_notify settings_set_conn by (metis fst_conv)
next
  case (Return cid c a c' ev es)
  then show ?thesis using settings_notify settings_set_conn by (metis fst_conv)
next
  case Reap
  then show ?thesis using settings_onDisconnect [of "hd (deadConns s)" "s\<lparr>deadConns := tl (deadConns s)\<rparr>"]
    by (auto simp: ping_reap_def split: list.splits)
qed (simp_all add: settings_set_conn addConnection_def sendHello_def sendTo_on_connection broadcast_def ping_sweep_def
    start_session_def Let_def split: option.split)

section \<open>What the wiring of main.cpp leaves\<close>

text \<open>Under \<open>main_route\<close> the callbacks name a connection that is never in the table.\<close>

definition cut_off :: "session \<Rightarrow> bool" where
  "cut_off s \<longleftrightarrow> sm_lookup (connections s) '''' = None \<and> (\<forall>k. is_authenticated s k \<longrightarrow> k = '''')"

lemma makeConnId_nonempty: "makeConnId rnd ts \<noteq> ''''"
  by (simp add: makeConnId_def byte_hex_def split: option.split)

lemma on_connection_missing: "sm_lookup (connections s) k = None \<Longrightarrow> on_connection k f s = s"
  by (simp add: on_connection_def)

lemma cut_off_onFrame:
  assumes "cut_off s"
  shows "cut_off (fst (onFrame '''' f s))"
  using assms
  by (cases "htype (header f)")
    (auto simp: onFrame_def handleHello_def handleAuthRequest_def handleAuthResponse_def handlePing_def
      handleDisconnect_def Let_def cut_off_def on_connection_missing is_authenticated_def)

lemma cut_off_onDisconnect: "cut_off s \<Longrightarrow> cut_off (fst (onDisconnect k s))"
  by (auto simp: cut_off_def onDisconnect_def Let_def is_authenticated_def split: if_splits)

lemma cut_off_reap: "cut_off s \<Longrightarrow> cut_off (fst (reap ks s))"
  using cut_off_onDisconnect by (induction ks arbitrary: s) (simp_all add: case_prod_unfold)

lemma cut_off_set_conn: "cut_off s \<Longrightarrow> sm_lookup (connections s) cid = Some c \<Longrightarrow> cut_off (set_conn cid c' s)"
  by (auto simp: cut_off_def set_conn_def is_authenticated_def)

lemma cut_off_notify: "cut_off s \<Longrightarrow> cut_off (fst (notify_closed main_route cid ev s))"
  by (simp add: notify_closed_def cut_off_onDisconnect split: recv_event.split)

lemma cut_off_add: "cut_off s \<Longrightarrow> cut_off (addConnection rnd ts now c s)"
  using makeConnId_nonempty [of rnd ts]
  by (auto simp: cut_off_def addConnection_def sendHello_def Let_def is_authenticated_def default_peer_def)

lemma cut_off_map: "cut_off s \<Longrightarrow> cut_off (s\<lparr>connections := map (\<lambda>(k, c). (k, f k c)) (connections s)\<rparr>)"
  by (simp add: cut_off_def is_authenticated_def map_of_map_values)

lemma cut_off_send: "cut_off s \<Longrightarrow> cut_off (on_connection k f s)"
  by (auto simp: cut_off_def)

lemma cut_off_step:
  assumes "cut_off s" and "session_step main_route s l s'"
  shows "cut_off s'"
  using assms(2,1)
proof cases
  case (Enter cid c c' ev es)
  with assms(1) show ?thesis by (metis cut_off_notify cut_off_set_conn fst_conv)
next
  case (Return cid c a c' ev es)
  with assms(1) show ?thesis by (metis cut_off_notify cut_off_set_conn fst_conv)
next
  case (Frame cid c f c' es)
  with assms(1) show ?thesis by (metis cut_off_onFrame cut_off_set_conn fst_conv main_route_def)
next
  case Reap
  with assms(1) cut_off_onDisconnect [of "s\<lparr>deadConns := tl (deadConns s)\<rparr>" "hd (deadConns s)"] show ?thesis
    by (auto simp: ping_reap_def cut_off_def is_authenticated_def split: list.splits)
next
  case Stop
  with assms(1) cut_off_reap [of "s\<lparr>session_running := False, deadConns := []\<rparr>" "deadConns s"] show ?thesis
    by (auto simp: stop_session_def case_prod_unfold cut_off_def is_authenticated_def split: if_splits)
next
  case Sweep
  have "cut_off (s\<lparr>connections := connections (ping_sweep s)\<rparr>)"
    using assms(1) unfolding ping_sweep_connections by (rule cut_off_map)
  with Sweep show ?thesis by (simp add: cut_off_def is_authenticated_def) (simp add: ping_sweep_def Let_def)
qed (use assms(1) in \<open>simp_all add: cut_off_add cut_off_set_conn broadcast_def Let_def cut_off_map
    sendTo_on_connection cut_off_send split: option.split\<close>,
    simp add: cut_off_def start_session_def is_authenticated_def)

lemma cut_off_wired: "cut_off (wired_session c)"
  by (simp add: wired_session_def start_session_def setPeerEventCallback_def setMessageCallback_def
      new_session_def cut_off_def is_authenticated_def)

lemma run_cut_off:
  assumes "session_run main_route c l s"
  shows "cut_off s"
  using assms by (rule run_invariant [where I = "\<lambda>_. cut_off"]) (auto simp: cut_off_wired intro: cut_off_step)

section \<open>Who gets authenticated\<close>

lemma authenticated_onDisconnect: "is_authenticated (fst (onDisconnect k s)) j \<Longrightarrow> is_authenticated s j"
  by (auto simp: onDisconnect_def Let_def is_authenticated_def split: if_splits)

lemma authenticated_reap: "is_authenticated (fst (reap ks s)) j \<Longrightarrow> is_authenticated s j"
proof (induction ks arbitrary: s)
  case (Cons k ks)
  then have "is_authenticated (fst (reap ks (fst (onDisconnect k s)))) j" by (simp add: case_prod_unfold)
  then show ?case using Cons.IH authenticated_onDisconnect by blast
qed simp

lemma authenticated_notify: "is_authenticated (fst (notify_closed route cid ev s)) j \<Longrightarrow> is_authenticated s j"
  by (auto simp: notify_closed_def split: recv_event.splits dest: authenticated_onDisconnect)

lemma authenticated_set_conn [simp]: "is_authenticated (set_conn cid c s) j = is_authenticated s j"
  by (simp add: set_conn_def is_authenticated_def)

lemma authenticated_update [simp]:
  "is_authenticated (s\<lparr>connections := cs\<rparr>) j = is_authenticated s j"
  "is_authenticated (s\<lparr>deadConns := ds\<rparr>) j = is_authenticated s j"
  "is_authenticated (s\<lparr>session_running := b\<rparr>) j = is_authenticated s j"
  by (simp_all add: is_authenticated_def)

text \<open>What makes a peer authenticated in a step: a \<open>HELLO\<close> with a device id when no
  authentication is required, or an accepted \<open>AUTH_RESPONSE\<close>.\<close>

definition admits :: "app_config \<Rightarrow> frame \<Rightarrow> bool" where
  "admits c f \<longleftrightarrow>
     htype (header f) = HELLO \<and> \<not> requireAuth c \<and> session_extractStr (payloadAsString f) ''device_id'' \<noteq> '''' \<or>
     htype (header f) = AUTH_RESPONSE \<and> auth_accepts c (payloadAsString f)"

lemma step_authenticates:
  assumes "session_step route s l s'" and "is_authenticated s' j" and "\<not> is_authenticated s j"
  shows "\<exists>f. (j, f) \<in> set (fst l) \<and> admits (config s) f"
  using assms
proof cases
  case (Add rnd ts now sock)
  with assms(2,3) show ?thesis
    by (auto simp: addConnection_def sendHello_def Let_def is_authenticated_def default_peer_def split: if_splits)
next
  case (Frame cid c f c' es)
  from becomes_authenticated [of "route cid" f "set_conn cid c' s" j] assms(2,3) Frame(4) settings_set_conn [of cid c' s]
  have "j = route cid" "admits (config s) f" by (auto simp: admits_def)
  with Frame(1) show ?thesis by simp
next
  case (Stop es)
  with assms(2,3) authenticated_reap [of "deadConns s" s j] show ?thesis
    by (auto simp: stop_session_def case_prod_unfold reap_frame is_authenticated_def split: if_splits)
next
  case (Reap es)
  with assms(2,3) show ?thesis
    by (auto simp: ping_reap_def split: list.splits) (metis authenticated_onDisconnect authenticated_update(2) fst_conv)
next
  case (Enter cid c c' ev es)
  with assms(2,3) show ?thesis by (metis authenticated_notify authenticated_set_conn fst_conv)
next
  case (Return cid c a c' ev es)
  with assms(2,3) show ?thesis by (metis authenticated_notify authenticated_set_conn fst_conv)
qed (use assms(2,3) in \<open>auto simp: broadcast_def ping_sweep_def start_session_def sendTo_on_connection Let_def
    split: option.splits\<close>)

lemma settings_wired: "settings (wired_session c) = (c, True, True)"
  by (simp add: wired_session_def start_session_def setPeerEventCallback_def setMessageCallback_def new_session_def)

lemma run_settings:
  assumes "session_run route c l s"
  shows "settings s = (c, True, True)"
  using assms by (induction rule: run_invariant) (auto simp: settings_wired dest: settings_step)

lemma authenticated_wired: "\<not> is_authenticated (wired_session c) k"
  by (simp add: wired_session_def start_session_def setPeerEventCallback_def setMessageCallback_def new_session_def
      is_authenticated_def)

text \<open>In a run nobody is authenticated without an admitting frame.\<close>

lemma run_authenticated:
  assumes "session_run route c l s" and "is_authenticated s k"
  shows "\<exists>f. (k, f) \<in> set (fst l) \<and> admits c f"
proof -
  have "config s = c \<and> (\<forall>k. is_authenticated s k \<longrightarrow> (\<exists>f. (k, f) \<in> set (fst l) \<and> admits c f))"
    using assms(1)
  proof (induction rule: run_invariant)
    case 1
    then show ?case using authenticated_wired settings_wired by auto
  next
    case (2 hs es s hs' es' s')
    from settings_step [OF 2(2)] 2(1) have "config s' = c" by simp
    moreover have "\<exists>f. (k, f) \<in> set (hs @ hs') \<and> admits c f" if "is_authenticated s' k" for k
      using step_authenticates [OF 2(2) that] 2(1) by (cases "is_authenticated s k") auto
    ultimately show ?case by simp
  qed
  with assms(2) show ?thesis by blast
qed

lemma step_message:
  assumes "session_step route s l s'" and "Message_event m n \<in> set (snd l)"
  shows "\<exists>k f. (k, f) \<in> set (fst l) \<and> is_authenticated s k \<and> htype (header f) = CHAT_MESSAGE \<and>
    fromJson (payloadAsString f) = Some m \<and> n = senderName m"
proof -
  have D: "Message_event m n \<notin> set (snd (onDisconnect k t))" for k t
    by (simp add: onDisconnect_def Let_def peer_event_def)
  then have R: "Message_event m n \<notin> set (snd (reap ks t))" for ks t
    by (induction ks arbitrary: t) (auto simp: case_prod_unfold)
  from D have N: "Message_event m n \<notin> set (snd (notify_closed route cid ev t))" for cid ev t
    by (simp add: notify_closed_def split: recv_event.split)
  show ?thesis
    using assms
  proof cases
    case (Frame cid c f c' es)
    with assms(2) message_event_iff [of m n "route cid" f "set_conn cid c' s"] show ?thesis by auto
  next
    case (Stop es)
    with assms(2) R show ?thesis by (auto simp: stop_session_def case_prod_unfold split: if_splits)
  next
    case (Reap es)
    with assms(2) D show ?thesis by (auto simp: ping_reap_def split: list.splits) (metis snd_conv)
  next
    case (Enter cid c c' ev es)
    with assms(2) N show ?thesis by (metis snd_conv)
  next
    case (Return cid c a c' ev es)
    with assms(2) N show ?thesis by (metis snd_conv)
  qed (use assms(2) in auto)
qed

text \<open>A message shown in a run was in a chat frame of a connection that an earlier frame had
  authenticated.\<close>

lemma run_message:
  assumes "session_run route c l s" and "Message_event m n \<in> set (snd l)"
  shows "\<exists>k f g. (k, f) \<in> set (fst l) \<and> admits c f \<and> (k, g) \<in> set (fst l) \<and>
    htype (header g) = CHAT_MESSAGE \<and> fromJson (payloadAsString g) = Some m"
  using assms
proof (induction rule: session_run.induct)
  case (Step hs es s hs' es' s')
  show ?case
  proof (cases "Message_event m n \<in> set es")
    case True
    with Step.IH show ?thesis by auto
  next
    case False
    with Step.prems have "Message_event m n \<in> set es'" by simp
    with step_message [OF Step.hyps(2), of m n] obtain k g where "(k, g) \<in> set hs'" "is_authenticated s k"
      "htype (header g) = CHAT_MESSAGE" "fromJson (payloadAsString g) = Some m" by auto
    moreover from run_authenticated [OF Step.hyps(1) \<open>is_authenticated s k\<close>] obtain f
      where "(k, f) \<in> set hs" "admits c f" by auto
    ultimately show ?thesis by auto
  qed
qed simp

text \<open>Under the wiring of \<open>main.cpp\<close> no \<open>AUTH_RESPONSE\<close> is ever taken, so that with
  \<open>require_auth\<close> no message is ever shown.\<close>

lemma cut_off_frame_authenticates:
  assumes "cut_off s" and "requireAuth (config s)" and "\<And>k. \<not> is_authenticated s k"
  shows "\<not> is_authenticated (fst (onFrame '''' f s)) k"
  using becomes_authenticated [of "''''" f s k] assms by (auto simp: cut_off_def)

lemma run_nobody:
  assumes "session_run main_route c l s" and "requireAuth c"
  shows "\<not> is_authenticated s k"
proof -
  have "cut_off s \<and> config s = c \<and> (\<forall>k. \<not> is_authenticated s k)"
    using assms(1)
  proof (induction rule: run_invariant)
    case 1
    then show ?case using authenticated_wired cut_off_wired settings_wired by auto
  next
    case (2 hs es s hs' es' s')
    have "\<not> is_authenticated s' k" for k
      using 2(2)
    proof cases
      case (Frame cid d f d')
      have "cut_off (set_conn cid d' s)" using 2(1) Frame(2) by (simp add: cut_off_set_conn)
      moreover have "config (set_conn cid d' s) = c" using 2(1) by (simp add: set_conn_def)
      ultimately show ?thesis
        using cut_off_frame_authenticates [of "set_conn cid d' s" f k] assms(2) 2(1) Frame(4)
        by (simp add: main_route_def)
    qed (use 2 step_authenticates [OF 2(2), of k] in auto)
    with 2 show ?case using cut_off_step [OF _ 2(2)] settings_step [OF 2(2)] by auto
  qed
  then show ?thesis by blast
qed

section \<open>The exchange of credentials\<close>

text \<open>Whoever asks gets the key, and the answer sent back is accepted.\<close>

lemma auth_response_accepted:
  "decodable (pskHash c) \<Longrightarrow> auth_accepts c (auth_response_payload c)"
  by (simp add: auth_accepts_def auth_response_read)

lemma reflection:
  assumes "sm_lookup (connections s) k \<noteq> None" and "decodable (pskHash (config s))"
    and "payloadAsString f = auth_response_payload (config s)" and "htype (header f) = AUTH_RESPONSE"
  shows "is_authenticated (fst (onFrame k f s)) k"
  using assms
  by (auto simp: onFrame_def handleAuthResponse_def auth_response_accepted Let_def is_authenticated_insert)

lemma auth_request_answer:
  assumes "sm_lookup (connections s) k = Some c" and "htype (header f) = AUTH_REQUEST"
  shows "sm_lookup (connections (fst (onFrame k f s))) k =
    Some (fst (conn_send_str c AUTH_RESPONSE (auth_response_payload (config s))))"
  using assms by (simp add: onFrame_def handleAuthRequest_def)

text \<open>Two devices without authentication: the greeting of one enters it among the peers of the other.\<close>

lemma hello_enters:
  assumes "decodable (deviceId a)" and "decodable (displayName a)" and "decodable (platform a)" and "deviceId a \<noteq> ''''"
    and "\<not> requireAuth (config s)" and "htype (header f) = HELLO" and "payloadAsString f = hello_payload a"
  shows "sm_lookup (peers (fst (onFrame k f s))) k = Some ((sm_at default_peer (peers s) k)
    \<lparr>piDeviceId := deviceId a, piDisplayName := displayName a, piPlatform := platform a, piState := AUTHENTICATED\<rparr>)"
  using assms by (simp add: onFrame_def handleHello_def hello_device_id hello_display_name hello_platform Let_def)

text \<open>Only \<open>stop\<close> ends the session.\<close>

lemma onDisconnect_running [simp]: "session_running (fst (onDisconnect k s)) = session_running s"
  by (simp add: onDisconnect_def Let_def)

lemma onFrame_running [simp]: "session_running (fst (onFrame k f s)) = session_running s"
  by (cases "htype (header f)")
    (simp_all add: onFrame_def handleHello_def handleAuthResponse_def handleAuthRequest_def handlePing_def
      handleDisconnect_def Let_def)

lemma ping_running [simp]:
  "session_running (ping_sweep s) = session_running s" "session_running (fst (ping_reap s)) = session_running s"
  by (simp_all add: ping_sweep_def ping_reap_def Let_def split: list.split)

section \<open>Properties\<close>

lemma cut_off_one_peer:
  assumes "cut_off s" and "sm_ok (peers s)"
  shows "length (list_peers s) \<le> 1"
proof -
  let ?ps = "filter (\<lambda>p. piState (snd p) = AUTHENTICATED) (peers s)"
  have "set (map fst ?ps) \<subseteq> {''''}"
    using assms sm_ok_lookup [OF assms(2)] by (fastforce simp: cut_off_def is_authenticated_def)
  moreover have "distinct (map fst ?ps)" using sm_ok_distinct [OF assms(2)] by (rule distinct_map_filter)
  ultimately have "length (map fst ?ps) \<le> 1"
    by (metis card_mono card_insert_disjoint card.empty distinct_card empty_iff finite.emptyI finite.insertI One_nat_def)
  moreover have "length (list_peers s) = length ?ps"
    by (simp add: list_peers_def filter_map comp_def)
  ultimately show ?thesis by simp
qed

text \<open>With the callbacks wired as \<open>main.cpp\<close> wires them, no chat message is ever sent:
  in every state of every run a broadcast changes nothing and a direct message fails, whoever has
  connected and said hello, and all peers share one entry of the table.\<close>

theorem main_wiring_sends_nothing:
  assumes "session_run main_route c l s"
  shows "broadcast rnd t txt s = s \<and> sendTo rnd t peer txt s = (s, False) \<and> length (list_peers s) \<le> 1"
proof -
  from assms have c: "cut_off s" and i: "session_inv s" by (rule run_cut_off, rule run_inv)
  then have "sm_lookup (connections s) k = Some d \<Longrightarrow> \<not> is_authenticated s k" for k d
    by (auto simp: cut_off_def)
  with i have "broadcast rnd t txt s = s" by (intro broadcast_nobody) (auto simp: session_inv_def)
  moreover have "find_target peer s = None"
  proof (rule ccontr)
    assume "find_target peer s \<noteq> None"
    then obtain k where "find_target peer s = Some k" by auto
    with find_target_Some [OF this] i obtain d where "is_authenticated s k" "sm_lookup (connections s) k = Some d"
      by (auto simp: session_inv_def is_authenticated_def)
    with c show False by (auto simp: cut_off_def)
  qed
  ultimately show ?thesis using cut_off_one_peer [OF c] i by (simp add: sendTo_def session_inv_def)
qed

theorem main_wiring_sends_nothing_witness:
  "broadcast None 0 ''hi'' (addConnection None 5 0 (new_connection (Some (open_socket [])) kMaxPayloadSize)
      (wired_session sample_config)) =
    addConnection None 5 0 (new_connection (Some (open_socket [])) kMaxPayloadSize) (wired_session sample_config)"
  using main_wiring_sends_nothing [OF session_run.Step [OF session_run.Init session_step.Add]] by blast

text \<open>C5. Under any routing of the frames, a message is shown only if a chat frame carried it
  and an earlier frame handled under the same id admitted the peer: a greeting when no
  authentication is required, an accepted response otherwise.\<close>

theorem shown_only_if_admitted:
  assumes "session_run route c l s" and "Message_event m n \<in> set (snd l)"
  shows "\<exists>k f g. (k, f) \<in> set (fst l) \<and> admits c f \<and> (k, g) \<in> set (fst l) \<and>
    htype (header g) = CHAT_MESSAGE \<and> fromJson (payloadAsString g) = Some m"
  using assms by (rule run_message)

text \<open>A run in which a greeting and a message arrive and the message is shown.\<close>

definition talk_config :: app_config where
  "talk_config = sample_config\<lparr>requireAuth := False\<rparr>"

definition hello_frame :: frame where
  "hello_frame = create_frame_str HELLO (hello_payload sample_config)"

definition chat_frame :: frame where
  "chat_frame = create_frame_str CHAT_MESSAGE (toJson sample_message)"

definition accepted_session :: session where
  "accepted_session = addConnection None 5 0 (new_connection (Some (open_socket [])) kMaxPayloadSize) (wired_session talk_config)"

lemma accepted_connection:
  "\<exists>c. sm_lookup (connections accepted_session) (makeConnId None 5) = Some c \<and> receiving c \<and>
    reader_of c = new_reader kMaxPayloadSize"
proof -
  let ?c = "conn_start 0 (new_connection (Some (open_socket [])) kMaxPayloadSize)"
  have "conn_send ?c f = (?c, False)" if "serialize_frame f = b # bs" for f b bs
    using that by (simp add: conn_send_def conn_start_def new_connection_def sendAll_def open_socket_def)
  moreover have "\<exists>b bs. serialize_frame f = b # bs" for f
    by (simp add: serialize_frame_def serialize_header_def be32_def)
  ultimately have "fst (conn_send_str ?c t p) = ?c" for t p unfolding conn_send_str_def by (metis fst_conv)
  then show ?thesis
    by (simp add: accepted_session_def addConnection_def sendHello_def Let_def wired_session_def start_session_def
        setPeerEventCallback_def setMessageCallback_def new_session_def)
      (simp add: conn_start_def new_connection_def receiving_def open_socket_def isValid_def kInvalidSocket_def)
qed

lemma talk_lengths: "length (hello_payload sample_config) \<le> 200" "length (toJson sample_message) \<le> 200"
  by (simp_all add: hello_payload_def toJson_def sample_message_def sample_config_def default_config_def escapeJson_def
      escape_char_def jsonStr_def jsonEscape_def jsonEscape_char_def str_pat_def int_pat_def int_to_string_def
      nat_to_string.simps)

lemma talk_data:
  "frames_fit kMaxPayloadSize [hello_frame, chat_frame]"
  "length (serialize_frame hello_frame @ serialize_frame chat_frame) \<le> recv_buffer_size"
  using talk_lengths
  by (simp_all add: frames_fit_def hello_frame_def chat_frame_def create_frame_str_def create_frame_ok
      kMaxPayloadSize_def kFrameHeaderSize_def recv_buffer_size_def)

lemma talk_peer:
  "hello_enters_peer = default_peer\<lparr>piDeviceId := ''dev-1'', piDisplayName := ''Ann B'', piPlatform := '''', piState := AUTHENTICATED\<rparr> \<Longrightarrow>
   config s = talk_config \<Longrightarrow> has_peerEventCallback s \<Longrightarrow> sm_lookup (peers s) '''' = None \<Longrightarrow>
   onFrame '''' hello_frame s = (s\<lparr>peers := sm_insert '''' hello_enters_peer (peers s)\<rparr>, [Peer_event hello_enters_peer True])"
  using hello_device_id [of sample_config] hello_display_name [of sample_config] hello_platform [of sample_config]
  by (simp add: onFrame_def hello_frame_def handleHello_def talk_config_def sm_at_def Let_def peer_event_def
      sample_config_def default_config_def decodable_def)

lemma talk_chat:
  "is_authenticated s '''' \<Longrightarrow> has_messageCallback s \<Longrightarrow>
   onFrame '''' chat_frame s = (s, [Message_event sample_message ''Ann''])"
  using fromJson_toJson [of sample_message]
  by (simp add: onFrame_def chat_frame_def handleChatMessage_def message_ok_def sample_message_def ends_in_backslash_def)

lemma talk_run:
  "\<exists>s p. session_run main_route talk_config ([('''', hello_frame), ('''', chat_frame)],
    [Peer_event p True, Message_event sample_message ''Ann'']) s"
proof -
  let ?k = "makeConnId None 5" and ?d = "serialize_frame hello_frame @ serialize_frame chat_frame"
  obtain c where c: "sm_lookup (connections accepted_session) ?k = Some c" "receiving c"
    "reader_of c = new_reader kMaxPayloadSize" using accepted_connection by blast
  have R0: "session_run main_route talk_config ([], []) accepted_session"
    using session_run.Step [OF session_run.Init session_step.Add] by (simp add: accepted_session_def)
  define s1 where "s1 = set_conn ?k (c\<lparr>thread := In_recv\<rparr>) accepted_session"
  have "recv_enter c = (c\<lparr>thread := In_recv\<rparr>, Quiet)" using c(2) by (auto simp: recv_enter_def receiving_def)
  then have R1: "session_run main_route talk_config ([], []) s1"
    using session_run.Step [OF R0 session_step.Enter [OF c(1), where es = "[]" and s' = s1]] c(2)
    by (simp add: receiving_def notify_closed_def s1_def)
  obtain r' where r': "feed (new_reader kMaxPayloadSize) ?d = (r', Inr [hello_frame, chat_frame])"
    using feed_new(1) [OF parse_stream_serialized [OF talk_data(1), of "[]", simplified]]
    by (auto simp: parse_stream.simps [of _ "[]"] kFrameHeaderSize_def)
  have l1: "sm_lookup (connections s1) ?k = Some (c\<lparr>thread := In_recv\<rparr>)" by (simp add: s1_def set_conn_def)
  define c2 where "c2 = c\<lparr>reader_of := r', thread := Delivering [hello_frame, chat_frame]\<rparr>"
  have "recv_return (c\<lparr>thread := In_recv\<rparr>) (Received ?d) = (c2, Quiet)"
    using talk_data(2) r' c(3) by (simp add: recv_return_def recv_code_def recv_result_def c2_def kFrameHeaderSize_def)
  from session_run.Step [OF R1 session_step.Return [OF l1 _ this, where es = "[]" and s' = "set_conn ?k c2 s1"]]
  have R2: "session_run main_route talk_config ([], []) (set_conn ?k c2 s1)" by (simp add: notify_closed_def)
  define c3 where "c3 = c2\<lparr>frameCount := frameCount c2 + 1, thread := Delivering [chat_frame]\<rparr>"
  define c4 where "c4 = c3\<lparr>frameCount := frameCount c3 + 1, thread := Delivering []\<rparr>"
  have n: "next_frame c2 = Some (hello_frame, c3)" "next_frame c3 = Some (chat_frame, c4)"
    by (simp_all add: next_frame_def c2_def c3_def c4_def)
  define p where "p = default_peer\<lparr>piDeviceId := ''dev-1'', piDisplayName := ''Ann B'', piPlatform := '''', piState := AUTHENTICATED\<rparr>"
  define s3 where "s3 = set_conn ?k c3 (set_conn ?k c2 s1)"
  define s4 where "s4 = s3\<lparr>peers := sm_insert '''' p (peers s3)\<rparr>"
  have "settings s3 = (talk_config, True, True)" using run_settings [OF R2] by (simp add: s3_def set_conn_def)
  moreover have "sm_lookup (peers s3) '''' = None"
    using makeConnId_nonempty [of None 5]
    by (simp add: s3_def s1_def set_conn_def accepted_session_def addConnection_def sendHello_def Let_def
        wired_session_def start_session_def setPeerEventCallback_def setMessageCallback_def new_session_def)
  ultimately have h: "onFrame (main_route ?k) hello_frame s3 = (s4, [Peer_event p True])"
    unfolding main_route_def s4_def by (intro talk_peer [OF p_def]) simp_all
  have "sm_lookup (connections (set_conn ?k c2 s1)) ?k = Some c2" by (simp add: set_conn_def)
  from session_run.Step [OF R2 session_step.Frame [where route = main_route and cid = ?k, OF this n(1) h [unfolded s3_def]]]
  have R4: "session_run main_route talk_config ([('''', hello_frame)], [Peer_event p True]) s4"
    by (simp add: main_route_def)
  have l4: "sm_lookup (connections s4) ?k = Some c3" by (simp add: s4_def s3_def set_conn_def)
  have "is_authenticated (set_conn ?k c4 s4) ''''" by (simp add: s4_def is_authenticated_def set_conn_def p_def)
  moreover have "has_messageCallback (set_conn ?k c4 s4)" using run_settings [OF R4] by (simp add: set_conn_def)
  ultimately have "onFrame (main_route ?k) chat_frame (set_conn ?k c4 s4) =
      (set_conn ?k c4 s4, [Message_event sample_message ''Ann''])"
    unfolding main_route_def by (rule talk_chat)
  from session_run.Step [OF R4 session_step.Frame [where route = main_route and cid = ?k, OF l4 n(2) this]] show ?thesis
    by (auto simp: main_route_def)
qed

theorem shown_only_if_admitted_witness:
  "\<exists>k f g. (k, f) \<in> {('''', hello_frame), ('''', chat_frame)} \<and> admits talk_config f \<and>
    (k, g) \<in> {('''', hello_frame), ('''', chat_frame)} \<and> fromJson (payloadAsString g) = Some sample_message"
proof -
  from talk_run obtain s p where "session_run main_route talk_config ([('''', hello_frame), ('''', chat_frame)],
    [Peer_event p True, Message_event sample_message ''Ann'']) s" by blast
  from shown_only_if_admitted [OF this, of sample_message "''Ann''"] show ?thesis by auto
qed

text \<open>With the wiring of \<open>main.cpp\<close> and \<open>require_auth\<close> set, nobody is ever
  authenticated and no message is ever shown, whatever credentials the peers present.\<close>

theorem require_auth_mutes:
  assumes "session_run main_route c l s" and "requireAuth c"
  shows "\<not> is_authenticated s k \<and> Message_event m n \<notin> set (snd l)"
proof -
  have "Message_event m n \<notin> set (snd l)"
    using assms(1)
  proof (induction rule: session_run.induct)
    case (Step hs es s hs' es' s')
    with step_message [OF Step.hyps(2), of m n] run_nobody [OF Step.hyps(1) assms(2)] show ?case by auto
  qed simp
  with run_nobody [OF assms] show ?thesis by simp
qed

theorem require_auth_mutes_witness:
  "\<not> is_authenticated (addConnection None 5 0 (new_connection (Some (open_socket [])) kMaxPayloadSize)
      (wired_session sample_config)) ''conn5''"
  using require_auth_mutes [OF session_run.Step [OF session_run.Init session_step.Add], of sample_config]
  by (simp add: sample_config_def default_config_def)




lemma started_sends:
  assumes "length (serialize_frame f) \<le> 200"
  shows "\<exists>c'. conn_send started f = (c', True)"
proof -
  obtain as where "send_loop [Accepts 100, Accepts 100] (serialize_frame f) = (as, serialize_frame f, True)"
    using send_loop_delivers [of "[Accepts 100, Accepts 100]" "serialize_frame f"] assms by auto
  then show ?thesis
    by (simp add: conn_send_def started_def conn_start_def new_connection_def sendAll_def open_socket_def
        isValid_def kInvalidSocket_def)
qed


text \<open>Greeting introduces a device: when no authentication is required, the \<open>HELLO\<close> of a
  device with readable identity fields makes it an authenticated peer with these fields, and the
  peer callback is called with them.\<close>

theorem hello_introduces:
  assumes "decodable (deviceId a)" and "decodable (displayName a)" and "decodable (platform a)" and "deviceId a \<noteq> ''''"
    and "\<not> requireAuth (config s)"
  shows "\<exists>p. sm_lookup (peers (fst (onFrame k (create_frame_str HELLO (hello_payload a)) s))) k = Some p \<and>
    piDeviceId p = deviceId a \<and> piDisplayName p = displayName a \<and> piPlatform p = platform a \<and> piState p = AUTHENTICATED"
  using hello_enters [OF assms, of "create_frame_str HELLO (hello_payload a)" k] by simp

theorem hello_introduces_witness:
  "\<exists>p. sm_lookup (peers (fst (onFrame ''c1'' (create_frame_str HELLO (hello_payload sample_config))
      (wired_session (sample_config\<lparr>requireAuth := False\<rparr>))))) ''c1'' = Some p \<and> piDisplayName p = ''Ann B''"
proof -
  have "decodable (deviceId sample_config)" "decodable (displayName sample_config)" "decodable (platform sample_config)"
    "deviceId sample_config \<noteq> ''''" "displayName sample_config = ''Ann B''"
    "\<not> requireAuth (config (wired_session (sample_config\<lparr>requireAuth := False\<rparr>)))"
    by (simp_all add: sample_config_def default_config_def decodable_def wired_session_def start_session_def
        setPeerEventCallback_def setMessageCallback_def new_session_def)
  with hello_introduces [of sample_config "wired_session (sample_config\<lparr>requireAuth := False\<rparr>)" "''c1''"]
  show ?thesis by auto
qed

end
