(* ===== verification/Handshake.thy ===== *)
theory Handshake imports Session_Steps begin

text \<open>
  Two sessions that greet and authenticate each other (\<open>src/chat/chat_session.cpp\<close>), with every
  frame handled under the id of the connection it came over, which is what \<open>chat_session.cpp\<close> is
  written for (the wiring in \<open>main.cpp\<close> gives it another id, see \<open>Session_Steps\<close>): \<open>HELLO\<close>,
  \<open>AUTH_REQUEST\<close>, \<open>AUTH_RESPONSE\<close> and its judgement.
\<close>

section \<open>The frames of the exchange\<close>

abbreviation hello_of :: "session \<Rightarrow> frame" where
  "hello_of b \<equiv> create_frame_str HELLO (hello_payload (config b))"

abbreviation request_of :: "session \<Rightarrow> session \<Rightarrow> frame" where
  "request_of a b \<equiv> create_frame_str AUTH_REQUEST (auth_request_payload (deviceId (config b)) (config a))"

abbreviation response_of :: "session \<Rightarrow> frame" where
  "response_of b \<equiv> create_frame_str AUTH_RESPONSE (auth_response_payload (config b))"

text \<open>What a device says of itself is read back when its texts can be decoded.\<close>

definition presentable :: "app_config \<Rightarrow> bool" where
  "presentable c \<longleftrightarrow> decodable (deviceId c) \<and> decodable (displayName c) \<and> decodable (platform c) \<and>
     decodable (pskHash c) \<and> deviceId c \<noteq> ''''"

text \<open>The key a device answers with: without one it answers \<open>ok\<close>.\<close>

definition answer_key :: "app_config \<Rightarrow> string" where
  "answer_key c = (if pskHash c = '''' then ''ok'' else pskHash c)"

definition keys_agree :: "app_config \<Rightarrow> app_config \<Rightarrow> bool" where
  "keys_agree a b \<longleftrightarrow> pskHash a = '''' \<or> pskHash a = answer_key b"

lemma answer_read: "presentable c \<Longrightarrow> session_extractStr (auth_response_payload c) ''response'' = answer_key c"
proof -
  assume p: "presentable c"
  have "decodable (answer_key c)" using p by (auto simp: presentable_def answer_key_def decodable_def)
  moreover have "auth_response_payload c =
      ''{'' @ jsonStr ''response'' (answer_key c) @ '','' @ jsonStr ''device_id'' (deviceId c) @ ''}''"
    by (simp add: auth_response_payload_def answer_key_def Let_def)
  ultimately show ?thesis
    by (simp add: session_extractStr_eq walk_session session_scan_escape del: str_after.simps)
qed

lemma accepts_iff: "presentable b \<Longrightarrow> auth_accepts a (auth_response_payload b) \<longleftrightarrow> keys_agree a b"
  by (auto simp: auth_accepts_def keys_agree_def answer_read)

section \<open>The exchange, step by step\<close>

lemma hello_asks:
  assumes "requireAuth (config a)" and "presentable (config b)"
  shows "onFrame i (hello_of b) a =
    (send_on i AUTH_REQUEST (auth_request_payload (deviceId (config b)) (config a))
       (a\<lparr>peers := sm_insert i ((sm_at default_peer (peers a) i)
          \<lparr>piDeviceId := deviceId (config b), piDisplayName := displayName (config b), piPlatform := platform (config b),
            piState := AUTHENTICATING\<rparr>) (peers a)\<rparr>), [])"
  using assms by (simp add: onFrame_def handleHello_def presentable_def hello_device_id hello_display_name hello_platform Let_def)

lemma request_answered: "onFrame j (request_of a b) b = (send_on j AUTH_RESPONSE (auth_response_payload (config b)) b, [])"
  by (simp add: onFrame_def handleAuthRequest_def)

lemma response_judged:
  assumes "sm_lookup (connections a) i = Some c" and "presentable (config b)"
  shows "onFrame i (response_of b) a =
    (if keys_agree (config a) (config b) then
       let snap = (sm_at default_peer (peers a) i)\<lparr>piState := AUTHENTICATED\<rparr>
       in (send_on i AUTH_OK ''{}'' (a\<lparr>peers := sm_insert i snap (peers a)\<rparr>), peer_event a True snap True)
     else (disconnect_on i ''authentication failed'' (send_on i AUTH_FAIL auth_fail_payload a), []))"
  using assms by (simp add: onFrame_def handleAuthResponse_def accepts_iff)

lemma on_connection_lookup:
  "sm_lookup (connections (on_connection k f s)) k = map_option f (sm_lookup (connections s) k)"
  by (simp add: on_connection_def split: option.split)

lemma conn_sent_all: "conn_send c f = (c', True) \<Longrightarrow> sent c' = sent c @ serialize_frame f"
  using conn_send_out [of c f c' True] by auto

text \<open>A connection that refuses a peer is shut down.\<close>

lemma refused_stops:
  assumes "conn_ok c"
  shows "\<not> running (conn_disconnect (fst (conn_send_str c t p)) r)"
proof -
  have "conn_ok (fst (conn_send_str c t p))" by (rule send_keeps_ok [OF assms])
  then show ?thesis using disconnect_ends(2) [of "fst (conn_send_str c t p)" r] by (simp add: conn_ok_def)
qed

section \<open>Properties\<close>


text \<open>A device with the same key, and one with another.\<close>

definition other_session :: "string \<Rightarrow> session" where
  "other_session key = lone_session\<lparr>config := sample_config\<lparr>deviceId := ''dev-2'', pskHash := key\<rparr>\<rparr>"

lemma other_facts:
  "config (other_session key) = sample_config\<lparr>deviceId := ''dev-2'', pskHash := key\<rparr>"
  "sm_lookup (connections (other_session key)) ''c1'' = Some started"
  by (simp_all add: other_session_def lone_facts)

lemma other_presentable: "decodable key \<Longrightarrow> presentable (config (other_session key))"
  by (simp add: other_facts presentable_def sample_config_def default_config_def decodable_def)

lemma exchange_sent:
  assumes "length (jsonEscape key) \<le> 9"
  shows "\<exists>c1 c2. conn_send started (request_of lone_session (other_session key)) = (c1, True) \<and>
    conn_send started (response_of (other_session key)) = (c2, True)"
proof -
  have "length (serialize_frame (request_of lone_session (other_session key))) \<le> 200"
    by (simp add: lone_facts other_facts auth_request_payload_def sample_config_def default_config_def jsonStr_def
        jsonEscape_def jsonEscape_char_def create_frame_str_def create_frame_def kFrameHeaderSize_def)
  moreover have "length (serialize_frame (response_of (other_session key))) \<le> 200"
    using assms
    by (simp add: other_facts auth_response_payload_def sample_config_def default_config_def jsonStr_def Let_def
        jsonEscape_def jsonEscape_char_def create_frame_str_def create_frame_def kFrameHeaderSize_def)
  ultimately show ?thesis using started_sends by blast
qed


end
