(* ===== verification/Session_Locks.thy ===== *)
theory Session_Locks imports Session_Steps begin

text \<open>
  The lock \<open>connMutex_\<close> and the joins of the chat session
  (\<open>src/chat/chat_session.cpp\<close>, \<open>src/network/connection.cpp\<close>). \<open>Session_Steps\<close>
  takes each operation as one transition; here an operation is cut where it waits: before it takes
  the lock, and where the destructor of a connection joins its receiving thread while the lock is held.
  The threads are the owner, which calls \<open>stop\<close>; the ping thread; the receiving thread of every
  connection, whose callbacks pass the id that \<open>route\<close> gives for its own; and any number of threads
  that add a connection each. \<open>addConnection\<close> tests \<open>running_\<close> before it takes the lock; its start of
  the connection and its greeting are taken together with the insertion (\<open>Adding_Connection\<close> cuts them).
\<close>

text \<open>\<open>addConnection\<close> after its test of \<open>running_\<close>.\<close>

definition insert_connection :: "bytes option \<Rightarrow> int \<Rightarrow> int \<Rightarrow> connection \<Rightarrow> session \<Rightarrow> session" where
  "insert_connection rnd ts now conn s =
     (let connId = makeConnId rnd ts;
          dropped = (case sm_lookup (connections s) connId of None \<Rightarrow> [] | Some c \<Rightarrow> [conn_destroy c]);
          s1 = s\<lparr>connections := sm_insert connId conn (connections s),
                 destroyed := destroyed s @ dropped,
                 peers := sm_insert connId default_peer (peers s)\<rparr>
      in sendHello connId (on_connection connId (conn_start now) s1))"

lemma addConnection_insert:
  "addConnection rnd ts now conn s =
    (if session_running s then insert_connection rnd ts now conn s
     else s\<lparr>destroyed := destroyed s @ [conn_destroy conn]\<rparr>)"
  by (simp add: addConnection_def insert_connection_def Let_def)

section \<open>The threads\<close>

datatype lock_thread = Owner | Receiver string | Pinger | Adder nat

text \<open>The owner: about to call \<open>stop\<close>, joining the ping thread, waiting for the lock,
  holding it, in \<open>connections_.clear()\<close> (every connection disconnected), returned.\<close>

datatype owner_pc = O_call | O_join_ping | O_wants_lock | O_disconnecting | O_clearing | O_returned

text \<open>A receiving thread: in \<open>::recv\<close>, with a frame and waiting for the lock, in the
  handler, with the end of the connection and waiting for the lock, in \<open>onDisconnect\<close>, joining
  itself, finished.\<close>

datatype receiver_pc = R_receiving | R_frame frame | R_handling frame | R_closed | R_closing | R_self_join | R_done

text \<open>The ping thread: asleep, waiting for the lock for its sweep, sweeping, waiting for the lock
  to remove a connection it found dead, removing it, finished.\<close>

datatype pinger_pc = P_sleep | P_wants_sweep | P_sweep | P_wants_remove | P_removing | P_done

text \<open>A thread that adds a connection: the random bytes and the clock value of its id, the time, the
  connection. It calls, has seen that the session runs, holds the lock, is done.\<close>

record new_conn =
  nc_random :: "bytes option"
  nc_stamp :: int
  nc_time :: int
  nc_connection :: connection

datatype adder_pc = A_call new_conn | A_checked new_conn | A_inserting new_conn | A_done

definition conn_id :: "new_conn \<Rightarrow> string" where
  "conn_id x = makeConnId (nc_random x) (nc_stamp x)"

definition insert_new :: "new_conn \<Rightarrow> session \<Rightarrow> session" where
  "insert_new x = insert_connection (nc_random x) (nc_stamp x) (nc_time x) (nc_connection x)"

record lock_state =
  ls_session :: session
  holder :: "lock_thread option"
  owner_at :: owner_pc
  pinger_at :: pinger_pc
  receiver_at :: "string \<Rightarrow> receiver_pc"
  adder_at :: "nat \<Rightarrow> adder_pc"

definition in_table :: "string \<Rightarrow> session \<Rightarrow> bool" where
  "in_table k s \<longleftrightarrow> sm_lookup (connections s) k \<noteq> None"

definition lock_start :: "session \<Rightarrow> (nat \<Rightarrow> new_conn option) \<Rightarrow> lock_state" where
  "lock_start s news = \<lparr>ls_session = s, holder = None, owner_at = O_call, pinger_at = P_sleep,
     receiver_at = (\<lambda>k. if in_table k s then R_receiving else R_done),
     adder_at = (\<lambda>i. case news i of None \<Rightarrow> A_done | Some x \<Rightarrow> A_call x)\<rparr>"

definition receives :: "string \<Rightarrow> receiver_pc \<Rightarrow> lock_state \<Rightarrow> lock_state" where
  "receives k p l = l\<lparr>receiver_at := (receiver_at l)(k := p)\<rparr>"

definition adds :: "nat \<Rightarrow> adder_pc \<Rightarrow> lock_state \<Rightarrow> lock_state" where
  "adds i p l = l\<lparr>adder_at := (adder_at l)(i := p)\<rparr>"

text \<open>The types whose handlers take the lock.\<close>

definition takes_lock :: "frame \<Rightarrow> bool" where
  "takes_lock f \<longleftrightarrow> htype (header f) \<in> {HELLO, AUTH_REQUEST, AUTH_RESPONSE, CHAT_MESSAGE, PING, message_type.DISCONNECT}"

definition serving :: "string \<Rightarrow> session \<Rightarrow> bool" where
  "serving cid s = (case sm_lookup (connections s) cid of None \<Rightarrow> False | Some c \<Rightarrow> running c)"

definition disconnect_all :: "session \<Rightarrow> session" where
  "disconnect_all s = s\<lparr>connections := map (\<lambda>(cid, c). (cid, conn_disconnect c ''session stopped'')) (connections s)\<rparr>"

definition clear_tables :: "session \<Rightarrow> session" where
  "clear_tables s = s\<lparr>destroyed := destroyed s @ map (\<lambda>(cid, c). conn_destroy c) (connections s),
     connections := [], peers := []\<rparr>"

text \<open>What the receiving thread does to its connection when \<open>::recv\<close> ends it, before it
  calls back.\<close>

definition connection_lost :: "string \<Rightarrow> session \<Rightarrow> session" where
  "connection_lost cid s = on_connection cid (\<lambda>c. setState DISCONNECTED (c\<lparr>running := False\<rparr>)) s"

text \<open>The destructor of the connection with an id, if there is one, returns.\<close>

definition joined :: "string \<Rightarrow> lock_state \<Rightarrow> bool" where
  "joined k l \<longleftrightarrow> \<not> in_table k (ls_session l) \<or> receiver_at l k = R_done"

inductive lock_step :: "(string \<Rightarrow> string) \<Rightarrow> lock_state \<Rightarrow> lock_state \<Rightarrow> bool" for route where
  Stop_call: "owner_at l = O_call \<Longrightarrow>
    lock_step route l
      (if session_running (ls_session l)
       then l\<lparr>ls_session := (ls_session l)\<lparr>session_running := False\<rparr>, owner_at := O_join_ping\<rparr>
       else l\<lparr>owner_at := O_returned\<rparr>)"
| Ping_joined: "owner_at l = O_join_ping \<Longrightarrow> pinger_at l = P_done \<Longrightarrow> lock_step route l (l\<lparr>owner_at := O_wants_lock\<rparr>)"
| Stop_locks: "owner_at l = O_wants_lock \<Longrightarrow> holder l = None \<Longrightarrow>
    lock_step route l (l\<lparr>owner_at := O_disconnecting, holder := Some Owner\<rparr>)"
| Stop_disconnects: "owner_at l = O_disconnecting \<Longrightarrow>
    lock_step route l (l\<lparr>ls_session := disconnect_all (ls_session l), owner_at := O_clearing\<rparr>)"
| Stop_clears: "owner_at l = O_clearing \<Longrightarrow> (\<And>k. joined k l) \<Longrightarrow>
    lock_step route l (l\<lparr>ls_session := clear_tables (ls_session l), owner_at := O_returned, holder := None\<rparr>)"
| Recv_frame: "receiver_at l k = R_receiving \<Longrightarrow> takes_lock f \<Longrightarrow> lock_step route l (receives k (R_frame f) l)"
| Recv_closed: "receiver_at l k = R_receiving \<Longrightarrow>
    lock_step route l
      (if serving k (ls_session l) then receives k R_closed (l\<lparr>ls_session := connection_lost k (ls_session l)\<rparr>)
       else receives k R_done l)"
| Frame_locks: "receiver_at l k = R_frame f \<Longrightarrow> holder l = None \<Longrightarrow>
    lock_step route l (receives k (R_handling f) (l\<lparr>holder := Some (Receiver k)\<rparr>))"
| Frame_handled: "receiver_at l k = R_handling f \<Longrightarrow> fst (onFrame (route k) f (ls_session l)) = s' \<Longrightarrow>
    lock_step route l
      (receives k (if serving k s' then R_receiving else R_done) (l\<lparr>ls_session := s', holder := None\<rparr>))"
| Closed_locks: "receiver_at l k = R_closed \<Longrightarrow> holder l = None \<Longrightarrow>
    lock_step route l (receives k R_closing (l\<lparr>holder := Some (Receiver k)\<rparr>))"
| Closed_handled: "receiver_at l k = R_closing \<Longrightarrow> joined (route k) l \<Longrightarrow>
    lock_step route l
      (receives k R_done (l\<lparr>ls_session := fst (onDisconnect (route k) (ls_session l)), holder := None\<rparr>))"
| Closed_joins_itself: "receiver_at l k = R_closing \<Longrightarrow> route k = k \<Longrightarrow> in_table k (ls_session l) \<Longrightarrow>
    lock_step route l (receives k R_self_join l)"
| Ping_wakes: "pinger_at l = P_sleep \<Longrightarrow>
    lock_step route l (l\<lparr>pinger_at := (if session_running (ls_session l) then P_wants_sweep else P_done)\<rparr>)"
| Ping_locks: "pinger_at l = P_wants_sweep \<Longrightarrow> holder l = None \<Longrightarrow>
    lock_step route l (l\<lparr>pinger_at := P_sweep, holder := Some Pinger\<rparr>)"
| Ping_sweeps: "pinger_at l = P_sweep \<Longrightarrow> ping_sweep (ls_session l) = s' \<Longrightarrow>
    lock_step route l (l\<lparr>ls_session := s', holder := None,
      pinger_at := (if deadConns s' = [] then P_sleep else P_wants_remove)\<rparr>)"
| Remove_locks: "pinger_at l = P_wants_remove \<Longrightarrow> holder l = None \<Longrightarrow>
    lock_step route l (l\<lparr>pinger_at := P_removing, holder := Some Pinger\<rparr>)"
| Removes: "pinger_at l = P_removing \<Longrightarrow> joined (hd (deadConns (ls_session l))) l \<Longrightarrow>
    fst (ping_reap (ls_session l)) = s' \<Longrightarrow>
    lock_step route l (l\<lparr>ls_session := s', holder := None,
      pinger_at := (if deadConns s' = [] then P_sleep else P_wants_remove)\<rparr>)"
| Add_checks: "adder_at l i = A_call x \<Longrightarrow>
    lock_step route l (adds i (if session_running (ls_session l) then A_checked x else A_done) l)"
| Add_locks: "adder_at l i = A_checked x \<Longrightarrow> holder l = None \<Longrightarrow>
    lock_step route l (adds i (A_inserting x) (l\<lparr>holder := Some (Adder i)\<rparr>))"
| Add_inserts: "adder_at l i = A_inserting x \<Longrightarrow> joined (conn_id x) l \<Longrightarrow>
    lock_step route l
      (adds i A_done (receives (conn_id x) R_receiving (l\<lparr>ls_session := insert_new x (ls_session l), holder := None\<rparr>)))"

inductive_cases lock_step_elim: "lock_step route l l'"

abbreviation lock_run :: "(string \<Rightarrow> string) \<Rightarrow> lock_state \<Rightarrow> lock_state \<Rightarrow> bool" where
  "lock_run route \<equiv> (lock_step route)\<^sup>*\<^sup>*"

definition stuck :: "(string \<Rightarrow> string) \<Rightarrow> lock_state \<Rightarrow> bool" where
  "stuck route l \<longleftrightarrow> (\<forall>l'. \<not> lock_step route l l')"

section \<open>Facts\<close>

lemma thread_moves [simp]:
  "receiver_at (receives k p l) j = (if j = k then p else receiver_at l j)" "ls_session (receives k p l) = ls_session l"
  "holder (receives k p l) = holder l" "owner_at (receives k p l) = owner_at l" "pinger_at (receives k p l) = pinger_at l"
  "adder_at (receives k p l) = adder_at l"
  "adder_at (adds i q l) n = (if n = i then q else adder_at l n)" "ls_session (adds i q l) = ls_session l"
  "holder (adds i q l) = holder l" "owner_at (adds i q l) = owner_at l" "pinger_at (adds i q l) = pinger_at l"
  "receiver_at (adds i q l) = receiver_at l"
  by (simp_all add: receives_def adds_def)

text \<open>What happens to the ids in the table.\<close>

lemma table_on_connection [simp]: "in_table j (on_connection k f s) = in_table j s"
  by (auto simp: in_table_def on_connection_def split: option.split)

lemma table_fields [simp]:
  "in_table j (s\<lparr>peers := ps\<rparr>) = in_table j s" "in_table j (s\<lparr>session_running := b\<rparr>) = in_table j s"
  "in_table j (s\<lparr>deadConns := ks\<rparr>) = in_table j s"
  by (simp_all add: in_table_def)

lemma table_onFrame [simp]: "in_table j (fst (onFrame k f s)) = in_table j s"
  by (cases "htype (header f)")
    (simp_all add: onFrame_def handleHello_def handleAuthResponse_def handleAuthRequest_def handlePing_def
      handleDisconnect_def Let_def)

lemma table_onDisconnect [simp]: "in_table j (fst (onDisconnect k s)) \<longleftrightarrow> j \<noteq> k \<and> in_table j s"
  by (simp add: in_table_def onDisconnect_def Let_def)

lemma table_sweep [simp]: "in_table j (ping_sweep s) = in_table j s"
  by (simp add: in_table_def ping_sweep_connections map_of_map_values)

lemma table_reap: "in_table j (fst (ping_reap s)) \<longleftrightarrow> (deadConns s = [] \<or> j \<noteq> hd (deadConns s)) \<and> in_table j s"
  by (simp add: ping_reap_def split: list.split)

lemma table_lost [simp]: "in_table j (connection_lost k s) = in_table j s"
  by (simp add: connection_lost_def)

lemma table_stop [simp]: "in_table j (disconnect_all s) = in_table j s" "\<not> in_table j (clear_tables s)"
  by (simp_all add: in_table_def disconnect_all_def clear_tables_def map_of_map_values)

lemma table_insert [simp]: "in_table j (insert_new x s) \<longleftrightarrow> j = conn_id x \<or> in_table j s"
  by (simp add: insert_new_def insert_connection_def sendHello_def Let_def conn_id_def) (simp add: in_table_def)

lemma serving_table: "serving k s \<Longrightarrow> in_table k s"
  by (simp add: serving_def in_table_def split: option.splits)

lemma other_running [simp]:
  "session_running (connection_lost k s) = session_running s" "session_running (disconnect_all s) = session_running s"
  "session_running (clear_tables s) = session_running s" "session_running (insert_new x s) = session_running s"
  by (simp_all add: connection_lost_def disconnect_all_def clear_tables_def insert_new_def insert_connection_def
      sendHello_def Let_def)

text \<open>The lock is held exactly by the thread that is inside, and a thread is only left when its connection is in the table.\<close>

fun receiver_inside :: "receiver_pc \<Rightarrow> bool" where
  "receiver_inside (R_handling f) = True"
| "receiver_inside R_closing = True"
| "receiver_inside R_self_join = True"
| "receiver_inside p = False"

fun adder_inside :: "adder_pc \<Rightarrow> bool" where
  "adder_inside (A_inserting x) = True"
| "adder_inside p = False"

definition lock_inv :: "lock_state \<Rightarrow> bool" where
  "lock_inv l \<longleftrightarrow>
     (holder l = Some Owner \<longleftrightarrow> owner_at l \<in> {O_disconnecting, O_clearing}) \<and>
     (\<forall>k. holder l = Some (Receiver k) \<longleftrightarrow> receiver_inside (receiver_at l k)) \<and>
     (holder l = Some Pinger \<longleftrightarrow> pinger_at l \<in> {P_sweep, P_removing}) \<and>
     (\<forall>i. holder l = Some (Adder i) \<longleftrightarrow> adder_inside (adder_at l i)) \<and>
     (\<forall>k. receiver_at l k \<noteq> R_done \<longrightarrow> in_table k (ls_session l))"

lemma joined_done: "lock_inv l \<Longrightarrow> joined k l \<Longrightarrow> receiver_at l k = R_done"
  by (auto simp: lock_inv_def joined_def)

lemma inside_holds:
  "lock_inv l \<Longrightarrow> receiver_inside (receiver_at l k) \<Longrightarrow> holder l = Some (Receiver k)"
  "lock_inv l \<Longrightarrow> adder_inside (adder_at l i) \<Longrightarrow> holder l = Some (Adder i)"
  by (simp_all add: lock_inv_def)

lemma lock_step_inv:
  assumes "lock_step route l l'" and inv: "lock_inv l"
  shows "lock_inv l'"
  using assms(1)
proof cases
  case (Removes s')
  have "receiver_at l (hd (deadConns (ls_session l))) = R_done" using joined_done [OF inv Removes(3)] .
  then show ?thesis using inv Removes(1,2,4) by (auto simp: lock_inv_def table_reap)
next
  case (Closed_handled k)
  have "receiver_at l (route k) = R_done" using joined_done [OF inv Closed_handled(3)] .
  then show ?thesis using inv Closed_handled(1,2) inside_holds(1) [OF inv, of k] by (auto simp: lock_inv_def)
next
  case (Closed_joins_itself k)
  then show ?thesis using inv inside_holds(1) [OF inv, of k] by (auto simp: lock_inv_def)
next
  case (Add_inserts i x)
  have "receiver_at l (conn_id x) = R_done" using joined_done [OF inv Add_inserts(3)] .
  then show ?thesis using inv Add_inserts(1,2) inside_holds(2) [OF inv, of i] by (auto simp: lock_inv_def)
next
  case Stop_clears
  have "receiver_at l k = R_done" for k using joined_done [OF inv Stop_clears(3)] .
  then show ?thesis using inv Stop_clears(1,2) by (auto simp: lock_inv_def)
next
  case (Frame_handled k f s')
  then show ?thesis using inv inside_holds(1) [OF inv, of k] by (auto simp: lock_inv_def dest: serving_table)
qed (use inv in \<open>auto simp: lock_inv_def\<close>)

text \<open>The session runs until \<open>stop\<close> is called, past its join the ping thread is gone, and a ping thread
  that removes has something to remove.\<close>

definition ping_inv :: "lock_state \<Rightarrow> bool" where
  "ping_inv l \<longleftrightarrow> (owner_at l = O_call \<longrightarrow> session_running (ls_session l)) \<and>
     (owner_at l \<notin> {O_call, O_join_ping} \<longrightarrow> pinger_at l = P_done)"

lemma ping_step_inv: "lock_step route l l' \<Longrightarrow> ping_inv l \<Longrightarrow> ping_inv l'"
  by (induction rule: lock_step.induct) (auto simp: ping_inv_def)

lemma lock_run_inv:
  assumes "lock_run route (lock_start s news) l" and "session_running s"
  shows "lock_inv l \<and> ping_inv l"
  using assms(1)
proof (induction rule: rtranclp_induct)
  case base
  show ?case using assms(2) by (auto simp: lock_inv_def ping_inv_def lock_start_def split: option.splits)
next
  case (step l l')
  then show ?case by (blast intro: lock_step_inv ping_step_inv)
qed

text \<open>With the ids of \<open>main.cpp\<close> no thread joins itself.\<close>

definition apart :: "lock_state \<Rightarrow> bool" where
  "apart l \<longleftrightarrow> \<not> in_table '''' (ls_session l) \<and> (\<forall>k. receiver_at l k \<noteq> R_self_join)"

lemma conn_id_nonempty [simp]: "conn_id x \<noteq> ''''" "'''' \<noteq> conn_id x"
  using makeConnId_nonempty by (metis conn_id_def)+

lemma apart_step: "lock_step main_route l l' \<Longrightarrow> apart l \<Longrightarrow> apart l'"
  by (induction rule: lock_step.induct) (auto simp: apart_def table_reap main_route_def)

lemma apart_run:
  assumes "lock_run main_route (lock_start s news) l" and "\<not> in_table '''' s"
  shows "apart l"
  using assms(1)
proof (induction rule: rtranclp_induct)
  case base
  show ?case using assms(2) by (simp add: apart_def lock_start_def)
qed (blast intro: apart_step)

section \<open>Where nothing moves\<close>

text \<open>A receiving thread waits for the lock; all threads have finished; a thread that holds the lock joins
  one that waits for it.\<close>

definition receiver_waits :: "string \<Rightarrow> lock_state \<Rightarrow> bool" where
  "receiver_waits k l \<longleftrightarrow> in_table k (ls_session l) \<and> receiver_at l k \<in> insert R_closed (range R_frame)"

definition finished :: "lock_state \<Rightarrow> bool" where
  "finished l \<longleftrightarrow> owner_at l = O_returned \<and> pinger_at l = P_done \<and> (\<forall>k. receiver_at l k = R_done) \<and>
     (\<forall>i. adder_at l i = A_done)"

definition deadlocked :: "lock_state \<Rightarrow> bool" where
  "deadlocked l \<longleftrightarrow> (\<exists>k. receiver_waits k l \<and>
     (holder l = Some Owner \<and> owner_at l = O_clearing \<or>
      holder l = Some Pinger \<and> pinger_at l = P_removing \<and> k = hd (deadConns (ls_session l)) \<or>
      (\<exists>i x. holder l = Some (Adder i) \<and> adder_at l i = A_inserting x \<and> k = conn_id x)))"

text \<open>A thread that holds the lock and is not joining goes on.\<close>

lemma stuck_receiver:
  assumes "stuck main_route l" and inv: "lock_inv l" and apart: "apart l"
  shows "receiver_at l k = R_done \<or> receiver_waits k l \<and> holder l \<noteq> None"
proof -
  have no: "\<not> lock_step main_route l l'" for l' using assms(1) by (simp add: stuck_def)
  have j: "joined (main_route k) l" using apart by (simp add: apart_def joined_def main_route_def)
  have "receiver_at l k \<noteq> R_receiving" "receiver_at l k \<noteq> R_closing" "receiver_at l k \<noteq> R_handling f"
    "receiver_at l k \<noteq> R_self_join" for f
    using no Recv_closed [of l k main_route] Closed_handled [of l k main_route] Frame_handled [of l k f main_route] j apart
    by (auto simp: apart_def)
  moreover have "holder l \<noteq> None" if "receiver_at l k = R_closed \<or> receiver_at l k = R_frame f" for f
    using that no Frame_locks [of l k f main_route] Closed_locks [of l k main_route] by blast
  ultimately show ?thesis using inv by (cases "receiver_at l k") (auto simp: receiver_waits_def lock_inv_def)
qed

lemma stuck_unjoined:
  assumes "stuck main_route l" and "lock_inv l" and "apart l" and "\<not> joined k l"
  shows "receiver_waits k l"
  using stuck_receiver [OF assms(1-3), of k] assms(4) by (auto simp: joined_def)

lemma stuck_holder:
  assumes s: "stuck main_route l" "lock_inv l" "apart l" and h: "holder l \<noteq> None"
  shows "deadlocked l"
proof -
  have no: "\<not> lock_step main_route l l'" for l' using s(1) by (simp add: stuck_def)
  from h consider "holder l = Some Owner" | k where "holder l = Some (Receiver k)" | "holder l = Some Pinger"
    | i where "holder l = Some (Adder i)"
    by (metis lock_thread.exhaust option.exhaust)
  then show ?thesis
  proof cases
    case 1
    then have "owner_at l = O_clearing" using s(2) no Stop_disconnects by (auto simp: lock_inv_def)
    moreover obtain k where "\<not> joined k l" using no Stop_clears calculation by blast
    ultimately show ?thesis using 1 stuck_unjoined [OF s] by (auto simp: deadlocked_def)
  next
    case (2 k)
    then have "receiver_inside (receiver_at l k)" using s(2) unfolding lock_inv_def by blast
    then show ?thesis using stuck_receiver [OF s, of k] by (auto simp: receiver_waits_def)
  next
    case 3
    then have p: "pinger_at l = P_removing" using s(2) no Ping_sweeps by (auto simp: lock_inv_def)
    then have "\<not> joined (hd (deadConns (ls_session l))) l" using no Removes by blast
    with 3 p stuck_unjoined [OF s] show ?thesis by (auto simp: deadlocked_def)
  next
    case (4 i)
    then have "adder_inside (adder_at l i)" using s(2) unfolding lock_inv_def by blast
    then obtain x where x: "adder_at l i = A_inserting x" by (cases "adder_at l i") simp_all
    then have "\<not> joined (conn_id x) l" using no Add_inserts by blast
    with 4 x stuck_unjoined [OF s] show ?thesis by (auto simp: deadlocked_def)
  qed
qed

lemma stuck_free:
  assumes s: "stuck main_route l" "lock_inv l" "apart l" and h: "holder l = None"
  shows "finished l"
proof -
  have no: "\<not> lock_step main_route l l'" for l' using s(1) by (simp add: stuck_def)
  have p: "pinger_at l = P_done"
    using no Ping_wakes [of l] Ping_locks [of l] Remove_locks [of l] s(2) h by (cases "pinger_at l") (auto simp: lock_inv_def)
  then have "owner_at l = O_returned"
    using no Stop_call [of l] Ping_joined [of l] Stop_locks [of l] s(2) h by (cases "owner_at l") (auto simp: lock_inv_def)
  moreover have "receiver_at l k = R_done" for k using stuck_receiver [OF s, of k] h by blast
  moreover have "adder_at l i = A_done" for i
    using no Add_checks [of l i] Add_locks [of l i] h inside_holds(2) [OF s(2), of i] by (cases "adder_at l i") auto
  ultimately show ?thesis using p by (simp add: finished_def)
qed

section \<open>For ever\<close>

lemma lock_run_step: "lock_run r l l1 \<Longrightarrow> lock_step r l1 l2 \<Longrightarrow> lock_run r l l2"
  by (rule rtranclp.rtrancl_into_rtrancl)

lemma run_keeps:
  assumes "lock_run route l l'" and "J l" and "\<And>l l'. lock_step route l l' \<Longrightarrow> J l \<Longrightarrow> J l'"
  shows "J l'"
  using assms by (induction rule: rtranclp_induct) blast+

text \<open>A thread holds the lock and joins a receiving thread that waits for it.\<close>

definition joins_waiting :: "lock_thread \<Rightarrow> string \<Rightarrow> lock_state \<Rightarrow> bool" where
  "joins_waiting t k l \<longleftrightarrow> lock_inv l \<and> holder l = Some t \<and> receiver_waits k l \<and>
     (t = Owner \<and> owner_at l = O_clearing \<or>
      t = Pinger \<and> pinger_at l = P_removing \<and> hd (deadConns (ls_session l)) = k)"

lemma waits_not_joined: "receiver_waits k l \<Longrightarrow> \<not> joined k l"
  by (auto simp: receiver_waits_def joined_def)

lemma lost_dead [simp]: "deadConns (connection_lost k s) = deadConns s"
  by (simp add: connection_lost_def)

lemma joins_waiting_step:
  assumes "lock_step route l l'" and j: "joins_waiting t k l"
  shows "joins_waiting t k l'"
proof -
  have inv: "lock_inv l" and h: "holder l = Some t" and t: "t = Owner \<or> t = Pinger" and w: "\<not> joined k l"
    using j waits_not_joined by (auto simp: joins_waiting_def)
  have inv': "lock_inv l'" by (rule lock_step_inv [OF assms(1) inv])
  note out = inside_holds [OF inv]
  show ?thesis using assms(1)
  proof cases
    case (Removes s')
    then show ?thesis using j w by (auto simp: joins_waiting_def lock_inv_def)
  next
    case Stop_clears
    then show ?thesis using w by blast
  next
    case (Frame_handled i f s')
    then show ?thesis using out(1) [of i] h t by auto
  next
    case (Closed_handled i)
    then show ?thesis using out(1) [of i] h t by auto
  next
    case (Closed_joins_itself i)
    then show ?thesis using out(1) [of i] h t by auto
  next
    case (Add_inserts i x)
    then show ?thesis using out(2) [of i] h t by auto
  qed (use inv' inv j in \<open>auto simp: joins_waiting_def receiver_waits_def lock_inv_def\<close>)
qed

lemma joins_waiting_forever: "joins_waiting t k l \<Longrightarrow> lock_run route l l' \<Longrightarrow> holder l' = Some t \<and> receiver_waits k l'"
  using run_keeps [where J = "joins_waiting t k", OF _ _ joins_waiting_step] by (auto simp: joins_waiting_def)

section \<open>Runs\<close>

lemma start_simps [simp]:
  "ls_session (lock_start s news) = s" "holder (lock_start s news) = None" "owner_at (lock_start s news) = O_call"
  "pinger_at (lock_start s news) = P_sleep"
  "receiver_at (lock_start s news) k = (if in_table k s then R_receiving else R_done)"
  "adder_at (lock_start s news) i = (case news i of None \<Rightarrow> A_done | Some x \<Rightarrow> A_call x)"
  by (simp_all add: lock_start_def)

text \<open>\<open>stop\<close> up to its last step, while the other threads rest.\<close>

definition stopping_all :: "lock_state \<Rightarrow> lock_state" where
  "stopping_all l = l\<lparr>pinger_at := P_done, holder := Some Owner,
     ls_session := disconnect_all ((ls_session l)\<lparr>session_running := False\<rparr>), owner_at := O_clearing\<rparr>"

lemma stopping_all_run:
  assumes "session_running (ls_session l)" and "holder l = None" and "owner_at l = O_call" and "pinger_at l = P_sleep"
  shows "lock_run route l (stopping_all l)"
proof -
  define l1 where "l1 = l\<lparr>ls_session := (ls_session l)\<lparr>session_running := False\<rparr>, owner_at := O_join_ping\<rparr>"
  define l2 where "l2 = l1\<lparr>pinger_at := P_done\<rparr>"
  define l3 where "l3 = l2\<lparr>owner_at := O_wants_lock\<rparr>"
  define l4 where "l4 = l3\<lparr>owner_at := O_disconnecting, holder := Some Owner\<rparr>"
  note ds = l1_def l2_def l3_def l4_def
  have "lock_step route l l1" using Stop_call [of l route] assms(1,3) by (simp add: ds)
  moreover have "lock_step route l1 l2" using Ping_wakes [of l1 route] assms(4) by (simp add: ds)
  moreover have "lock_step route l2 l3" unfolding l3_def by (rule Ping_joined) (simp_all add: ds)
  moreover have "lock_step route l3 l4" unfolding l4_def using assms(2) by (intro Stop_locks) (simp_all add: ds)
  moreover have "lock_step route l4 (stopping_all l)"
    using Stop_disconnects [of l4 route] by (simp add: ds stopping_all_def)
  ultimately show ?thesis by (meson rtranclp.rtrancl_refl lock_run_step)
qed

lemma stopping_all_simps [simp]:
  "owner_at (stopping_all l) = O_clearing" "holder (stopping_all l) = Some Owner"
  "receiver_at (stopping_all l) = receiver_at l" "adder_at (stopping_all l) = adder_at l"
  "in_table k (ls_session (stopping_all l)) = in_table k (ls_session l)"
  by (simp_all add: stopping_all_def)

lemma start_inv: "session_running s \<Longrightarrow> lock_inv (lock_start s news)"
  using lock_run_inv [of _ s news] by blast

lemma lock_run_keeps: "lock_run route l l' \<Longrightarrow> lock_inv l \<Longrightarrow> lock_inv l'"
  by (rule run_keeps [where J = lock_inv]) (blast intro: lock_step_inv)+

section \<open>Properties\<close>

text \<open>C14. Stopping a session can deadlock: when a frame reaches a
  connection's receiving thread while \<open>stop\<close> is under way, a state can be reached from which
  \<open>stop\<close> holds the lock for ever and joins the thread that waits for it. With the ids of
  \<open>main.cpp\<close>, however many connections there are and are being added, every state in which nothing moves
  is one where all threads have finished, or one where a thread holds the lock and joins one that waits
  for it: \<open>stop\<close>, the ping thread with a dead connection, or a thread that adds a connection under
  an id in use.\<close>

theorem stop_can_deadlock:
  assumes "session_running s" and "in_table cid s" and "takes_lock f"
  shows "(\<exists>l. lock_run route (lock_start s news) l \<and> owner_at l = O_clearing \<and> receiver_at l cid = R_frame f \<and>
      (\<forall>l'. if lock_run route l l' then holder l' = Some Owner \<and> receiver_waits cid l' else True)) \<and>
    (\<forall>l. if lock_run main_route (lock_start s news) l \<and> stuck main_route l \<and> \<not> in_table '''' s
       then finished l \<or> deadlocked l else True)"
proof
  let ?l1 = "receives cid (R_frame f) (lock_start s news)"
  have 1: "lock_step route (lock_start s news) ?l1" using assms(2,3) by (intro Recv_frame) simp_all
  have "lock_run route ?l1 (stopping_all ?l1)" using assms(1) by (intro stopping_all_run) simp_all
  with 1 have run: "lock_run route (lock_start s news) (stopping_all ?l1)" by (meson converse_rtranclp_into_rtranclp)
  have "lock_inv (stopping_all ?l1)" using lock_run_keeps [OF run start_inv [OF assms(1)]] .
  then have "joins_waiting Owner cid (stopping_all ?l1)" using assms(2) by (simp add: joins_waiting_def receiver_waits_def)
  then show "\<exists>l. lock_run route (lock_start s news) l \<and> owner_at l = O_clearing \<and> receiver_at l cid = R_frame f \<and>
      (\<forall>l'. if lock_run route l l' then holder l' = Some Owner \<and> receiver_waits cid l' else True)"
    using run joins_waiting_forever by (intro exI [of _ "stopping_all ?l1"]) simp
  show "\<forall>l. if lock_run main_route (lock_start s news) l \<and> stuck main_route l \<and> \<not> in_table '''' s
       then finished l \<or> deadlocked l else True"
    using stuck_holder stuck_free lock_run_inv [OF _ assms(1)] apart_run by metis
qed

lemma lone_in_table: "in_table ''c1'' lone_session"
  using lone_facts(4) by (simp add: in_table_def)

theorem stop_can_deadlock_witness:
  "\<exists>l. lock_run main_route (lock_start lone_session (\<lambda>i. None)) l \<and> owner_at l = O_clearing \<and> receiver_at l ''c1'' = R_frame ping_frame"
proof -
  have "takes_lock ping_frame" by (simp add: takes_lock_def ping_frame_def create_frame_str_def create_frame_def)
  from stop_can_deadlock [OF lone_facts(2) lone_in_table this, of main_route "\<lambda>i. None"] show ?thesis by blast
qed

text \<open>C22. Losing a connection can deadlock the session: when the only connection ends while the
  ping thread makes its round, the ping fails, the ping thread takes the lock to remove the connection
  and joins its receiving thread, which waits for the same lock to report the end: the ping thread
  holds the lock for ever.\<close>

theorem ping_can_deadlock:
  assumes "session_running s" and "connections s = [(cid, c0)]" and "running c0"
  shows "\<exists>l. lock_run route (lock_start s news) l \<and> receiver_at l cid = R_closed \<and>
    (\<forall>l'. if lock_run route l l' then holder l' = Some Pinger \<and> receiver_waits cid l' else True)"
proof -
  let ?s = "connection_lost cid s"
  have t: "in_table cid s" using assms(2) by (simp add: in_table_def)
  have "connections ?s = [(cid, setState DISCONNECTED (c0\<lparr>running := False\<rparr>))]"
    using assms(2) by (simp add: connection_lost_def on_connection_def)
  then have sweep: "deadConns (ping_sweep ?s) = [cid]"
    by (simp add: ping_sweep_def conn_send_str_def conn_send_def setState_def Let_def case_prod_unfold split: option.split)
  define l1 where "l1 = receives cid R_closed (lock_start s news\<lparr>ls_session := ?s\<rparr>)"
  define l2 where "l2 = l1\<lparr>pinger_at := P_wants_sweep\<rparr>"
  define l3 where "l3 = l2\<lparr>pinger_at := P_sweep, holder := Some Pinger\<rparr>"
  define l4 where "l4 = l3\<lparr>ls_session := ping_sweep ?s, holder := None, pinger_at := P_wants_remove\<rparr>"
  define l5 where "l5 = l4\<lparr>pinger_at := P_removing, holder := Some Pinger\<rparr>"
  note ds = l1_def l2_def l3_def l4_def
  have "serving cid s" using assms(2,3) by (simp add: serving_def)
  then have "lock_step route (lock_start s news) l1"
    using Recv_closed [of "lock_start s news" cid route] t by (simp add: l1_def)
  moreover have "lock_step route l1 l2" using Ping_wakes [of l1 route] assms(1) by (simp add: ds)
  moreover have "lock_step route l2 l3" unfolding l3_def by (rule Ping_locks) (simp_all add: ds)
  moreover have "lock_step route l3 l4" using Ping_sweeps [of l3 "ping_sweep ?s" route] sweep by (simp add: ds)
  moreover have "lock_step route l4 l5" unfolding l5_def by (rule Remove_locks) (simp_all add: ds)
  ultimately have run: "lock_run route (lock_start s news) l5" by (meson rtranclp.rtrancl_refl lock_run_step)
  then have "joins_waiting Pinger cid l5"
    using lock_run_keeps [OF run start_inv [OF assms(1)]] t sweep by (simp add: joins_waiting_def receiver_waits_def l5_def ds)
  then show ?thesis using run joins_waiting_forever by (intro exI [of _ l5]) (simp add: l5_def ds)
qed

theorem ping_can_deadlock_witness:
  "\<exists>l. lock_run main_route (lock_start (lone_session\<lparr>connections := [(''c1'', started)]\<rparr>) (\<lambda>i. None)) l \<and>
     receiver_at l ''c1'' = R_closed"
  using ping_can_deadlock [of "lone_session\<lparr>connections := [(''c1'', started)]\<rparr>" "''c1''" started main_route "\<lambda>i. None"]
    lone_facts(2) started_facts(2) by (auto simp: receiving_def)

text \<open>A connection can slip into a stopped session: \<open>addConnection\<close> tests the flag
  \<open>running_\<close> before it takes the lock, so a connection tested before and inserted after \<open>stop\<close> is in the
  table, started, of a session that is stopped.\<close>

theorem late_connection:
  assumes "session_running s" and "connections s = []" and "news i = Some x"
  shows "\<exists>l. lock_run route (lock_start s news) l \<and> owner_at l = O_returned \<and>
    \<not> session_running (ls_session l) \<and> in_table (conn_id x) (ls_session l)"
proof -
  have none: "\<not> in_table k s" for k using assms(2) by (simp add: in_table_def)
  define l1 where "l1 = adds i (A_checked x) (lock_start s news)"
  define l2 where "l2 = stopping_all l1"
  define l3 where "l3 = l2\<lparr>ls_session := clear_tables (ls_session l2), owner_at := O_returned, holder := None\<rparr>"
  define l4 where "l4 = adds i (A_inserting x) (l3\<lparr>holder := Some (Adder i)\<rparr>)"
  define l5 where "l5 = adds i A_done (receives (conn_id x) R_receiving
    (l4\<lparr>ls_session := insert_new x (ls_session l4), holder := None\<rparr>))"
  note ds = l1_def l2_def l3_def l4_def
  have "lock_step route (lock_start s news) l1"
    using Add_checks [of "lock_start s news" i x route] assms(1,3) by (simp add: l1_def)
  moreover have "lock_run route l1 l2" unfolding l2_def using assms(1) by (intro stopping_all_run) (simp_all add: ds)
  moreover have "lock_step route l2 l3"
    unfolding l3_def using none by (intro Stop_clears) (simp_all add: ds joined_def)
  moreover have "lock_step route l3 l4" unfolding l4_def by (rule Add_locks) (simp_all add: ds)
  moreover have "lock_step route l4 l5"
    unfolding l5_def by (rule Add_inserts) (simp_all add: ds joined_def)
  ultimately have "lock_run route (lock_start s news) l5"
    by (meson converse_rtranclp_into_rtranclp lock_run_step)
  then show ?thesis
    by (intro exI [of _ l5]) (simp add: l5_def ds stopping_all_def)
qed

definition sample_new :: new_conn where
  "sample_new = \<lparr>nc_random = None, nc_stamp = 5, nc_time = 0, nc_connection = started\<rparr>"

theorem late_connection_witness:
  "\<exists>l. lock_run main_route (lock_start (wired_session sample_config) (\<lambda>i. Some sample_new)) l \<and> owner_at l = O_returned \<and>
    \<not> session_running (ls_session l) \<and> in_table (conn_id sample_new) (ls_session l)"
  using late_connection [of "wired_session sample_config" "\<lambda>i. Some sample_new" 0 sample_new main_route]
  by (simp add: wired_session_def start_session_def setPeerEventCallback_def setMessageCallback_def new_session_def)

text \<open>The positions of a thread that found the end of its connection and has to report it.\<close>

abbreviation ending :: "receiver_pc \<Rightarrow> bool" where
  "ending p \<equiv> p \<in> {R_closed, R_closing, R_self_join}"

lemma own_id_step:
  assumes step: "lock_step route m m'" and route: "route k = k" and inv: "lock_inv m" and p: "ending (receiver_at m k)"
  shows "ending (receiver_at m' k) \<and> (holder m = Some (Receiver k) \<longrightarrow> holder m' = Some (Receiver k))"
proof -
  have nj: "\<not> joined k m" using p inv by (auto simp: joined_def lock_inv_def)
  note out = inside_holds [OF inv]
  show ?thesis using step
  proof cases
    case (Closed_handled j)
    then show ?thesis using p nj route out(1) [of j] by (cases "j = k") auto
  next
    case (Frame_handled j f s')
    then show ?thesis using p out(1) [of j] by auto
  next
    case (Add_inserts i x)
    then show ?thesis using p nj out(2) [of i] by auto
  next
    case Stop_clears
    then show ?thesis using nj by blast
  qed (use p inv in \<open>auto simp: lock_inv_def\<close>)
qed

lemma own_id_run:
  assumes "lock_run route l l'" and "lock_inv l" and "route k = k" and "ending (receiver_at l k)"
  shows "ending (receiver_at l' k) \<and> in_table k (ls_session l') \<and> (holder l = Some (Receiver k) \<longrightarrow> holder l' = Some (Receiver k))"
proof -
  have "lock_inv l' \<and> ending (receiver_at l' k) \<and> (holder l = Some (Receiver k) \<longrightarrow> holder l' = Some (Receiver k))"
    by (rule run_keeps [OF assms(1)]) (use assms own_id_step [where route = route and k = k, OF _ assms(3)] lock_step_inv in blast)+
  then show ?thesis by (auto simp: lock_inv_def)
qed



end
