(* ===== verification/Adding_Connection.thy ===== *)
theory Adding_Connection imports Session_Locks begin

text \<open>
  \<open>ChatSession::addConnection\<close> (\<open>src/chat/chat_session.cpp\<close>) cut where it releases
  \<open>connMutex_\<close>: it inserts the connection, starts it without the lock, takes the lock again for the
  greeting, and releases its own reference when it returns. The tables hold connections by
  \<open>std::shared_ptr\<close>: one that is erased from them lives on as long as \<open>addConnection\<close> refers to it, and is
  destroyed by the last of the two. Beside it run the ping thread, \<open>stop\<close>, and the connection's receiving
  thread, in any order.
\<close>

section \<open>The call and its reference\<close>

text \<open>Called; has seen that the session runs; inserted; started; greeted; returned.\<close>

datatype adding_pc = Ad_calls | Ad_checked | Ad_inserted | Ad_started | Ad_greeted | Ad_returned

text \<open>\<open>ad_last_ref\<close> is the connection when only the call refers to it any more.\<close>

record adding =
  ad_session :: session
  ad_new :: new_conn
  ad_pc :: adding_pc
  ad_last_ref :: "connection option"

abbreviation ad_id :: "adding \<Rightarrow> string" where
  "ad_id a \<equiv> conn_id (ad_new a)"

definition adding_start :: "session \<Rightarrow> new_conn \<Rightarrow> adding" where
  "adding_start s x = \<lparr>ad_session = s, ad_new = x, ad_pc = Ad_calls, ad_last_ref = None\<rparr>"

definition destroy_in :: "connection list \<Rightarrow> session \<Rightarrow> session" where
  "destroy_in cs s = s\<lparr>destroyed := destroyed s @ map conn_destroy cs\<rparr>"

text \<open>The call and the table refer to the connection.\<close>

definition shared_ref :: "adding \<Rightarrow> bool" where
  "shared_ref a \<longleftrightarrow> ad_pc a \<in> {Ad_inserted, Ad_started, Ad_greeted} \<and> ad_last_ref a = None"

text \<open>What the call does to the connection it refers to.\<close>

definition on_new :: "(connection \<Rightarrow> connection) \<Rightarrow> adding \<Rightarrow> adding" where
  "on_new f a =
     (case ad_last_ref a of
        Some c \<Rightarrow> a\<lparr>ad_last_ref := Some (f c)\<rparr>
      | None \<Rightarrow> a\<lparr>ad_session := on_connection (ad_id a) f (ad_session a)\<rparr>)"

text \<open>The turns of the call. \<open>sendHello\<close> looks the connection up in the table.\<close>

definition adding_turn :: "adding \<Rightarrow> adding" where
  "adding_turn a =
     (let s = ad_session a; x = ad_new a in
      case ad_pc a of
        Ad_calls \<Rightarrow>
          (if session_running s then a\<lparr>ad_pc := Ad_checked\<rparr>
           else a\<lparr>ad_session := destroy_in [nc_connection x] s, ad_pc := Ad_returned\<rparr>)
      | Ad_checked \<Rightarrow>
          a\<lparr>ad_session := (destroy_in (case sm_lookup (connections s) (ad_id a) of None \<Rightarrow> [] | Some c \<Rightarrow> [c]) s)
               \<lparr>connections := sm_insert (ad_id a) (nc_connection x) (connections s),
                peers := sm_insert (ad_id a) default_peer (peers s)\<rparr>,
            ad_pc := Ad_inserted\<rparr>
      | Ad_inserted \<Rightarrow> (on_new (conn_start (nc_time x)) a)\<lparr>ad_pc := Ad_started\<rparr>
      | Ad_started \<Rightarrow> a\<lparr>ad_session := sendHello (ad_id a) s, ad_pc := Ad_greeted\<rparr>
      | Ad_greeted \<Rightarrow>
          a\<lparr>ad_session := destroy_in (case ad_last_ref a of None \<Rightarrow> [] | Some c \<Rightarrow> [c]) s,
            ad_last_ref := None, ad_pc := Ad_returned\<rparr>
      | Ad_returned \<Rightarrow> a)"

text \<open>The ping thread removes the next connection it found dead.\<close>

definition ping_removes :: "adding \<Rightarrow> adding" where
  "ping_removes a =
     (let s = ad_session a; s' = fst (ping_reap s) in
      if shared_ref a \<and> deadConns s \<noteq> [] \<and> hd (deadConns s) = ad_id a
      then a\<lparr>ad_session := s'\<lparr>destroyed := destroyed s\<rparr>, ad_last_ref := sm_lookup (connections s) (ad_id a)\<rparr>
      else a\<lparr>ad_session := s'\<rparr>)"

text \<open>\<open>stop\<close> with the lock, after the ping thread has ended.\<close>

definition stop_tables :: "adding \<Rightarrow> adding" where
  "stop_tables a =
     (let s = disconnect_all (ad_session a) in
      if session_running s \<or> deadConns s \<noteq> [] then a
      else if shared_ref a then
        a\<lparr>ad_session := (destroy_in (map snd (filter (\<lambda>(j, c). j \<noteq> ad_id a) (connections s))) s)
             \<lparr>connections := [], peers := []\<rparr>,
          ad_last_ref := sm_lookup (connections s) (ad_id a)\<rparr>
      else a\<lparr>ad_session := clear_tables s\<rparr>)"

text \<open>The receiving thread finds the end of the connection, and reports it under the id of \<open>main.cpp\<close>.\<close>

definition new_lost :: "adding \<Rightarrow> adding" where
  "new_lost a =
     (if ad_pc a \<in> {Ad_started, Ad_greeted} then
        (let b = on_new (\<lambda>c. if running c then setState DISCONNECTED (c\<lparr>running := False\<rparr>) else c) a
         in b\<lparr>ad_session := fst (onDisconnect '''' (ad_session b))\<rparr>)
      else a)"

datatype adding_action = Adding_turn | Ping_sweeps | Ping_removes | Stop_clears_flag | Stop_clears_tables | New_lost

fun adding_act :: "adding_action \<Rightarrow> adding \<Rightarrow> adding" where
  "adding_act Adding_turn a = adding_turn a"
| "adding_act Ping_sweeps a = (if session_running (ad_session a) \<and> deadConns (ad_session a) = []
     then a\<lparr>ad_session := ping_sweep (ad_session a)\<rparr> else a)"
| "adding_act Ping_removes a = ping_removes a"
| "adding_act Stop_clears_flag a = a\<lparr>ad_session := (ad_session a)\<lparr>session_running := False\<rparr>\<rparr>"
| "adding_act Stop_clears_tables a = stop_tables a"
| "adding_act New_lost a = new_lost a"

section \<open>No connection is lost\<close>

text \<open>The connections in the tables, destroyed, and in the hands of the call.\<close>

definition in_hand :: "adding \<Rightarrow> nat" where
  "in_hand a = (if ad_pc a \<in> {Ad_calls, Ad_checked} then 1 else 0) + (if ad_last_ref a = None then 0 else 1)"

definition all_connections :: "adding \<Rightarrow> nat" where
  "all_connections a = length (connections (ad_session a)) + length (destroyed (ad_session a)) + in_hand a"

definition adding_inv :: "adding \<Rightarrow> bool" where
  "adding_inv a \<longleftrightarrow> sm_ok (connections (ad_session a)) \<and>
     (ad_last_ref a \<noteq> None \<longrightarrow> ad_pc a \<in> {Ad_inserted, Ad_started, Ad_greeted}) \<and>
     (shared_ref a \<longrightarrow> in_table (ad_id a) (ad_session a))"

lemma length_insert: "sm_ok m \<Longrightarrow> length (sm_insert k v m) = length m + (if sm_lookup m k = None then 1 else 0)"
proof (induction m)
  case (Cons p m)
  obtain j w where p: "p = (j, w)" by (cases p)
  have "sm_lookup m k = None" if "k < j"
    using Cons.prems that by (force simp: sm_ok_def p map_of_eq_None_iff)
  then show ?case using Cons by (auto simp: p sm_ok_def)
qed simp

lemma length_erase: "sm_ok m \<Longrightarrow> length (sm_erase k m) + (if sm_lookup m k = None then 0 else 1) = length m"
proof (induction m)
  case (Cons p m)
  obtain j w where p: "p = (j, w)" by (cases p)
  have "sm_lookup m j = None" using Cons.prems by (force simp: sm_ok_def p map_of_eq_None_iff)
  moreover have "sm_erase j m = m" if "sm_lookup m j = None"
    using that by (auto simp: sm_erase_def map_of_eq_None_iff filter_id_conv)
  ultimately show ?case using Cons by (auto simp: p sm_ok_def sm_erase_def)
qed (simp add: sm_erase_def)

text \<open>The same connections, changed perhaps.\<close>

definition same_tables :: "session \<Rightarrow> session \<Rightarrow> bool" where
  "same_tables s s' \<longleftrightarrow> map fst (connections s') = map fst (connections s) \<and> destroyed s' = destroyed s"

lemma same_tables_facts:
  assumes "same_tables s s'"
  shows "length (connections s') = length (connections s)" "destroyed s' = destroyed s"
    "sm_ok (connections s') = sm_ok (connections s)" "in_table k s' = in_table k s"
proof -
  have k: "map fst (connections s') = map fst (connections s)" using assms by (simp add: same_tables_def)
  then have "length (map fst (connections s')) = length (map fst (connections s))" by (rule arg_cong)
  then show "length (connections s') = length (connections s)" by simp
  show "in_table k s' = in_table k s" using dom_same_keys [OF k] by (simp add: in_table_def)
qed (use assms in \<open>simp_all add: same_tables_def sm_ok_def\<close>)

lemma same_on_connection: "sm_ok (connections s) \<Longrightarrow> same_tables s (on_connection k f s)"
  by (auto simp: same_tables_def on_connection_def keys_sm_insert_same split: option.split)

lemma same_disconnect_all: "same_tables s (disconnect_all s)"
  by (simp add: same_tables_def disconnect_all_def comp_def case_prod_unfold)

lemma same_sweep: "same_tables s (ping_sweep s)"
  by (simp add: same_tables_def ping_sweep_def Let_def comp_def case_prod_unfold)

text \<open>A removal under an id takes what is there into the list of the destroyed ones.\<close>

lemma disconnect_counts:
  assumes "sm_ok (connections s)"
  shows "sm_ok (connections (fst (onDisconnect k s)))"
    "length (connections (fst (onDisconnect k s))) + length (destroyed (fst (onDisconnect k s))) =
       length (connections s) + length (destroyed s)"
    "length (connections (fst (onDisconnect k s))) + (if in_table k s then 1 else 0) = length (connections s)"
  using assms length_erase [OF assms, of k]
  by (auto simp: onDisconnect_def Let_def sm_ok_erase in_table_def split: option.splits)

lemma filter_other: "sm_ok m \<Longrightarrow> length (filter (\<lambda>(j, c). j \<noteq> k) m) + (if sm_lookup m k = None then 0 else 1) = length m"
  using length_erase [of m k] by (simp add: sm_erase_def case_prod_unfold)

lemma on_new_simps [simp]:
  "ad_pc (on_new f a) = ad_pc a" "ad_new (on_new f a) = ad_new a" "ad_last_ref (on_new f a) = None \<longleftrightarrow> ad_last_ref a = None"
  by (simp_all add: on_new_def split: option.split)

lemma on_new_counts:
  assumes "adding_inv a"
  shows "same_tables (ad_session a) (ad_session (on_new f a))" "adding_inv (on_new f a)"
proof -
  show s: "same_tables (ad_session a) (ad_session (on_new f a))"
    using assms same_on_connection by (auto simp: on_new_def adding_inv_def same_tables_def split: option.split)
  show "adding_inv (on_new f a)"
    using assms same_tables_facts [OF s] by (simp add: adding_inv_def shared_ref_def)
qed

lemma turn_counts:
  assumes "adding_inv a"
  shows "adding_inv (adding_turn a) \<and> all_connections (adding_turn a) = all_connections a"
proof (cases "ad_pc a")
  case Ad_checked
  then show ?thesis using assms
    by (auto simp: adding_inv_def shared_ref_def adding_turn_def Let_def all_connections_def in_hand_def destroy_in_def
        sm_ok_insert length_insert in_table_def split: option.split)
next
  case Ad_inserted
  let ?b = "on_new (conn_start (nc_time (ad_new a))) a"
  note b = on_new_counts [OF assms, of "conn_start (nc_time (ad_new a))"]
  then show ?thesis using Ad_inserted assms same_tables_facts [OF b(1)]
    by (auto simp: adding_inv_def shared_ref_def adding_turn_def Let_def all_connections_def in_hand_def)
next
  case Ad_started
  have "same_tables (ad_session a) (sendHello (ad_id a) (ad_session a))"
    using assms unfolding sendHello_def by (intro same_on_connection) (simp add: adding_inv_def)
  from same_tables_facts [OF this] show ?thesis using Ad_started assms
    by (auto simp: adding_inv_def shared_ref_def adding_turn_def Let_def all_connections_def in_hand_def)
qed (use assms in \<open>auto simp: adding_inv_def shared_ref_def adding_turn_def Let_def all_connections_def in_hand_def
    destroy_in_def in_table_def split: option.splits\<close>)

lemma removes_counts:
  assumes "adding_inv a"
  shows "adding_inv (ping_removes a) \<and> all_connections (ping_removes a) = all_connections a"
proof (cases "deadConns (ad_session a)")
  case (Cons k ks)
  let ?s = "(ad_session a)\<lparr>deadConns := ks\<rparr>"
  have ok: "sm_ok (connections ?s)" using assms by (simp add: adding_inv_def)
  show ?thesis
  proof (cases "shared_ref a \<and> k = ad_id a")
    case True
    then have "in_table k (ad_session a)" using assms by (simp add: adding_inv_def)
    then obtain c where "sm_lookup (connections (ad_session a)) k = Some c" "in_table k ?s" by (auto simp: in_table_def)
    with disconnect_counts [OF ok, of k] True Cons assms show ?thesis
      by (simp add: ping_removes_def Let_def ping_reap_def adding_inv_def shared_ref_def all_connections_def in_hand_def)
  next
    case False
    with disconnect_counts [OF ok, of k] Cons assms show ?thesis
      by (auto simp: ping_removes_def Let_def ping_reap_def adding_inv_def shared_ref_def all_connections_def in_hand_def)
  qed
qed (use assms in \<open>simp add: ping_removes_def Let_def ping_reap_def\<close>)

lemma stop_counts:
  assumes "adding_inv a"
  shows "adding_inv (stop_tables a) \<and> all_connections (stop_tables a) = all_connections a"
proof -
  let ?s = "disconnect_all (ad_session a)"
  note s = same_tables_facts [OF same_disconnect_all [of "ad_session a"]]
  have ok: "sm_ok (connections ?s)" using assms s(3) by (simp add: adding_inv_def)
  have t: "in_table (ad_id a) ?s" if "shared_ref a" using assms that by (simp add: adding_inv_def)
  from filter_other [OF ok, of "ad_id a"] s t show ?thesis using assms
    by (auto simp: stop_tables_def Let_def adding_inv_def shared_ref_def all_connections_def in_hand_def destroy_in_def
        clear_tables_def in_table_def sm_ok_def)
qed

lemma lost_counts:
  assumes "adding_inv a"
  shows "adding_inv (new_lost a) \<and> all_connections (new_lost a) = all_connections a"
proof -
  define b where "b = on_new (\<lambda>c. if running c then setState DISCONNECTED (c\<lparr>running := False\<rparr>) else c) a"
  have b: "same_tables (ad_session a) (ad_session b)" "adding_inv b"
    unfolding b_def by (rule on_new_counts [OF assms])+
  have e: "ad_pc b = ad_pc a" "ad_new b = ad_new a" "ad_last_ref b = None \<longleftrightarrow> ad_last_ref a = None" by (simp_all add: b_def)
  have ok: "sm_ok (connections (ad_session b))" using b(2) by (simp add: adding_inv_def)
  show ?thesis using disconnect_counts [OF ok, of "''''"] same_tables_facts [OF b(1)] b(2) e assms
    unfolding new_lost_def b_def [symmetric]
    by (auto simp: Let_def adding_inv_def shared_ref_def all_connections_def in_hand_def)
qed

lemma act_counts:
  assumes "adding_inv a"
  shows "adding_inv (adding_act x a) \<and> all_connections (adding_act x a) = all_connections a"
proof (cases x)
  case Ping_sweeps
  then show ?thesis using assms same_tables_facts [OF same_sweep [of "ad_session a"]]
    by (auto simp: adding_inv_def shared_ref_def all_connections_def in_hand_def)
next
  case Stop_clears_flag
  then show ?thesis using assms by (simp add: adding_inv_def shared_ref_def all_connections_def in_hand_def)
qed (use assms turn_counts removes_counts stop_counts lost_counts in simp_all)

text \<open>What is destroyed has stopped.\<close>

abbreviation all_dead :: "session \<Rightarrow> bool" where
  "all_dead s \<equiv> list_all (\<lambda>c. \<not> running c) (destroyed s)"

lemma dead_simps [simp]:
  "all_dead (destroy_in cs s) = all_dead s" "all_dead (clear_tables s) = all_dead s" "all_dead (fst (onDisconnect k s)) = all_dead s"
  "all_dead (fst (ping_reap s)) = all_dead s" "destroyed (disconnect_all s) = destroyed s" "destroyed (ping_sweep s) = destroyed s"
proof -
  show d: "all_dead (fst (onDisconnect k s)) = all_dead s" for k s
    by (auto simp: onDisconnect_def Let_def conn_destroy_dead(1) split: option.split)
  show "all_dead (fst (ping_reap s)) = all_dead s" by (simp add: ping_reap_def d split: list.split)
qed (auto simp: destroy_in_def clear_tables_def disconnect_all_def ping_sweep_def Let_def list_all_iff conn_destroy_dead(1))

lemma act_dead: "all_dead (ad_session (adding_act x a)) = all_dead (ad_session a)"
  by (cases x) (auto simp: adding_turn_def Let_def on_new_def sendHello_def ping_removes_def stop_tables_def new_lost_def
      split: adding_pc.split option.split)

lemma schedule_counts:
  assumes "sm_ok (connections s)" and "all_dead s"
  shows "adding_inv (fold adding_act as (adding_start s x)) \<and> all_dead (ad_session (fold adding_act as (adding_start s x))) \<and>
    all_connections (fold adding_act as (adding_start s x)) = length (connections s) + length (destroyed s) + 1"
proof (induction as rule: rev_induct)
  case Nil
  then show ?case
    using assms by (simp add: adding_start_def adding_inv_def shared_ref_def all_connections_def in_hand_def)
next
  case (snoc b as)
  then show ?case using act_counts [of "fold adding_act as (adding_start s x)" b] act_dead by simp
qed

section \<open>Properties\<close>

text \<open>C20. No connection is lost or destroyed twice while it is added: in every schedule of the call with the ping
  thread, \<open>stop\<close> and the loss of the connection, the connections in the table, those destroyed and the
  one the call holds are together as many as before and the new one; every destroyed connection has
  stopped; and when \<open>addConnection\<close> has returned, the new one is in the table or destroyed.\<close>

theorem adding_accounts:
  assumes "sm_ok (connections s)" and "all_dead s"
  shows "let a = fold adding_act as (adding_start s x) in
    all_connections a = length (connections s) + length (destroyed s) + 1 \<and> all_dead (ad_session a) \<and>
    (ad_pc a = Ad_returned \<longrightarrow> in_hand a = 0)"
  using schedule_counts [OF assms, of as x] by (auto simp: Let_def adding_inv_def in_hand_def)

theorem adding_accounts_witness:
  "all_connections (fold adding_act [Adding_turn, Adding_turn, Stop_clears_flag, Stop_clears_tables, Adding_turn]
     (adding_start (wired_session sample_config) sample_new)) = 1"
  using adding_accounts [of "wired_session sample_config"
      "[Adding_turn, Adding_turn, Stop_clears_flag, Stop_clears_tables, Adding_turn]" sample_new]
  by (simp add: Let_def wired_session_def start_session_def setPeerEventCallback_def setMessageCallback_def new_session_def sm_ok_def)

text \<open>C27. A ping round can kill a connection before it is born: the connection is in the table before it is started, and
  a ping to a connection that does not run fails. When the ping thread makes its round between the
  insertion and the start, it removes the new connection; \<open>addConnection\<close> starts it all the same, greets
  nobody, and destroys it when it returns.\<close>

theorem ping_drops_new_connection:
  assumes "session_running s" and "connections s = []" and "deadConns s = []" and "\<not> running (nc_connection x)"
  shows "let a = fold adding_act [Adding_turn, Adding_turn, Ping_sweeps, Ping_removes, Adding_turn, Adding_turn, Adding_turn]
      (adding_start s x) in
    ad_pc a = Ad_returned \<and> connections (ad_session a) = [] \<and>
    destroyed (ad_session a) = destroyed s @ [conn_destroy (conn_start (nc_time x) (nc_connection x))] \<and>
    sent (last (destroyed (ad_session a))) = sent (nc_connection x)"
proof -
  let ?k = "conn_id x" and ?c = "nc_connection x"
  define s2 where "s2 = s\<lparr>connections := [(?k, ?c)], peers := sm_insert ?k default_peer (peers s)\<rparr>"
  define s4 where "s4 = (fst (onDisconnect ?k s2))\<lparr>destroyed := destroyed s\<rparr>"
  have c4: "connections s4 = []" "destroyed s4 = destroyed s"
    by (simp_all add: s4_def s2_def onDisconnect_def Let_def sm_erase_def)
  have d: "deadConns s2 = []" "session_running s2" using assms(1,3) by (simp_all add: s2_def)
  have e0: "adding_turn (adding_start s x) = \<lparr>ad_session = s, ad_new = x, ad_pc = Ad_checked, ad_last_ref = None\<rparr>"
    (is "_ = ?a1")
    using assms(1) by (simp add: adding_start_def adding_turn_def)
  have e1: "adding_turn ?a1 = \<lparr>ad_session = s2, ad_new = x, ad_pc = Ad_inserted, ad_last_ref = None\<rparr>" (is "_ = ?a2")
    using assms(2) by (simp add: adding_turn_def Let_def destroy_in_def s2_def)
  define s3 where "s3 = s2\<lparr>deadConns := [?k]\<rparr>"
  have c3: "deadConns s3 = [?k]" "destroyed s3 = destroyed s" "sm_lookup (connections s3) ?k = Some ?c"
    by (simp_all add: s3_def s2_def)
  have "conn_send_str ?c PING ''{}'' = (?c, False)"
    using assms(4) by (simp add: conn_send_str_def conn_send_def split: option.split)
  then have "ping_sweep s2 = s3" by (simp add: ping_sweep_def s2_def s3_def)
  then have e2: "adding_act Ping_sweeps ?a2 = \<lparr>ad_session = s3, ad_new = x, ad_pc = Ad_inserted, ad_last_ref = None\<rparr>"
    (is "_ = ?a3")
    using d by simp
  have "s3\<lparr>deadConns := []\<rparr> = s2" using d(1) by (cases s2) (simp add: s3_def)
  then have "fst (ping_reap s3) = fst (onDisconnect ?k s2)" using c3(1) by (simp add: ping_reap_def)
  then have e2': "ping_removes ?a3 = \<lparr>ad_session = s4, ad_new = x, ad_pc = Ad_inserted, ad_last_ref = Some ?c\<rparr>"
    (is "_ = ?a4")
    using c3 by (simp add: ping_removes_def shared_ref_def Let_def s4_def)
  let ?c1 = "conn_start (nc_time x) ?c"
  have e3: "adding_turn ?a4 = \<lparr>ad_session = s4, ad_new = x, ad_pc = Ad_started, ad_last_ref = Some ?c1\<rparr>" (is "_ = ?a5")
    by (simp add: adding_turn_def on_new_def)
  have e4: "adding_turn ?a5 = \<lparr>ad_session = s4, ad_new = x, ad_pc = Ad_greeted, ad_last_ref = Some ?c1\<rparr>" (is "_ = ?a6")
    using c4(1) by (simp add: adding_turn_def sendHello_def on_connection_def)
  have e5: "adding_turn ?a6 = \<lparr>ad_session = destroy_in [?c1] s4, ad_new = x, ad_pc = Ad_returned, ad_last_ref = None\<rparr>"
    by (simp add: adding_turn_def)
  have "sent (conn_destroy ?c1) = sent ?c"
    by simp
  moreover have "fold adding_act
      [Adding_turn, Adding_turn, Ping_sweeps, Ping_removes, Adding_turn, Adding_turn, Adding_turn] (adding_start s x) =
      \<lparr>ad_session = destroy_in [?c1] s4, ad_new = x, ad_pc = Ad_returned, ad_last_ref = None\<rparr>"
    by (simp only: fold_simps adding_act.simps(1,3) e0 e1 e2 e2' e3 e4 e5)
  ultimately show ?thesis using c4 by (simp only: Let_def) (simp add: destroy_in_def)
qed

theorem ping_drops_new_connection_witness:
  "connections (ad_session (fold adding_act
     [Adding_turn, Adding_turn, Ping_sweeps, Ping_removes, Adding_turn, Adding_turn, Adding_turn]
     (adding_start (wired_session sample_config) (sample_new\<lparr>nc_connection := started\<lparr>running := False\<rparr>\<rparr>)))) = []"
  using ping_drops_new_connection [of "wired_session sample_config" "sample_new\<lparr>nc_connection := started\<lparr>running := False\<rparr>\<rparr>"]
  by (simp add: Let_def wired_session_def start_session_def setPeerEventCallback_def setMessageCallback_def new_session_def)

end
