(* ===== verification/Tls_Credentials.thy ===== *)
theory Tls_Credentials imports Config begin

text \<open>
  The TLS credentials of a device (\<open>Crypto::generateSelfSignedCert\<close> and
  \<open>Crypto::getOrCreateTlsCredentials\<close> in \<open>src/security/crypto.cpp\<close>). OpenSSL and the
  file system are not under \<open>src/\<close>: whether each of their calls succeeds is given, and a run is
  its result, the objects of OpenSSL that are allocated and not freed when it returns, and the
  files written, in order. What the files contain is OpenSSL's.
\<close>

datatype ssl_object = Key_context | Private_key | Certificate

record cert_answers =
  context_made :: bool
  keygen_ok :: bool
  key_made :: bool
  sign_ok :: bool
  key_opens :: bool
  cert_opens :: bool

record cert_run =
  cert_result :: bool
  live_objects :: "ssl_object list"
  files_written :: "string list"

definition generateSelfSignedCert :: "cert_answers \<Rightarrow> string \<Rightarrow> string \<Rightarrow> cert_run" where
  "generateSelfSignedCert a certFile keyFile =
     (if \<not> context_made a then \<lparr>cert_result = False, live_objects = [], files_written = []\<rparr>
      else if \<not> keygen_ok a then
        \<lparr>cert_result = False, live_objects = remove1 Key_context [Key_context], files_written = []\<rparr>
      else if \<not> key_made a then
        \<lparr>cert_result = False, live_objects = remove1 Key_context [Key_context], files_written = []\<rparr>
      else
        let objects = remove1 Key_context [Key_context, Private_key] @ [Certificate]
        in if \<not> sign_ok a then
             \<lparr>cert_result = False, live_objects = remove1 Private_key (remove1 Certificate objects), files_written = []\<rparr>
           else if \<not> key_opens a then
             \<lparr>cert_result = False, live_objects = objects, files_written = []\<rparr>
           else if \<not> cert_opens a then
             \<lparr>cert_result = False, live_objects = objects, files_written = [keyFile]\<rparr>
           else
             \<lparr>cert_result = True, live_objects = remove1 Private_key (remove1 Certificate objects),
              files_written = [keyFile, certFile]\<rparr>)"

text \<open>\<open>getOrCreateTlsCredentials\<close>: the two paths, or the exception when the certificate
  could not be made; and the files that exist afterwards. An exception of
  \<open>create_directories\<close> is not caught.\<close>

datatype tls_error = Directory_failed | Runtime_error string

definition tls_failed_text :: string where
  "tls_failed_text = ''Failed to generate TLS credentials''"

definition getOrCreateTlsCredentials :: "cert_answers \<Rightarrow> bool \<Rightarrow> (string \<Rightarrow> bool) \<Rightarrow> string \<Rightarrow>
    (tls_error + string \<times> string) \<times> (string \<Rightarrow> bool)" where
  "getOrCreateTlsCredentials a dir_ok file_exists configDir =
     (let certPath = path_join configDir ''lantalk_cert.pem'';
          keyPath = path_join configDir ''lantalk_key.pem''
      in if \<not> file_exists certPath \<or> \<not> file_exists keyPath then
           (if \<not> dir_ok then (Inl Directory_failed, file_exists)
            else
              let r = generateSelfSignedCert a certPath keyPath;
                  now = (\<lambda>p. p \<in> set (files_written r) \<or> file_exists p)
              in if \<not> cert_result r then (Inl (Runtime_error tls_failed_text), now) else (Inr (certPath, keyPath), now))
         else (Inr (certPath, keyPath), file_exists))"

section \<open>Properties\<close>

text \<open>The credentials returned exist: when the function returns, it returns the certificate
  and key paths in the configuration directory and both files are there; when it raises, at least
  one was missing before. Asking again then changes nothing.\<close>

theorem credentials_exist:
  "case getOrCreateTlsCredentials a dir_ok ex d of
     (Inr (c, k), ex') \<Rightarrow> c = path_join d ''lantalk_cert.pem'' \<and> k = path_join d ''lantalk_key.pem'' \<and> ex' c \<and> ex' k \<and>
       (\<forall>a' ok'. getOrCreateTlsCredentials a' ok' ex' d = (Inr (c, k), ex'))
   | (Inl _, ex') \<Rightarrow> \<not> (ex (path_join d ''lantalk_cert.pem'') \<and> ex (path_join d ''lantalk_key.pem''))"
  by (simp add: getOrCreateTlsCredentials_def generateSelfSignedCert_def Let_def)

text \<open>Making a certificate frees what it allocated on every path but two: when the key file
  or the certificate file cannot be opened, the key and the certificate stay allocated.\<close>

theorem certificate_leaks:
  "live_objects (generateSelfSignedCert a c k) =
    (if context_made a \<and> keygen_ok a \<and> key_made a \<and> sign_ok a \<and> \<not> (key_opens a \<and> cert_opens a)
     then [Private_key, Certificate] else [])"
  by (simp add: generateSelfSignedCert_def Let_def)

end
