(* ===== verification/Terminal_UI.thy ===== *)
theory Terminal_UI imports Chat_Session begin

text \<open>
  The terminal interface (\<open>src/cli/terminal_ui.hpp\<close>, \<open>terminal_ui.cpp\<close>): what it
  prints, its commands, and the input loop. The lines the user will type are the field
  \<open>keyboard\<close>; an empty list is the end of the input. The loop is cut at the points where
  another thread can come in between (\<open>printMutex_\<close> is held during each print, the flag
  \<open>running_\<close> is atomic): \<open>ui_turn\<close> is one step of the thread in \<open>run\<close>, and a
  schedule interleaves it with the calls other threads make. A thread that waits in
  \<open>getline\<close> gets no turn.
\<close>

text \<open>Output in the order it was written: standard output, standard error, and the commands
  handed to \<open>system\<close>.\<close>

datatype console_item = Stdout string | Stderr string | Shell string

text \<open>Where the thread is in \<open>run\<close>: before the call, at the test of the loop, in
  \<open>getline\<close>, with a line, before the prompt, returned.\<close>

datatype ui_pc = Ui_idle | Ui_test | Ui_read | Ui_handle string | Ui_prompt | Ui_done

record terminal =
  ui_config :: app_config
  ui_session :: session
  ui_running :: bool
  inputPrompt :: string
  ui_os :: build_os
  is_tty :: bool
  screen :: "console_item list"
  keyboard :: "string list"
  ui_pc :: ui_pc

definition new_terminal :: "build_os \<Rightarrow> bool \<Rightarrow> app_config \<Rightarrow> session \<Rightarrow> console_item list \<Rightarrow> string list \<Rightarrow> terminal" where
  "new_terminal os tty c s out kb = \<lparr>ui_config = c, ui_session = s, ui_running = False,
     inputPrompt = ''You: '', ui_os = os, is_tty = tty, screen = out, keyboard = kb, ui_pc = Ui_idle\<rparr>"

definition supportsAnsi :: "terminal \<Rightarrow> bool" where
  "supportsAnsi t = (if ui_os t = Windows then True else is_tty t)"

abbreviation ch_cr :: char where "ch_cr \<equiv> CHR 0x0D"
abbreviation ch_esc :: char where "ch_esc \<equiv> CHR 0x1B"

section \<open>Printing\<close>

definition put :: "console_item \<Rightarrow> terminal \<Rightarrow> terminal" where
  "put o1 t = t\<lparr>screen := screen t @ [o1]\<rparr>"

definition clearLine :: "terminal \<Rightarrow> terminal" where
  "clearLine t =
     (if supportsAnsi t then put (Stdout (ch_cr # ch_esc # ''[2K'')) t
      else put (Stdout (ch_cr # replicate 80 (CHR '' '') @ [ch_cr])) t)"

definition clearInputLine :: "terminal \<Rightarrow> terminal" where
  "clearInputLine t = clearLine t"

definition redisplayInputLine :: "string \<Rightarrow> terminal \<Rightarrow> terminal" where
  "redisplayInputLine currentInput t = put (Stdout (inputPrompt t @ currentInput)) t"

definition moveCursorUp :: "int \<Rightarrow> terminal \<Rightarrow> terminal" where
  "moveCursorUp n t =
     (if supportsAnsi t then put (Stdout (ch_esc # ''['' @ int_to_string n @ ''A'')) t else t)"

definition printMessage :: "string \<Rightarrow> terminal \<Rightarrow> terminal" where
  "printMessage line t = redisplayInputLine '''' (put (Stdout (line @ [ch_nl])) (clearLine t))"

definition printInfo :: "string \<Rightarrow> terminal \<Rightarrow> terminal" where
  "printInfo line t =
     redisplayInputLine '''' (put (Stdout (''[INFO] '' @ line @ [ch_nl])) (clearLine t))"

definition printError :: "string \<Rightarrow> terminal \<Rightarrow> terminal" where
  "printError line t =
     redisplayInputLine ''''
       (put (Stdout (ch_esc # ''[31m[ERROR] '' @ line @ ch_esc # ''[0m'' @ [ch_nl])) (clearLine t))"

definition rule_line :: string where
  "rule_line = replicate 40 (CHR ''='') @ [ch_nl]"

definition printBanner :: "string \<Rightarrow> string \<Rightarrow> terminal \<Rightarrow> terminal" where
  "printBanner peerName address t =
     redisplayInputLine ''''
       (put (Stdout (rule_line @ '' LanTalk v1.0.0'' @ [ch_nl] @
              '' Connected to: '' @ peerName @ [ch_nl] @
              '' Address: '' @ address @ [ch_nl] @ rule_line)) (clearLine t))"

definition printListenBanner :: "string \<Rightarrow> terminal \<Rightarrow> terminal" where
  "printListenBanner address t =
     redisplayInputLine ''''
       (put (Stdout (rule_line @ '' LanTalk v1.0.0'' @ [ch_nl] @
              '' Listening on: '' @ address @ [ch_nl] @
              '' Waiting for peers...'' @ [ch_nl] @ rule_line)) (clearLine t))"

definition ui_stop :: "terminal \<Rightarrow> terminal" where
  "ui_stop t = t\<lparr>ui_running := False\<rparr>"

section \<open>Commands\<close>

definition help_lines :: "string list" where
  "help_lines =
     [''Available commands:'',
      ''  /help      - show available commands'',
      ''  /peers     - list connected peers with addresses'',
      ''  /info      - show local device info'',
      ''  /clear     - clear terminal screen'',
      ''  /reconnect - attempt reconnect'',
      ''  /quit, /exit - graceful disconnect and exit'']"

definition handleCommand :: "string \<Rightarrow> terminal \<Rightarrow> terminal \<times> bool" where
  "handleCommand cmd t =
     (if cmd = ''/quit'' \<or> cmd = ''/exit'' then (printInfo ''Exiting...'' t, False)
      else if cmd = ''/help'' then (fold printInfo help_lines t, True)
      else if cmd = ''/peers'' then
        (printInfo ''Connected peers (TODO: Implement listing from session)'' t, True)
      else if cmd = ''/info'' then
        (printInfo (''Display Name: '' @ displayName (ui_config t))
           (printInfo (''Device ID: '' @ deviceId (ui_config t)) t), True)
      else if cmd = ''/clear'' then
        (put (Shell (if ui_os t = Windows then ''cls'' else ''clear'')) t, True)
      else if cmd = ''/reconnect'' then (printInfo ''Attempting reconnect (TODO: Implement)'' t, True)
      else (printError (''Unknown command: '' @ cmd @ ''. Type /help for list of commands.'') t, True))"

section \<open>The input loop\<close>

text \<open>A message given to \<open>broadcast\<close>: the random bytes of its id, its time, its text.\<close>

type_synonym sent_line = "bytes option \<times> i64 \<times> string"

definition show_prompt :: "terminal \<Rightarrow> terminal" where
  "show_prompt t = put (Stdout (inputPrompt t)) t"

definition ui_return :: "terminal \<Rightarrow> terminal" where
  "ui_return t = t\<lparr>ui_running := False, ui_pc := Ui_done\<rparr>"

definition handle_line :: "bytes option \<Rightarrow> i64 \<Rightarrow> string \<Rightarrow> terminal \<Rightarrow> terminal \<times> sent_line list" where
  "handle_line rnd now line t =
     (if line = [] then (t\<lparr>ui_pc := Ui_test\<rparr>, [])
      else if hd line = CHR ''/'' then
        (case handleCommand line t of (t', cont) \<Rightarrow>
           (if \<not> cont then ui_return t' else t'\<lparr>ui_pc := Ui_prompt\<rparr>, []))
      else (t\<lparr>ui_session := broadcast rnd now line (ui_session t), ui_pc := Ui_prompt\<rparr>, [(rnd, now, line)]))"

definition ui_turn :: "bytes option \<Rightarrow> i64 \<Rightarrow> terminal \<Rightarrow> terminal \<times> sent_line list" where
  "ui_turn rnd now t =
     (case ui_pc t of
        Ui_idle \<Rightarrow> (show_prompt (t\<lparr>ui_running := True, ui_pc := Ui_test\<rparr>), [])
      | Ui_test \<Rightarrow> (if ui_running t then t\<lparr>ui_pc := Ui_read\<rparr> else ui_return t, [])
      | Ui_read \<Rightarrow>
          (case keyboard t of
             [] \<Rightarrow> (ui_return t, [])
           | line # rest \<Rightarrow> (t\<lparr>keyboard := rest, ui_pc := Ui_handle line\<rparr>, []))
      | Ui_handle line \<Rightarrow> handle_line rnd now line t
      | Ui_prompt \<Rightarrow> (show_prompt (t\<lparr>ui_pc := Ui_test\<rparr>), [])
      | Ui_done \<Rightarrow> (t, []))"

text \<open>A schedule: turns of the thread in \<open>run\<close>, and what other threads do in between: the
  calls they make on the interface, and the session as they leave it.\<close>

datatype ui_action =
    Turn "bytes option" i64
  | Call_message string
  | Call_info string
  | Call_stop
  | Session_becomes session

fun ui_act :: "ui_action \<Rightarrow> terminal \<Rightarrow> terminal \<times> sent_line list" where
  "ui_act (Turn rnd now) t = ui_turn rnd now t"
| "ui_act (Call_message line) t = (printMessage line t, [])"
| "ui_act (Call_info line) t = (printInfo line t, [])"
| "ui_act Call_stop t = (ui_stop t, [])"
| "ui_act (Session_becomes s) t = (t\<lparr>ui_session := s\<rparr>, [])"

fun ui_exec :: "ui_action list \<Rightarrow> terminal \<Rightarrow> terminal \<times> sent_line list" where
  "ui_exec [] t = (t, [])"
| "ui_exec (a # as) t =
     (case ui_act a t of (t1, w1) \<Rightarrow> case ui_exec as t1 of (t2, w2) \<Rightarrow> (t2, w1 @ w2))"

section \<open>What the operations keep\<close>

text \<open>Printing changes nothing but the screen.\<close>

lemma put_simps [simp, state_simps]:
  "ui_pc (put x t) = ui_pc t" "keyboard (put x t) = keyboard t" "ui_running (put x t) = ui_running t"
  "ui_session (put x t) = ui_session t" "inputPrompt (put x t) = inputPrompt t" "ui_config (put x t) = ui_config t"
  "screen (put x t) = screen t @ [x]"
  by (simp_all add: put_def)

lemmas print_defs = printMessage_def printInfo_def printError_def printBanner_def printListenBanner_def
  redisplayInputLine_def clearLine_def show_prompt_def

lemma print_simps [simp, state_simps]:
  "ui_pc (printMessage l t) = ui_pc t" "keyboard (printMessage l t) = keyboard t"
  "ui_running (printMessage l t) = ui_running t" "ui_session (printMessage l t) = ui_session t"
  "inputPrompt (printMessage l t) = inputPrompt t"
  "ui_pc (printInfo l t) = ui_pc t" "keyboard (printInfo l t) = keyboard t"
  "ui_running (printInfo l t) = ui_running t" "ui_session (printInfo l t) = ui_session t"
  "inputPrompt (printInfo l t) = inputPrompt t" "ui_config (printInfo l t) = ui_config t"
  "ui_pc (printError l t) = ui_pc t" "keyboard (printError l t) = keyboard t"
  "ui_running (printError l t) = ui_running t" "ui_session (printError l t) = ui_session t"
  "inputPrompt (printError l t) = inputPrompt t"
  "ui_pc (show_prompt t) = ui_pc t" "keyboard (show_prompt t) = keyboard t"
  "ui_running (show_prompt t) = ui_running t" "ui_session (show_prompt t) = ui_session t"
  "inputPrompt (show_prompt t) = inputPrompt t"
  by (simp_all add: print_defs)

lemma fold_printInfo [simp, state_simps]:
  "ui_pc (fold printInfo ls t) = ui_pc t" "keyboard (fold printInfo ls t) = keyboard t"
  "ui_running (fold printInfo ls t) = ui_running t" "ui_session (fold printInfo ls t) = ui_session t"
  "inputPrompt (fold printInfo ls t) = inputPrompt t"
  by (induction ls arbitrary: t) simp_all

lemma handleCommand_keeps [simp, state_simps]:
  "ui_pc (fst (handleCommand l t)) = ui_pc t" "keyboard (fst (handleCommand l t)) = keyboard t"
  "ui_running (fst (handleCommand l t)) = ui_running t" "ui_session (fst (handleCommand l t)) = ui_session t"
  "inputPrompt (fst (handleCommand l t)) = inputPrompt t"
  by (simp_all add: handleCommand_def)

definition quits :: "string \<Rightarrow> bool" where
  "quits l \<longleftrightarrow> l = ''/quit'' \<or> l = ''/exit''"

lemma handleCommand_exit: "snd (handleCommand l t) \<longleftrightarrow> \<not> quits l"
  by (simp add: handleCommand_def quits_def)

section \<open>The lines that are sent\<close>

text \<open>The reference: the lines up to a command to leave, without commands and empty lines.\<close>

fun chat_lines :: "string list \<Rightarrow> string list" where
  "chat_lines [] = []"
| "chat_lines (l # ls) =
     (if quits l then []
      else if l = [] \<or> hd l = CHR ''/'' then chat_lines ls
      else l # chat_lines ls)"

text \<open>What the thread would still send if nobody stopped it.\<close>

definition still_to_send :: "terminal \<Rightarrow> string list" where
  "still_to_send t =
     (case ui_pc t of
        Ui_done \<Rightarrow> []
      | Ui_handle l \<Rightarrow> chat_lines (l # keyboard t)
      | _ \<Rightarrow> chat_lines (keyboard t))"

definition texts :: "sent_line list \<Rightarrow> string list" where
  "texts w = map (\<lambda>(rnd, now, line). line) w"

lemma texts_simps [simp]: "texts [] = []" "texts (x # w) = snd (snd x) # texts w" "texts (v @ w) = texts v @ texts w"
  by (simp_all add: texts_def case_prod_unfold)

text \<open>The flag is set while the loop runs, unless somebody cleared it.\<close>

definition unstopped :: "terminal \<Rightarrow> bool" where
  "unstopped t \<longleftrightarrow> (ui_pc t \<noteq> Ui_idle \<and> ui_pc t \<noteq> Ui_done \<longrightarrow> ui_running t)"

lemma quits_slash: "quits l \<Longrightarrow> l \<noteq> [] \<and> hd l = CHR ''/''"
  by (auto simp: quits_def)

lemma line_sends:
  assumes "handle_line rnd now l t = (t', w)"
  shows "texts w @ still_to_send t' = chat_lines (l # keyboard t) \<and> (ui_running t \<longrightarrow> unstopped t')"
proof (cases "l = [] \<or> hd l \<noteq> CHR ''/''")
  case True
  then have "\<not> quits l" by (auto simp: quits_def)
  with True assms show ?thesis
    by (auto simp: handle_line_def still_to_send_def unstopped_def split: if_splits)
next
  case False
  with assms show ?thesis
    by (cases "quits l")
      (auto simp: handle_line_def still_to_send_def unstopped_def ui_return_def handleCommand_exit case_prod_unfold)
qed

lemma turn_sends:
  assumes "ui_turn rnd now t = (t', w)"
  shows "prefix (texts w @ still_to_send t') (still_to_send t)"
    and "unstopped t \<Longrightarrow> texts w @ still_to_send t' = still_to_send t \<and> unstopped t'"
proof -
  have "prefix (texts w @ still_to_send t') (still_to_send t) \<and>
      (unstopped t \<longrightarrow> texts w @ still_to_send t' = still_to_send t \<and> unstopped t')"
  proof (cases "ui_pc t")
    case (Ui_handle l)
    with assms line_sends [of rnd now l t t' w] show ?thesis
      by (simp add: ui_turn_def still_to_send_def [of t] unstopped_def [of t])
  next
    case Ui_read
    with assms show ?thesis
      by (cases "keyboard t") (auto simp: ui_turn_def still_to_send_def unstopped_def ui_return_def)
  qed (use assms in \<open>auto simp: ui_turn_def still_to_send_def unstopped_def ui_return_def\<close>)
  then show "prefix (texts w @ still_to_send t') (still_to_send t)"
    and "unstopped t \<Longrightarrow> texts w @ still_to_send t' = still_to_send t \<and> unstopped t'"
    by blast+
qed

lemma still_to_send_frame [simp]:
  "still_to_send (printMessage l t) = still_to_send t" "still_to_send (printInfo l t) = still_to_send t"
  "still_to_send (t\<lparr>ui_session := s\<rparr>) = still_to_send t" "still_to_send (ui_stop t) = still_to_send t"
  by (simp_all add: still_to_send_def ui_stop_def split: ui_pc.split)

lemma other_calls:
  assumes "a = Call_message l \<or> a = Call_info l \<or> a = Session_becomes s" and "ui_act a t = (t', w)"
  shows "w = []" "still_to_send t' = still_to_send t" "unstopped t' = unstopped t"
  using assms by (auto simp: unstopped_def)

lemma act_sends:
  assumes "ui_act a t = (t', w)"
  shows "prefix (texts w @ still_to_send t') (still_to_send t)"
    and "unstopped t \<Longrightarrow> a \<noteq> Call_stop \<Longrightarrow> texts w @ still_to_send t' = still_to_send t \<and> unstopped t'"
proof -
  have "prefix (texts w @ still_to_send t') (still_to_send t) \<and>
      (unstopped t \<and> a \<noteq> Call_stop \<longrightarrow> texts w @ still_to_send t' = still_to_send t \<and> unstopped t')"
  proof (cases a)
    case (Turn rnd now)
    with assms turn_sends [of rnd now t t' w] show ?thesis by auto
  next
    case Call_stop
    with assms show ?thesis by auto
  qed (use other_calls [OF _ assms] in auto)
  then show "prefix (texts w @ still_to_send t') (still_to_send t)"
    and "unstopped t \<Longrightarrow> a \<noteq> Call_stop \<Longrightarrow> texts w @ still_to_send t' = still_to_send t \<and> unstopped t'"
    by blast+
qed

lemma exec_sends:
  "ui_exec as t = (t', w) \<Longrightarrow> prefix (texts w @ still_to_send t') (still_to_send t)"
proof (induction as arbitrary: t w)
  case (Cons a as)
  then obtain t1 w1 w2 where 1: "ui_act a t = (t1, w1)" "ui_exec as t1 = (t', w2)" "w = w1 @ w2"
    by (auto split: prod.splits)
  from Cons.IH [OF 1(2)] act_sends(1) [OF 1(1)] show ?case
    by (auto simp: 1(3) prefix_def)
qed simp

lemma exec_sends_all:
  "ui_exec as t = (t', w) \<Longrightarrow> unstopped t \<Longrightarrow> Call_stop \<notin> set as \<Longrightarrow>
   texts w @ still_to_send t' = still_to_send t \<and> unstopped t'"
proof (induction as arbitrary: t w)
  case (Cons a as)
  then obtain t1 w1 w2 where 1: "ui_act a t = (t1, w1)" "ui_exec as t1 = (t', w2)" "w = w1 @ w2"
    by (auto split: prod.splits)
  with Cons act_sends(2) [OF 1(1)] show ?case by force
qed simp

section \<open>The loop returns\<close>

text \<open>Turns the thread needs at most: four for each line, then the steps to the end.\<close>

fun pc_steps :: "ui_pc \<Rightarrow> nat" where
  "pc_steps Ui_idle = 3"
| "pc_steps Ui_test = 2"
| "pc_steps Ui_read = 1"
| "pc_steps (Ui_handle l) = 4"
| "pc_steps Ui_prompt = 3"
| "pc_steps Ui_done = 0"

definition turns_left :: "terminal \<Rightarrow> nat" where
  "turns_left t = (if ui_pc t = Ui_done then 0 else 4 * length (keyboard t) + pc_steps (ui_pc t))"

lemma turn_decreases:
  "ui_pc t \<noteq> Ui_done \<Longrightarrow> turns_left (fst (ui_turn rnd now t)) < turns_left t"
  by (auto simp: ui_turn_def handle_line_def turns_left_def ui_return_def case_prod_unfold
      split: ui_pc.split list.split)

lemma turn_done: "ui_pc t = Ui_done \<Longrightarrow> ui_turn rnd now t = (t, [])"
  by (simp add: ui_turn_def)

definition is_turn :: "ui_action \<Rightarrow> bool" where
  "is_turn a = (case a of Turn rnd now \<Rightarrow> True | _ \<Rightarrow> False)"

lemma turns_left_0: "turns_left t = 0 \<longleftrightarrow> ui_pc t = Ui_done"
  by (cases "ui_pc t") (auto simp: turns_left_def)

interpretation ui_thread: ending_thread "\<lambda>a t. fst (ui_act a t)" is_turn "\<lambda>t. ui_pc t = Ui_done" turns_left "\<lambda>t. True"
proof
  fix t :: terminal and a
  show "turns_left (fst (ui_act a t)) < turns_left t" if "is_turn a" "ui_pc t \<noteq> Ui_done"
    using that turn_decreases by (cases a) (auto simp: is_turn_def)
  show "turns_left (fst (ui_act a t)) \<le> turns_left t"
  proof (cases a)
    case (Turn rnd now)
    then show ?thesis using turn_decreases [of t rnd now] turn_done [of t rnd now] by (cases "ui_pc t = Ui_done") auto
  qed (auto simp: turns_left_def ui_stop_def)
qed (simp_all add: turns_left_0)

lemma exec_fold: "fst (ui_exec as t) = fold (\<lambda>a t. fst (ui_act a t)) as t"
  by (induction as arbitrary: t) (simp_all add: case_prod_unfold)

lemma exec_returns:
  assumes "4 * length (keyboard t) + 4 \<le> length (filter is_turn as)"
  shows "ui_pc (fst (ui_exec as t)) = Ui_done"
proof -
  have "pc_steps (ui_pc t) \<le> 4" by (cases "ui_pc t") simp_all
  with assms have "turns_left t \<le> length (filter is_turn as)" by (simp add: turns_left_def)
  then show ?thesis unfolding exec_fold by (intro ui_thread.ends) simp_all
qed

text \<open>The thread by itself until it returns.\<close>

function ui_finish :: "bytes option \<Rightarrow> i64 \<Rightarrow> terminal \<Rightarrow> terminal" where
  "ui_finish rnd now t = (if ui_pc t = Ui_done then t else ui_finish rnd now (fst (ui_turn rnd now t)))"
  by pat_completeness auto
termination
  by (relation "measure (\<lambda>(rnd, now, t). turns_left t)") (auto simp: turn_decreases)

declare ui_finish.simps [simp del]

lemma ui_finish_done: "ui_pc (ui_finish rnd now t) = Ui_done"
  by (induction rnd now t rule: ui_finish.induct) (subst ui_finish.simps, simp)

lemma turn_keyboard: "suffix (keyboard (fst (ui_turn rnd now t))) (keyboard t)"
  by (auto simp: ui_turn_def handle_line_def ui_return_def case_prod_unfold suffix_Cons split: ui_pc.split list.split)

lemma act_keyboard: "suffix (keyboard (fst (ui_act a t))) (keyboard t)"
  using turn_keyboard by (cases a) (auto simp: ui_stop_def)

lemma exec_keyboard: "suffix (keyboard (fst (ui_exec as t))) (keyboard t)"
  by (induction as arbitrary: t) (auto simp: case_prod_unfold intro: suffix_order.trans act_keyboard)

lemma finish_keyboard: "suffix (keyboard (ui_finish rnd now t)) (keyboard t)"
proof (induction rnd now t rule: ui_finish.induct)
  case (1 rnd now t)
  then show ?case
    using turn_keyboard [of rnd now t] by (subst ui_finish.simps) (auto intro: suffix_order.trans)
qed


section \<open>The prompt\<close>

definition prompt_last :: "terminal \<Rightarrow> bool" where
  "prompt_last t \<longleftrightarrow> screen t \<noteq> [] \<and> last (screen t) = Stdout (inputPrompt t)"

lemma prints_prompt [simp]:
  "prompt_last (printMessage l t)" "prompt_last (printInfo l t)" "prompt_last (printError l t)"
  "prompt_last (printBanner n a t)" "prompt_last (printListenBanner a t)" "prompt_last (show_prompt t)"
  by (simp_all add: prompt_last_def print_defs)

lemma prompt_last_frame [simp]:
  "prompt_last (t\<lparr>ui_pc := p\<rparr>) = prompt_last t" "prompt_last (t\<lparr>ui_session := s\<rparr>) = prompt_last t"
  "prompt_last (t\<lparr>ui_running := b\<rparr>) = prompt_last t" "prompt_last (t\<lparr>keyboard := k\<rparr>) = prompt_last t"
  by (simp_all add: prompt_last_def)

lemma help_prompt: "prompt_last (fold printInfo help_lines t)"
  by (simp add: help_lines_def)

lemma quit_prompt: "quits l \<Longrightarrow> prompt_last (fst (handleCommand l t))"
  by (auto simp: handleCommand_def quits_def)

text \<open>Between two turns the prompt is the last thing written, except right before it is
  printed (after \<open>clear\<close> the screen is empty) and before \<open>run\<close>.\<close>

definition prompt_inv :: "terminal \<Rightarrow> bool" where
  "prompt_inv t \<longleftrightarrow> ui_pc t = Ui_idle \<or> ui_pc t = Ui_prompt \<or> prompt_last t"

lemma line_prompt:
  "prompt_last t \<Longrightarrow> ui_pc t = Ui_handle l' \<Longrightarrow> prompt_inv (fst (handle_line rnd now l t))"
  using quit_prompt [of l t]
  by (auto simp: handle_line_def prompt_inv_def ui_return_def handleCommand_exit case_prod_unfold)

lemma turn_prompt: "prompt_inv t \<Longrightarrow> prompt_inv (fst (ui_turn rnd now t))"
proof (cases "ui_pc t")
  case (Ui_handle l)
  moreover assume "prompt_inv t"
  ultimately show ?thesis using line_prompt [of t l rnd now l] by (simp add: ui_turn_def prompt_inv_def)
qed (auto simp: ui_turn_def prompt_inv_def ui_return_def split: list.split)

lemma act_prompt: "prompt_inv t \<Longrightarrow> prompt_inv (fst (ui_act a t))"
  using turn_prompt by (cases a) (auto simp: prompt_inv_def ui_stop_def)

lemma exec_prompt: "prompt_inv t \<Longrightarrow> prompt_inv (fst (ui_exec as t))"
  by (induction as arbitrary: t) (simp_all add: case_prod_unfold act_prompt)

section \<open>Stopping\<close>

lemma others_wait:
  "\<not> list_ex is_turn as \<Longrightarrow>
   ui_pc (fst (ui_exec as t)) = ui_pc t \<and> keyboard (fst (ui_exec as t)) = keyboard t \<and> snd (ui_exec as t) = []"
proof (induction as arbitrary: t)
  case (Cons a as)
  then show ?case
    by (cases a) (auto simp: is_turn_def case_prod_unfold ui_stop_def)
qed simp

lemma exec_append: "ui_exec (as @ bs) t =
   (case ui_exec as t of (t1, w1) \<Rightarrow> case ui_exec bs t1 of (t2, w2) \<Rightarrow> (t2, w1 @ w2))"
  by (induction as arbitrary: t) (simp_all add: case_prod_unfold)

section \<open>Properties\<close>

text \<open>The input loop returns: whatever other threads do in between, the thread in
  \<open>run\<close> has returned after four turns for each line of the input and four more, however the
  loop ends (end of input, a command to leave, a cleared flag).\<close>

theorem ui_run_returns:
  assumes "4 * length (keyboard t) + 4 \<le> length (filter is_turn as)"
  shows "ui_pc (fst (ui_exec as t)) = Ui_done"
  using assms by (rule exec_returns)

definition sample_terminal :: "string list \<Rightarrow> terminal" where
  "sample_terminal kb = new_terminal Linux True default_config (new_session default_config) [] kb"

theorem ui_run_returns_witness:
  "ui_pc (fst (ui_exec (Call_stop # replicate 12 (Turn None 0)) (sample_terminal [''hello'', ''/quit'']))) = Ui_done"
  by (rule ui_run_returns) (simp add: sample_terminal_def new_terminal_def is_turn_def)

text \<open>C25. What the user types is sent exactly: in every schedule the texts given to
  \<open>broadcast\<close> are, in order and once each, a beginning of the lines typed that are not empty
  and not commands, up to a command to leave; they are all of them when the loop has returned
  and nobody called \<open>stop\<close>.\<close>

theorem ui_sends_lines:
  assumes "ui_exec as t = (t', w)" and "ui_pc t = Ui_idle"
  shows "prefix (texts w) (chat_lines (keyboard t)) \<and>
    (if Call_stop \<notin> set as \<and> ui_pc t' = Ui_done then texts w = chat_lines (keyboard t) else True)"
proof -
  have "still_to_send t = chat_lines (keyboard t)" "unstopped t"
    using assms(2) by (simp_all add: still_to_send_def unstopped_def)
  with exec_sends [OF assms(1)] exec_sends_all [OF assms(1) \<open>unstopped t\<close>] show ?thesis
    by (auto simp: prefix_def still_to_send_def)
qed

lemma sample_terminal_simps [simp]:
  "ui_pc (sample_terminal kb) = Ui_idle" "keyboard (sample_terminal kb) = kb"
  by (simp_all add: sample_terminal_def new_terminal_def)

theorem ui_sends_lines_witness:
  "texts (snd (ui_exec (Call_info ''x'' # replicate 28 (Turn None 0))
     (sample_terminal [''hi'', '''', ''/info'', ''bye'', ''/quit'', ''late'']))) = [''hi'', ''bye'']"
proof -
  let ?as = "Call_info ''x'' # replicate 28 (Turn None 0)"
  let ?t = "sample_terminal [''hi'', '''', ''/info'', ''bye'', ''/quit'', ''late'']"
  have "ui_pc (fst (ui_exec ?as ?t)) = Ui_done" by (rule exec_returns) (simp add: is_turn_def)
  moreover have "Call_stop \<notin> set ?as" by simp
  moreover have "chat_lines (keyboard ?t) = [''hi'', ''bye'']" by (simp add: quits_def)
  ultimately show ?thesis
    using ui_sends_lines [of ?as ?t "fst (ui_exec ?as ?t)" "snd (ui_exec ?as ?t)"] by (simp del: ui_exec.simps)
qed

text \<open>While the user can type, the prompt is the last thing on the screen, whatever
  other threads printed in between: every print ends by showing it again.\<close>

theorem prompt_redisplayed:
  assumes "ui_exec as (new_terminal os tty c s out kb) = (t, w)" and "ui_pc t = Ui_read"
  shows "screen t \<noteq> [] \<and> last (screen t) = Stdout ''You: ''"
proof -
  have "prompt_inv (new_terminal os tty c s out kb)" by (simp add: prompt_inv_def new_terminal_def)
  from exec_prompt [OF this, of as] assms have "prompt_last t" by (simp add: prompt_inv_def)
  moreover have "inputPrompt (fst (ui_exec as t0)) = inputPrompt t0" for t0
  proof (induction as arbitrary: t0)
    case (Cons a as)
    moreover have "inputPrompt (fst (ui_act a t0)) = inputPrompt t0"
      by (cases a) (auto simp: ui_turn_def handle_line_def ui_return_def ui_stop_def case_prod_unfold
        split: ui_pc.split list.split)
    ultimately show ?case by (simp add: case_prod_unfold)
  qed simp
  from this [of "new_terminal os tty c s out kb"] have "inputPrompt t = ''You: ''"
    using assms(1) by (simp add: new_terminal_def)
  ultimately show ?thesis by (simp add: prompt_last_def)
qed

theorem prompt_redisplayed_witness:
  "last (screen (fst (ui_exec [Turn None 0, Turn None 0, Call_info ''Bob connected'']
     (new_terminal Linux True default_config (new_session default_config) [] [])))) = Stdout ''You: ''"
proof -
  let ?as = "[Turn None 0, Turn None 0, Call_info ''Bob connected'']"
  let ?t = "new_terminal Linux True default_config (new_session default_config) [] []"
  have "ui_pc (fst (ui_exec ?as ?t)) = Ui_read" by (simp add: new_terminal_def ui_turn_def)
  with prompt_redisplayed [of ?as Linux True default_config "new_session default_config" "[]" "[]"
      "fst (ui_exec ?as ?t)" "snd (ui_exec ?as ?t)"]
  show ?thesis by (simp del: ui_exec.simps)
qed

text \<open>A stop while the user is at the prompt does not end the input: as long as no line is
  typed the thread stays in \<open>getline\<close>, and the next line, if it is a text, is still sent
  before the loop ends.\<close>

theorem stop_waits_for_line:
  assumes "ui_pc t = Ui_read" and "keyboard t = l # ls" and "l \<noteq> []" and "hd l \<noteq> CHR ''/''"
    and "\<not> list_ex is_turn others"
  shows "ui_pc (fst (ui_exec (Call_stop # others) t)) = Ui_read \<and>
    texts (snd (ui_exec (Call_stop # others @ [Turn r n, Turn r' n']) t)) = [l]"
proof -
  have w: "ui_pc (fst (ui_exec others (ui_stop t))) = Ui_read" "keyboard (fst (ui_exec others (ui_stop t))) = l # ls"
    "snd (ui_exec others (ui_stop t)) = []"
    using others_wait [OF assms(5), of "ui_stop t"] assms(1,2) by (simp_all add: ui_stop_def)
  with assms(3,4) show ?thesis
    by (simp add: exec_append case_prod_unfold ui_turn_def handle_line_def)
qed

theorem stop_waits_for_line_witness:
  "texts (snd (ui_exec [Call_stop, Call_info ''Disconnected'', Turn None 0, Turn None 0]
     (sample_terminal [''still there?'']\<lparr>ui_pc := Ui_read, ui_running := True\<rparr>))) = [''still there?'']"
  using stop_waits_for_line [of "sample_terminal [''still there?'']\<lparr>ui_pc := Ui_read, ui_running := True\<rparr>"
      "''still there?''" "[]" "[Call_info ''Disconnected'']" None 0 None 0]
  by (simp add: is_turn_def del: ui_exec.simps)

text \<open>A stop that comes before \<open>run\<close> is lost: \<open>run\<close> sets the flag again.\<close>

lemma early_stop_lost:
  "ui_pc t = Ui_idle \<Longrightarrow> ui_running (fst (ui_exec [Call_stop, Turn r n] t))"
  by (simp add: ui_turn_def ui_stop_def)

end
