(* ===== verification/Socket_Options.thy ===== *)
theory Socket_Options imports Tcp_Socket Protocol "HOL-Library.Signed_Division" begin

text \<open>
  The rest of \<open>TcpSocket\<close> (\<open>src/network/tcp_socket.cpp\<close>): blocking mode, options,
  timeouts and address queries. The system calls are not under \<open>src/\<close>; a setter is the
  list of calls it makes, a query a function of the system's answer. File status flags are
  words; the bit \<open>O_NONBLOCK\<close>, a constant of the platform, is an argument.
\<close>

datatype sock_option = SO_KEEPALIVE | TCP_NODELAY | SO_RCVBUF | SO_RCVTIMEO | SO_SNDTIMEO | SO_REUSEADDR | SO_REUSEPORT

datatype socket_call =
    Set_int socket_handle sock_option int
  | Set_timeval socket_handle sock_option int int

definition new_socket :: "socket_handle \<Rightarrow> tcp_socket" where
  "new_socket h = \<lparr>handle = h, kernel = [], wire = []\<rparr>"

definition initializeSockets :: "bool \<Rightarrow> bool \<Rightarrow> bool" where
  "initializeSockets windows startup_ok = (if windows then startup_ok else True)"

text \<open>\<open>setBlocking\<close>: the descriptor's flags before and after. The flags are \<open>-1\<close> when
  \<open>F_GETFL\<close> fails.\<close>

definition setBlocking :: "i32 \<Rightarrow> tcp_socket \<Rightarrow> bool \<Rightarrow> i32 \<Rightarrow> i32" where
  "setBlocking o_nonblock s blocking fl =
     (if \<not> isValid s then fl
      else if fl = -1 then fl
      else if blocking then fl AND NOT o_nonblock
      else fl OR o_nonblock)"

definition applySocketOption :: "tcp_socket \<Rightarrow> sock_option \<Rightarrow> int \<Rightarrow> socket_call list" where
  "applySocketOption s opt value = (if \<not> isValid s then [] else [Set_int (handle s) opt value])"

text \<open>\<open>timeval\<close> from milliseconds; division and remainder truncate.\<close>

definition tv_sec :: "int \<Rightarrow> int" where
  "tv_sec ms = ms sdiv 1000"

definition tv_usec :: "int \<Rightarrow> int" where
  "tv_usec ms = (ms smod 1000) * 1000"

definition setReceiveTimeout :: "tcp_socket \<Rightarrow> int \<Rightarrow> socket_call list" where
  "setReceiveTimeout s ms =
     (if \<not> isValid s then [] else [Set_timeval (handle s) SO_RCVTIMEO (tv_sec ms) (tv_usec ms)])"

definition setSendTimeout :: "tcp_socket \<Rightarrow> int \<Rightarrow> socket_call list" where
  "setSendTimeout s ms =
     (if \<not> isValid s then [] else [Set_timeval (handle s) SO_SNDTIMEO (tv_sec ms) (tv_usec ms)])"

definition setKeepAlive :: "tcp_socket \<Rightarrow> bool \<Rightarrow> socket_call list" where
  "setKeepAlive s enable = applySocketOption s SO_KEEPALIVE (if enable then 1 else 0)"

definition setNoDelay :: "tcp_socket \<Rightarrow> bool \<Rightarrow> socket_call list" where
  "setNoDelay s enable = applySocketOption s TCP_NODELAY (if enable then 1 else 0)"

definition setReceiveBufferSize :: "tcp_socket \<Rightarrow> int \<Rightarrow> socket_call list" where
  "setReceiveBufferSize s n = applySocketOption s SO_RCVBUF n"

text \<open>The answer of \<open>getsockname\<close> and \<open>getpeername\<close>: the address as \<open>inet_ntop\<close> prints
  it and the two bytes of the port in network order, or a failure.\<close>

type_synonym name_answer = "(string \<times> u8 \<times> u8) option"

definition name_address :: "tcp_socket \<Rightarrow> name_answer \<Rightarrow> string" where
  "name_address s a = (if \<not> isValid s then '''' else case a of Some (ip, _, _) \<Rightarrow> ip | None \<Rightarrow> '''')"

definition name_port :: "tcp_socket \<Rightarrow> name_answer \<Rightarrow> u16" where
  "name_port s a = (if \<not> isValid s then 0 else case a of Some (_, hi, lo) \<Rightarrow> un_be16 hi lo | None \<Rightarrow> 0)"

definition localAddress :: "tcp_socket \<Rightarrow> name_answer \<Rightarrow> string" where
  "localAddress = name_address"

definition localPort :: "tcp_socket \<Rightarrow> name_answer \<Rightarrow> u16" where
  "localPort = name_port"

definition socket_remoteAddress :: "tcp_socket \<Rightarrow> name_answer \<Rightarrow> string" where
  "socket_remoteAddress = name_address"

definition remotePort :: "tcp_socket \<Rightarrow> name_answer \<Rightarrow> u16" where
  "remotePort = name_port"

section \<open>Facts\<close>

lemma new_socket_valid [simp]: "isValid (new_socket h) \<longleftrightarrow> h \<noteq> kInvalidSocket"
  by (simp add: new_socket_def isValid_def)

lemma new_socket_handle [simp]: "handle (new_socket h) = h"
  by (simp add: new_socket_def)

lemma close_new [simp]: "snd (close (new_socket h)) = (if h = kInvalidSocket then [] else [h])"
  by (simp add: close_def isValid_def new_socket_def)

text \<open>Making a socket non-blocking and blocking again clears the bit and touches no other.\<close>

lemma blocking_restored:
  assumes "isValid s" and "fl \<noteq> -1" and "fl OR nb \<noteq> -1"
  shows "setBlocking nb s True (setBlocking nb s False fl) = fl AND NOT nb"
  using assms by (auto simp: setBlocking_def bit_eq_iff bit_simps)

lemma port_network_order:
  "isValid s \<Longrightarrow> be16 p = [hi, lo] \<Longrightarrow> name_port s (Some (ip, hi, lo)) = p"
  using un_be16_be16 [of p] by (simp add: name_port_def be16_def)

section \<open>Properties\<close>

text \<open>A timeout that is not negative is passed on exactly: seconds and microseconds make up
  the milliseconds, and the microseconds stay below a second.\<close>

theorem timeout_exact:
  assumes "0 \<le> ms"
  shows "1000000 * tv_sec ms + tv_usec ms = 1000 * ms \<and> 0 \<le> tv_usec ms \<and> tv_usec ms < 1000000"
proof -
  have "tv_sec ms = ms div 1000" "tv_usec ms = (ms mod 1000) * 1000"
    using assms by (simp_all add: tv_sec_def tv_usec_def signed_divide_int_def signed_modulo_int_def sgn_if)
  moreover have "1000 * (ms div 1000) + ms mod 1000 = ms" by simp
  moreover have "0 \<le> ms mod 1000" "ms mod 1000 < 1000" by simp_all
  ultimately show ?thesis by linarith
qed

theorem timeout_exact_witness: "1000000 * tv_sec 2500 + tv_usec 2500 = 2500000"
  using timeout_exact [of 2500] by simp

end
