(* ===== verification/Tcp_Endpoints.thy ===== *)
theory Tcp_Endpoints imports Socket_Options "HOL-Library.Multiset" begin

text \<open>
  The two ends of a connection. The server (\<open>src/network/tcp_server.hpp\<close>,
  \<open>tcp_server.cpp\<close>) owns the listening socket and a thread that accepts; every accepted
  socket is handed to the callback in a thread of its own. The thread is cut before each test
  of \<open>running_\<close> and at \<open>::accept\<close>, and \<open>stop\<close> between closing the socket and
  joining. The client (\<open>tcp_client.hpp\<close>, \<open>tcp_client.cpp\<close>) is one function of the
  answers of the system. Which descriptors were opened, closed and handed over is kept in
  fields no code reads; so are the options set on the listening socket.
\<close>

section \<open>The server\<close>

text \<open>The accept thread: no thread, at the test of the loop, in \<open>::accept\<close> on a
  descriptor, returned but not joined.\<close>

datatype accept_pc = No_thread | At_loop | In_accept socket_handle | Loop_ended

record server =
  srv_port :: u16
  has_onAccept :: bool
  listenSocket :: tcp_socket
  srv_running :: bool
  accept_pc :: accept_pc
  stopping :: bool
  pending :: "socket_handle list"
  given :: "socket_handle list"
  opened :: "socket_handle list"
  closed :: "socket_handle list"
  srv_errors :: "string list"
  srv_calls :: "socket_call list"

definition new_server :: "u16 \<Rightarrow> bool \<Rightarrow> server" where
  "new_server port cb = \<lparr>srv_port = port, has_onAccept = cb, listenSocket = new_socket kInvalidSocket,
     srv_running = False, accept_pc = No_thread, stopping = False, pending = [], given = [],
     opened = [], closed = [], srv_errors = [], srv_calls = []\<rparr>"

text \<open>The system the server is built for, and the answers to \<open>socket\<close>, \<open>bind\<close> on the
  port, and \<open>listen\<close>.\<close>

record listen_answers =
  on_linux :: bool
  socket_answer :: socket_handle
  bind_ok :: "u16 \<Rightarrow> bool"
  listen_ok :: bool

definition close_listen :: "server \<Rightarrow> server" where
  "close_listen s =
     (case close (listenSocket s) of (l, cl) \<Rightarrow> s\<lparr>listenSocket := l, closed := closed s @ cl\<rparr>)"

definition start_server :: "listen_answers \<Rightarrow> server \<Rightarrow> server \<times> bool" where
  "start_server a s =
     (if srv_running s then (s, True)
      else
        let h = socket_answer a
        in if h = kInvalidSocket then (s, False)
           else
             case move_assign False (listenSocket s) (new_socket h) of (l, _, cl) \<Rightarrow>
               let s1 = s\<lparr>listenSocket := l, opened := opened s @ [h], closed := closed s @ cl,
                 srv_calls := srv_calls s @ [Set_int h SO_REUSEADDR 1] @
                   (if on_linux a then [Set_int h SO_REUSEPORT 1] else [])\<rparr>
               in if \<not> bind_ok a (srv_port s1) then (close_listen s1, False)
                  else if \<not> listen_ok a then (close_listen s1, False)
                  else (s1\<lparr>srv_running := True, accept_pc := At_loop\<rparr>, True))"

text \<open>\<open>stop\<close> up to the join. The thread that calls it waits, if it cleared the flag, until
  the accept thread has returned.\<close>

definition stop_begin :: "server \<Rightarrow> server" where
  "stop_begin s =
     (if srv_running s then (close_listen (s\<lparr>srv_running := False\<rparr>))\<lparr>stopping := True\<rparr> else s)"

definition stop_join :: "server \<Rightarrow> server" where
  "stop_join s = s\<lparr>stopping := False, accept_pc := No_thread\<rparr>"

definition isRunning :: "server \<Rightarrow> bool" where
  "isRunning s = srv_running s"

definition boundAddress :: "server \<Rightarrow> name_answer \<Rightarrow> string" where
  "boundAddress s a = localAddress (listenSocket s) a"

text \<open>The answers of \<open>::accept\<close>.\<close>

datatype accept_answer = Client socket_handle | Accept_interrupted | Accept_failed string

definition accept_returns :: "accept_answer \<Rightarrow> server \<Rightarrow> server" where
  "accept_returns a s =
     (case a of
        Accept_interrupted \<Rightarrow> s\<lparr>accept_pc := At_loop\<rparr>
      | Accept_failed msg \<Rightarrow>
          (if srv_running s then s\<lparr>srv_errors := srv_errors s @ [''Accept error: '' @ msg]\<rparr> else s)
             \<lparr>accept_pc := Loop_ended\<rparr>
      | Client fd \<Rightarrow>
          (if srv_running s \<and> has_onAccept s then s\<lparr>pending := pending s @ [fd]\<rparr>
           else s\<lparr>closed := closed s @ [fd]\<rparr>)\<lparr>opened := opened s @ [fd], accept_pc := At_loop\<rparr>)"

definition accept_turn :: "accept_answer \<Rightarrow> server \<Rightarrow> server" where
  "accept_turn a s =
     (case accept_pc s of
        At_loop \<Rightarrow>
          (if srv_running s then s\<lparr>accept_pc := In_accept (handle (listenSocket s))\<rparr>
           else s\<lparr>accept_pc := Loop_ended\<rparr>)
      | In_accept h \<Rightarrow> accept_returns a s
      | _ \<Rightarrow> s)"

text \<open>The detached thread of a client runs the callback.\<close>

definition run_callback :: "nat \<Rightarrow> server \<Rightarrow> server" where
  "run_callback i s =
     (if i < length (pending s)
      then s\<lparr>pending := take i (pending s) @ drop (Suc i) (pending s), given := given s @ [pending s ! i]\<rparr>
      else s)"

text \<open>One step of one of the threads. The owner of the server calls \<open>start\<close> and
  \<open>stop\<close>; its join returns when the accept thread is not running.\<close>

inductive server_step :: "server \<Rightarrow> server \<Rightarrow> bool" where
  Start: "\<not> stopping s \<Longrightarrow> server_step s (fst (start_server a s))"
| Stop: "\<not> stopping s \<Longrightarrow> server_step s (stop_begin s)"
| Join: "stopping s \<Longrightarrow> accept_pc s = Loop_ended \<or> accept_pc s = No_thread \<Longrightarrow> server_step s (stop_join s)"
| Accept: "server_step s (accept_turn a s)"
| Callback: "server_step s (run_callback i s)"

inductive server_reach :: "server \<Rightarrow> server \<Rightarrow> bool" for s0 where
  Init: "server_reach s0 s0"
| Step: "server_reach s0 s \<Longrightarrow> server_step s s' \<Longrightarrow> server_reach s0 s'"

section \<open>The client\<close>

text \<open>What the system answers: the first IPv4 address of a host name, a descriptor, its
  flags, the outcome of \<open>::connect\<close> to an address and port, the result of \<open>select\<close>
  within a time, and the value of \<open>SO_ERROR\<close>.\<close>

datatype connect_answer = Connects | In_progress | Connect_fails

record connect_answers =
  addrinfo :: "string \<Rightarrow> string option"
  client_socket :: socket_handle
  client_flags :: i32
  connect_to :: "string \<Rightarrow> u16 \<Rightarrow> connect_answer"
  select_result :: "int \<Rightarrow> int"
  so_error :: int
  error_text :: string

definition resolveHostname :: "connect_answers \<Rightarrow> string \<Rightarrow> string option" where
  "resolveHostname a host = addrinfo a host"

text \<open>\<open>TcpClient::connect\<close>: the message of the \<open>ConnectError\<close>, or the socket with the
  flags its descriptor has; and the descriptors closed on the way out, when the pointer to the
  socket goes out of scope.\<close>

definition wait_connected :: "connect_answers \<Rightarrow> int \<Rightarrow> string option" where
  "wait_connected a timeout =
     (let res = select_result a timeout in
      if res \<le> 0 then Some (if res = 0 then ''Connection timed out'' else ''Select error'')
      else if so_error a \<noteq> 0 then Some ''Connection refused''
      else None)"

definition tcp_connect :: "i32 \<Rightarrow> connect_answers \<Rightarrow> string \<Rightarrow> u16 \<Rightarrow> int \<Rightarrow>
    (string + tcp_socket \<times> i32) \<times> socket_handle list" where
  "tcp_connect o_nonblock a host port timeout =
     (case resolveHostname a host of
        None \<Rightarrow> (Inl (''Failed to resolve hostname: '' @ host), [])
      | Some resolvedIp \<Rightarrow>
          let h = client_socket a in
          if h = kInvalidSocket then (Inl (''Failed to create socket: '' @ error_text a), [])
          else
            let socket = new_socket h;
                fl = setBlocking o_nonblock socket False (client_flags a);
                failure =
                  (case connect_to a resolvedIp port of
                     Connects \<Rightarrow> None
                   | Connect_fails \<Rightarrow> Some (''Connect error: '' @ error_text a)
                   | In_progress \<Rightarrow> wait_connected a timeout)
            in case failure of
                 Some msg \<Rightarrow> (Inl msg, snd (close socket))
               | None \<Rightarrow> (Inr (socket, setBlocking o_nonblock socket True fl), []))"

section \<open>The invariant of the server\<close>

text \<open>The flag, the socket and the thread go together: a running server listens, a stopped
  one has no socket, and a thread exists exactly while it runs or is being stopped.\<close>

definition server_inv :: "server \<Rightarrow> bool" where
  "server_inv s \<longleftrightarrow> isValid (listenSocket s) = srv_running s \<and>
     (accept_pc s \<noteq> No_thread \<longleftrightarrow> srv_running s \<or> stopping s) \<and> (stopping s \<longrightarrow> \<not> srv_running s)"

text \<open>Every descriptor the system gave out is closed, handed over, waiting for its callback,
  or listened on, exactly once.\<close>

definition accounted :: "server \<Rightarrow> bool" where
  "accounted s \<longleftrightarrow> mset (opened s) = mset (closed s) + mset (pending s) + mset (given s) +
     (if isValid (listenSocket s) then {#handle (listenSocket s)#} else {#})"

lemmas server_ok_defs = server_inv_def accounted_def

lemma close_listen_simps [simp, state_simps]:
  "srv_running (close_listen s) = srv_running s" "accept_pc (close_listen s) = accept_pc s"
  "stopping (close_listen s) = stopping s" "pending (close_listen s) = pending s" "given (close_listen s) = given s"
  "opened (close_listen s) = opened s" "\<not> isValid (listenSocket (close_listen s))"
  "has_onAccept (close_listen s) = has_onAccept s"
  "closed (close_listen s) = closed s @ (if isValid (listenSocket s) then [handle (listenSocket s)] else [])"
  by (simp_all add: close_listen_def close_def isValid_def)

lemma start_ok:
  assumes "server_inv s" and "accounted s" and "\<not> stopping s"
  shows "server_inv (fst (start_server a s)) \<and> accounted (fst (start_server a s))"
  using assms
  by (auto simp: start_server_def move_assign_def close_def server_ok_defs Let_def split: prod.split)

lemma stop_begin_ok:
  "server_inv s \<Longrightarrow> accounted s \<Longrightarrow> server_inv (stop_begin s) \<and> accounted (stop_begin s)"
  by (auto simp: stop_begin_def server_ok_defs)

lemma stop_join_ok:
  "server_inv s \<Longrightarrow> accounted s \<Longrightarrow> stopping s \<Longrightarrow> server_inv (stop_join s) \<and> accounted (stop_join s)"
  by (auto simp: stop_join_def server_ok_defs)

lemma accept_ok:
  "server_inv s \<Longrightarrow> accounted s \<Longrightarrow> server_inv (accept_turn a s) \<and> accounted (accept_turn a s)"
  by (cases a; cases "accept_pc s") (auto simp: accept_turn_def accept_returns_def server_ok_defs)

lemma mset_remove_nth:
  "i < length xs \<Longrightarrow> mset xs = add_mset (xs ! i) (mset (take i xs @ drop (Suc i) xs))"
  by (metis id_take_nth_drop mset_append mset.simps(2) union_mset_add_mset_right)

lemma callback_ok:
  "server_inv s \<Longrightarrow> accounted s \<Longrightarrow> server_inv (run_callback i s) \<and> accounted (run_callback i s)"
  using mset_remove_nth [of i "pending s"] by (auto simp: run_callback_def server_ok_defs)

lemma step_ok:
  "server_step s s' \<Longrightarrow> server_inv s \<and> accounted s \<Longrightarrow> server_inv s' \<and> accounted s'"
  by (induction rule: server_step.induct) (simp_all add: start_ok stop_begin_ok stop_join_ok accept_ok callback_ok)

lemma reach_ok:
  "server_reach (new_server port cb) s \<Longrightarrow> server_inv s \<and> accounted s"
proof (induction rule: server_reach.induct)
  case Init
  show ?case by (simp add: server_ok_defs new_server_def)
next
  case (Step s s')
  then show ?case using step_ok by blast
qed

section \<open>The accept thread ends\<close>

text \<open>While the server stops: turns of its thread, and callbacks that run.\<close>

datatype stop_action = Accept_turn accept_answer | Callback_runs nat

fun stop_act :: "stop_action \<Rightarrow> server \<Rightarrow> server" where
  "stop_act (Accept_turn x) s = accept_turn x s"
| "stop_act (Callback_runs i) s = run_callback i s"

definition is_accept_turn :: "stop_action \<Rightarrow> bool" where
  "is_accept_turn a = (case a of Accept_turn x \<Rightarrow> True | _ \<Rightarrow> False)"

fun accept_left :: "accept_pc \<Rightarrow> nat" where
  "accept_left (In_accept h) = 2"
| "accept_left At_loop = 1"
| "accept_left _ = 0"

lemma run_callback_simps [simp]:
  "srv_running (run_callback i s) = srv_running s" "accept_pc (run_callback i s) = accept_pc s"
  "length (pending (run_callback i s)) \<le> length (pending s)" "closed (run_callback i s) = closed s"
  by (auto simp: run_callback_def)

lemma accept_turn_stopped:
  assumes "\<not> srv_running s"
  shows "\<not> srv_running (accept_turn x s)" "pending (accept_turn x s) = pending s"
    "accept_left (accept_pc (accept_turn x s)) \<le> accept_left (accept_pc s) - 1"
    "accept_pc s \<noteq> No_thread \<Longrightarrow> accept_pc (accept_turn x s) \<noteq> No_thread"
  using assms by (cases "accept_pc s"; cases x; auto simp: accept_turn_def accept_returns_def)+

interpretation accept_thread: ending_thread stop_act is_accept_turn "\<lambda>s. accept_pc s = Loop_ended"
    "\<lambda>s. accept_left (accept_pc s)" "\<lambda>s. \<not> srv_running s \<and> accept_pc s \<noteq> No_thread"
proof
  fix s :: server and a
  assume f: "\<not> srv_running s \<and> accept_pc s \<noteq> No_thread"
  show "\<not> srv_running (stop_act a s) \<and> accept_pc (stop_act a s) \<noteq> No_thread"
    using f accept_turn_stopped by (cases a) simp_all
  show "accept_left (accept_pc (stop_act a s)) \<le> accept_left (accept_pc s)"
  proof (cases a)
    case (Accept_turn x)
    then show ?thesis using f accept_turn_stopped(3) [of s x] by simp
  qed simp
  show "accept_left (accept_pc (stop_act a s)) < accept_left (accept_pc s)"
    if "is_accept_turn a" "accept_pc s \<noteq> Loop_ended"
  proof (cases a)
    case (Accept_turn x)
    have "accept_left (accept_pc s) > 0" using f that by (cases "accept_pc s") auto
    with Accept_turn show ?thesis using f accept_turn_stopped(3) [of s x] by simp
  qed (use that in \<open>simp add: is_accept_turn_def\<close>)
  show "accept_left (accept_pc s) = 0 \<longleftrightarrow> accept_pc s = Loop_ended"
    using f by (cases "accept_pc s") auto
qed

lemma stopped_hands_nothing:
  "\<not> srv_running s \<Longrightarrow> length (pending (fold stop_act as s)) \<le> length (pending s)"
proof (induction as arbitrary: s)
  case (Cons a as)
  have "\<not> srv_running (stop_act a s)" "length (pending (stop_act a s)) \<le> length (pending s)"
    using Cons.prems accept_turn_stopped by (cases a; simp)+
  with Cons.IH [of "stop_act a s"] show ?case by simp
qed simp

section \<open>Properties\<close>

text \<open>The server loses and leaks no descriptor: in every reachable state, whatever the
  system answers and however the threads interleave, each descriptor obtained has been closed,
  handed to the callback, waits for its callback, or is the one listened on, exactly once; the
  flag says whether the socket is open, and there is an accept thread exactly while the server
  runs or is being stopped (so \<open>start\<close> never overwrites a thread that was not joined).\<close>

theorem server_descriptors:
  assumes "server_reach (new_server port cb) s"
  shows "mset (opened s) = mset (closed s) + mset (pending s) + mset (given s) +
      (if srv_running s then {#handle (listenSocket s)#} else {#}) \<and>
    isValid (listenSocket s) = isRunning s \<and>
    (accept_pc s \<noteq> No_thread) = (srv_running s \<or> stopping s)"
  using reach_ok [OF assms] by (simp add: server_ok_defs isRunning_def)

text \<open>A run used as an example: the server starts, one client is accepted, the server stops,
  and the callback of the client has not run.\<close>

definition sample_listen :: listen_answers where
  "sample_listen = \<lparr>on_linux = True, socket_answer = 3, bind_ok = (\<lambda>p. True), listen_ok = True\<rparr>"

definition stopped_early :: server where
  "stopped_early =
     stop_join (accept_turn (Client 0) (stop_begin (accept_turn (Client 7) (accept_turn (Client 0)
       (fst (start_server sample_listen (new_server 5050 True)))))))"

lemma stopped_early_reach: "server_reach (new_server 5050 True) stopped_early"
  unfolding stopped_early_def
  by (intro server_reach.Step [OF _ Join] server_reach.Step [OF _ Accept] server_reach.Step [OF _ Stop]
      server_reach.Step [OF _ Start] Init)
    (simp_all add: start_server_def sample_listen_def new_server_def move_assign_def close_def kInvalidSocket_def
      accept_turn_def accept_returns_def stop_begin_def close_listen_def new_socket_def isValid_def)

lemma stopped_early_state:
  "pending stopped_early = [7]" "given stopped_early = []" "opened stopped_early = [3, 7]"
  "closed stopped_early = [3]" "\<not> srv_running stopped_early" "\<not> stopping stopped_early"
  by (simp_all add: stopped_early_def start_server_def sample_listen_def new_server_def move_assign_def close_def
      kInvalidSocket_def accept_turn_def accept_returns_def stop_begin_def stop_join_def close_listen_def
      new_socket_def isValid_def)

theorem server_descriptors_witness:
  "mset (opened stopped_early) = mset (closed stopped_early) + mset (pending stopped_early)"
  using server_descriptors [OF stopped_early_reach] by (simp add: stopped_early_state)

text \<open>Stopping a running server ends its accept thread within two of its turns, whatever
  \<open>::accept\<close> answers, once it answers at all, and whatever callbacks run meanwhile; no client is
  handed over after the flag was cleared.\<close>

theorem stop_ends_accepting:
  assumes "server_reach (new_server port cb) s" and "srv_running s" and "2 \<le> length (filter is_accept_turn as)"
  shows "accept_pc (fold stop_act as (stop_begin s)) = Loop_ended \<and>
    length (pending (fold stop_act as (stop_begin s))) \<le> length (pending s)"
proof -
  from reach_ok [OF assms(1)] assms(2) have "accept_pc s \<noteq> No_thread" by (simp add: server_inv_def)
  moreover have "accept_left p \<le> 2" for p by (cases p) simp_all
  ultimately show ?thesis
    using assms(2,3) stopped_hands_nothing [of "stop_begin s" as]
    by (intro conjI accept_thread.ends) (auto simp: stop_begin_def intro: le_trans)
qed

theorem stop_ends_accepting_witness:
  "accept_pc (fold stop_act [Accept_turn (Client 9), Callback_runs 0, Accept_turn (Client 0)] (stop_begin
     (accept_turn (Client 0) (fst (start_server sample_listen (new_server 5050 True)))))) = Loop_ended"
proof -
  let ?s = "accept_turn (Client 0) (fst (start_server sample_listen (new_server 5050 True)))"
  have "server_reach (new_server 5050 True) ?s"
    by (intro server_reach.Step [OF _ Accept] server_reach.Step [OF _ Start] Init) (simp add: new_server_def)
  moreover have "srv_running ?s"
    by (simp add: start_server_def sample_listen_def new_server_def move_assign_def close_def kInvalidSocket_def
      accept_turn_def new_socket_def isValid_def)
  ultimately show ?thesis
    using stop_ends_accepting [of 5050 True ?s "[Accept_turn (Client 9), Callback_runs 0, Accept_turn (Client 0)]"]
    by (simp add: is_accept_turn_def)
qed

text \<open>Two things stopping and failing leave behind. A server can be stopped completely
  while the callback of an accepted client has still to run, on the server's own fields; and
  after an error of \<open>::accept\<close> the thread is gone while the flag stays set, so that the
  server claims to run and a further \<open>start\<close> does nothing.\<close>

theorem server_leftovers:
  "(\<exists>s. server_reach (new_server 5050 True) s \<and> \<not> isRunning s \<and> \<not> stopping s \<and> pending s \<noteq> []) \<and>
   (\<forall>s msg h. if srv_running s \<and> accept_pc s = In_accept h
      then isRunning (accept_turn (Accept_failed msg) s) \<and>
        accept_pc (accept_turn (Accept_failed msg) s) = Loop_ended \<and>
        (\<forall>a. start_server a (accept_turn (Accept_failed msg) s) = (accept_turn (Accept_failed msg) s, True))
      else True)"
proof (intro conjI exI [of _ stopped_early])
  show "server_reach (new_server 5050 True) stopped_early" by (rule stopped_early_reach)
qed (simp_all add: stopped_early_state isRunning_def accept_turn_def accept_returns_def start_server_def)

definition connects :: "connect_answers \<Rightarrow> string \<Rightarrow> u16 \<Rightarrow> int \<Rightarrow> bool" where
  "connects a host port timeout \<longleftrightarrow>
     (case addrinfo a host of
        None \<Rightarrow> False
      | Some ip \<Rightarrow> client_socket a \<noteq> kInvalidSocket \<and>
          (connect_to a ip port = Connects \<or>
           connect_to a ip port = In_progress \<and> 0 < select_result a timeout \<and> so_error a = 0))"

text \<open>C36. Connecting ends in one of two ways. Either the host resolves, a descriptor is
  obtained, and \<open>::connect\<close> succeeds at once or is in progress and \<open>select\<close> reports the socket
  writable with no error pending: then the socket is returned open, blocking again with every other
  flag as it was, and nothing is closed. Or an error is raised and exactly the descriptor obtained,
  if any, has been closed.\<close>

theorem connect_outcome:
  assumes "client_flags a \<noteq> -1" and "client_flags a OR nb \<noteq> -1"
  shows "if connects a host port timeout
    then tcp_connect nb a host port timeout = (Inr (new_socket (client_socket a), client_flags a AND NOT nb), [])
    else \<exists>msg. tcp_connect nb a host port timeout =
      (Inl msg, if addrinfo a host = None \<or> client_socket a = kInvalidSocket then [] else [client_socket a])"
proof -
  have "setBlocking nb (new_socket h) True (setBlocking nb (new_socket h) False (client_flags a)) = client_flags a AND NOT nb"
    if "h \<noteq> kInvalidSocket" for h
    using that assms by (intro blocking_restored) simp_all
  then show ?thesis
    by (auto simp: connects_def tcp_connect_def resolveHostname_def Let_def wait_connected_def
        split: option.splits connect_answer.splits)
qed

definition sample_connect :: "connect_answer \<Rightarrow> int \<Rightarrow> connect_answers" where
  "sample_connect r sel = \<lparr>addrinfo = (\<lambda>h. Some ''10.0.0.7''), client_socket = 5, client_flags = 2,
     connect_to = (\<lambda>ip p. r), select_result = (\<lambda>t. sel), so_error = 0, error_text = ''Network is unreachable''\<rparr>"

theorem connect_outcome_witness:
  "tcp_connect 2048 (sample_connect In_progress 1) ''bob'' 5050 10 = (Inr (new_socket 5, 2), [])"
  using connect_outcome [of "sample_connect In_progress 1" 2048 "''bob''" 5050 10]
  by (simp add: connects_def sample_connect_def kInvalidSocket_def)

end
