(* ===== verification/Discovery.thy ===== *)
theory Discovery imports Config begin

text \<open>
  LAN discovery (\<open>src/discovery/lan_discovery.hpp\<close>, \<open>lan_discovery.cpp\<close>): the announce
  packet and its parser, and the scan that collects the peers it hears. The parser reads its
  buffer through bounds-checked reads, so that reading past the end would be visible. The
  socket calls of a scan are a script: whether the socket opens and binds, then one poll
  result per round until the time is up.
\<close>

record discovered_peer =
  ipAddress :: string
  tcpPort :: u16
  foundDeviceId :: string
  foundName :: string
  foundPlatform :: string
  protocolVersion :: u8
  lastSeen :: int

definition kDiscoveryPort :: u16 where "kDiscoveryPort = 5051"
definition kDiscoveryMagic :: u32 where "kDiscoveryMagic = 0x4C544C44"
definition kScanTimeoutSecs :: nat where "kScanTimeoutSecs = 3"

section \<open>The packet\<close>

text \<open>\<open>std::string::resize\<close>: cut, or filled up.\<close>

definition resize :: "nat \<Rightarrow> char \<Rightarrow> string \<Rightarrow> string" where
  "resize n c s = take n s @ replicate (n - length s) c"

definition announced_platform :: "build_os \<Rightarrow> string" where
  "announced_platform os = (if os = Windows then ''windows'' else ''linux'')"

definition length_byte :: "string \<Rightarrow> u8" where
  "length_byte s = word_of_nat (length s)"

definition buildAnnouncePacket :: "build_os \<Rightarrow> app_config \<Rightarrow> bytes" where
  "buildAnnouncePacket os c =
     (let name = (if 255 < length (displayName c) then take 255 (displayName c) else displayName c);
          plat0 = announced_platform os;
          plat = (if 255 < length plat0 then take 255 plat0 else plat0)
      in be32 kDiscoveryMagic @ [1] @ be16 (listenPort c) @
         string_to_bytes (resize 36 ch_nul (deviceId c)) @
         [length_byte name] @ string_to_bytes name @
         [length_byte plat] @ string_to_bytes plat)"

text \<open>The optional platform field at the end.\<close>

definition parse_platform :: "bytes \<Rightarrow> nat \<Rightarrow> memory_error + string" where
  "parse_platform d offset =
     (if offset < length d then
        andThen (rd d offset) (\<lambda>platLen.
          if offset + 1 + unat platLen \<le> length d then
            andThen (rd_range d (offset + 1) (unat platLen)) (\<lambda>p. Inr (bytes_to_string p))
          else Inr '''')
      else Inr '''')"

definition parseAnnouncePacket :: "bytes \<Rightarrow> string \<Rightarrow> int \<Rightarrow> memory_error + discovered_peer option" where
  "parseAnnouncePacket d senderIp now =
     (if length d < 4 + 1 + 2 + 36 + 1 then Inr None
      else andThen (rd_range d 0 4) (\<lambda>m.
        if un_be32 (m ! 0) (m ! 1) (m ! 2) (m ! 3) \<noteq> kDiscoveryMagic then Inr None
        else andThen (rd d 4) (\<lambda>vers.
        andThen (rd_range d 5 2) (\<lambda>p.
        andThen (rd_range d 7 36) (\<lambda>i.
          if length d \<le> 43 then Inr None
          else andThen (rd d 43) (\<lambda>nameLen.
          if length d < 44 + unat nameLen then Inr None
          else andThen (rd_range d 44 (unat nameLen)) (\<lambda>n.
          andThen (parse_platform d (44 + unat nameLen)) (\<lambda>plat.
            Inr (Some \<lparr>ipAddress = senderIp, tcpPort = un_be16 (p ! 0) (p ! 1),
              foundDeviceId = takeWhile (\<lambda>c. c \<noteq> ch_nul) (bytes_to_string i),
              foundName = bytes_to_string n, foundPlatform = plat,
              protocolVersion = vers, lastSeen = now\<rparr>)))))))))"

section \<open>Scanning\<close>

text \<open>The list search of \<open>scan\<close>: the first entry with the device's id is overwritten.\<close>

fun update_known :: "discovered_peer list \<Rightarrow> discovered_peer \<Rightarrow> discovered_peer list \<times> bool" where
  "update_known [] p = ([], False)"
| "update_known (q # qs) p =
     (if foundDeviceId q = foundDeviceId p then (p # qs, True)
      else case update_known qs p of (qs', found) \<Rightarrow> (q # qs', found))"

text \<open>One round of the loop: nothing received (an error, an empty datagram), or a datagram, cut
  to the 1024 bytes of the buffer.\<close>

datatype poll = Nothing | Datagram string bytes int

fun scan_round :: "app_config \<Rightarrow> discovered_peer list \<times> discovered_peer list \<Rightarrow> poll \<Rightarrow>
    memory_error + discovered_peer list \<times> discovered_peer list" where
  "scan_round c (results, calls) Nothing = Inr (results, calls)"
| "scan_round c (results, calls) (Datagram ip d now) =
     (let buf = take 1024 d in
      if buf = [] then Inr (results, calls)
      else andThen (parseAnnouncePacket buf ip now) (\<lambda>peerOpt.
        case peerOpt of
          None \<Rightarrow> Inr (results, calls)
        | Some p \<Rightarrow>
            if foundDeviceId p \<noteq> deviceId c then
              (case update_known results p of (results', found) \<Rightarrow>
                 if \<not> found then Inr (results' @ [p], calls @ [p]) else Inr (results', calls))
            else Inr (results, calls)))"

fun scan_loop :: "app_config \<Rightarrow> discovered_peer list \<times> discovered_peer list \<Rightarrow> poll list \<Rightarrow>
    memory_error + discovered_peer list \<times> discovered_peer list" where
  "scan_loop c s [] = Inr s"
| "scan_loop c s (e # es) = andThen (scan_round c s e) (\<lambda>s'. scan_loop c s' es)"

text \<open>\<open>LanDiscovery::scan\<close>: the result list and the peers the callback was called with.\<close>

definition scan :: "bool \<Rightarrow> bool \<Rightarrow> poll list \<Rightarrow> app_config \<Rightarrow>
    memory_error + discovered_peer list \<times> discovered_peer list" where
  "scan socketValid bindOk polls c =
     (if \<not> socketValid then Inr ([], [])
      else if \<not> bindOk then Inr ([], [])
      else scan_loop c ([], []) polls)"

section \<open>Facts about the packet\<close>

lemma length_resize [simp]: "length (resize n c s) = n"
  by (simp add: resize_def)

lemma resize_id: "takeWhile (\<lambda>c. c \<noteq> ch_nul) (resize n ch_nul s) = takeWhile (\<lambda>c. c \<noteq> ch_nul) (take n s)"
proof (cases "ch_nul \<in> set (take n s)")
  case True
  then show ?thesis by (simp add: resize_def takeWhile_append1 [where x = ch_nul])
next
  case False
  then have all: "\<forall>c\<in>set (take n s). c \<noteq> ch_nul" by auto
  have "takeWhile (\<lambda>c. c \<noteq> ch_nul) (resize n ch_nul s) =
      take n s @ takeWhile (\<lambda>c. c \<noteq> ch_nul) (replicate (n - length s) ch_nul)"
    unfolding resize_def using all by (intro takeWhile_append2) auto
  also have "\<dots> = take n s" by (cases "n - length s") simp_all
  also have "\<dots> = takeWhile (\<lambda>c. c \<noteq> ch_nul) (take n s)"
    by (rule takeWhile_eq_all_conv [THEN iffD2, OF all, symmetric])
  finally show ?thesis .
qed

lemma parse_platform_safe: "\<exists>s. parse_platform d n = Inr s"
  by (auto simp: parse_platform_def rd_def rd_range_def)

lemma parse_safe: "parseAnnouncePacket d ip now \<noteq> Inl e"
proof -
  obtain f where "\<And>n. parse_platform d n = Inr (f n)" using parse_platform_safe [of d] by metis
  then show ?thesis by (simp add: parseAnnouncePacket_def rd_def rd_range_def)
qed

lemma announced_platform_short: "length (announced_platform os) \<le> 7"
  by (simp add: announced_platform_def)

lemma length_packet:
  "length (buildAnnouncePacket os c) = 45 + min 255 (length (displayName c)) + length (announced_platform os)"
  using announced_platform_short [of os]
  by (simp add: buildAnnouncePacket_def Let_def min_def)

lemma length_byte_small: "length s \<le> 255 \<Longrightarrow> unat (length_byte s) = length s"
  by (simp add: length_byte_def unat_of_nat)

text \<open>The packet field by field.\<close>

lemma packet_fields:
  fixes os c
  defines "name \<equiv> take 255 (displayName c)" and "plat \<equiv> announced_platform os"
  shows "buildAnnouncePacket os c =
    be32 kDiscoveryMagic @ [1] @ be16 (listenPort c) @ string_to_bytes (resize 36 ch_nul (deviceId c)) @
    [length_byte name] @ string_to_bytes name @ [length_byte plat] @ string_to_bytes plat"
  using announced_platform_short [of os]
  by (auto simp: buildAnnouncePacket_def Let_def name_def plat_def)

text \<open>Reads that hit a known piece of the buffer.\<close>

lemma rd_at: "length a = n \<Longrightarrow> rd (a @ b # r) n = Inr b"
  by (auto simp: rd_def)

lemma rd_range_at: "length a = n \<Longrightarrow> length m = k \<Longrightarrow> rd_range (a @ m @ r) n k = Inr m"
  by (simp add: rd_range_def)

lemma parse_layout:
  assumes "length i = 36" and "length n \<le> 255" and "length q \<le> 255"
  shows "parseAnnouncePacket (be32 kDiscoveryMagic @ [v] @ be16 p @ i @ [word_of_nat (length n)] @ n @
      [word_of_nat (length q)] @ q) ip now =
    Inr (Some \<lparr>ipAddress = ip, tcpPort = p, foundDeviceId = takeWhile (\<lambda>c. c \<noteq> ch_nul) (bytes_to_string i),
      foundName = bytes_to_string n, foundPlatform = bytes_to_string q, protocolVersion = v, lastSeen = now\<rparr>)"
  (is "parseAnnouncePacket ?d ip now = _")
proof -
  have n: "unat (word_of_nat (length n) :: u8) = length n" and q: "unat (word_of_nat (length q) :: u8) = length q"
    using assms by (simp_all add: unat_of_nat)
  have r: "rd_range ?d 0 4 = Inr (be32 kDiscoveryMagic)" "rd ?d 4 = Inr v" "rd_range ?d 5 2 = Inr (be16 p)"
    "rd_range ?d 7 36 = Inr i" "rd ?d 43 = Inr (word_of_nat (length n))" "rd_range ?d 44 (length n) = Inr n"
    using assms(1)
      rd_range_at [of "[]" 0 "be32 kDiscoveryMagic" 4] rd_at [of "be32 kDiscoveryMagic" 4 v]
      rd_range_at [of "be32 kDiscoveryMagic @ [v]" 5 "be16 p" 2]
      rd_range_at [of "be32 kDiscoveryMagic @ [v] @ be16 p" 7 i 36]
      rd_at [of "be32 kDiscoveryMagic @ [v] @ be16 p @ i" 43 "word_of_nat (length n)"]
      rd_range_at [of "be32 kDiscoveryMagic @ [v] @ be16 p @ i @ [word_of_nat (length n)]" 44 n "length n"]
    by simp_all
  have "parse_platform ?d (44 + length n) = Inr (bytes_to_string q)"
    using assms(1)
      rd_at [of "be32 kDiscoveryMagic @ [v] @ be16 p @ i @ [word_of_nat (length n)] @ n" "44 + length n" "word_of_nat (length q)" q]
      rd_range_at [of "be32 kDiscoveryMagic @ [v] @ be16 p @ i @ [word_of_nat (length n)] @ n @ [word_of_nat (length q)]"
        "45 + length n" q "length q" "[]"]
    by (simp add: parse_platform_def q)
  with r n assms(1) show ?thesis
    by (simp add: parseAnnouncePacket_def be32_def be16_def)
qed

lemma parse_build:
  "parseAnnouncePacket (buildAnnouncePacket os c) ip now =
    Inr (Some \<lparr>ipAddress = ip, tcpPort = listenPort c,
      foundDeviceId = takeWhile (\<lambda>ch. ch \<noteq> ch_nul) (take 36 (deviceId c)),
      foundName = take 255 (displayName c), foundPlatform = announced_platform os,
      protocolVersion = 1, lastSeen = now\<rparr>)"
  using announced_platform_short [of os]
    parse_layout [of "string_to_bytes (resize 36 ch_nul (deviceId c))"
      "string_to_bytes (take 255 (displayName c))" "string_to_bytes (announced_platform os)" 1 "listenPort c" ip now]
  by (simp add: packet_fields length_byte_def resize_id)

section \<open>Facts about a scan\<close>

definition ids :: "discovered_peer list \<Rightarrow> string list" where
  "ids ps = map foundDeviceId ps"

lemma ids_simps [simp]: "ids [] = []" "ids (p # ps) = foundDeviceId p # ids ps" "ids (ps @ qs) = ids ps @ ids qs"
  by (simp_all add: ids_def)

lemma update_known_ids:
  "update_known ps p = (ps', found) \<Longrightarrow> ids ps' = ids ps \<and> (found \<longleftrightarrow> foundDeviceId p \<in> set (ids ps))"
  by (induction ps arbitrary: ps' found) (auto split: if_splits prod.splits)

text \<open>What holds between two rounds: the results are distinct devices other than this one, and
  the callback was called once for each, in the same order.\<close>

definition scan_inv :: "app_config \<Rightarrow> discovered_peer list \<times> discovered_peer list \<Rightarrow> bool" where
  "scan_inv c s \<longleftrightarrow> distinct (ids (fst s)) \<and> deviceId c \<notin> set (ids (fst s)) \<and> ids (snd s) = ids (fst s)"

lemma scan_round_inv:
  assumes "scan_inv c s"
  shows "\<exists>s'. scan_round c s e = Inr s' \<and> scan_inv c s'"
proof (cases e)
  case Nothing
  with assms show ?thesis by (cases s) simp
next
  case (Datagram ip d now)
  obtain rs cs where s: "s = (rs, cs)" by (cases s)
  obtain r where r: "parseAnnouncePacket (take 1024 d) ip now = Inr r"
    using parse_safe [of "take 1024 d" ip now] by (cases "parseAnnouncePacket (take 1024 d) ip now") auto
  obtain rs' f where u: "\<And>p. r = Some p \<Longrightarrow> update_known rs p = (rs', f)"
    by (cases r) (metis option.distinct(1), metis option.inject surj_pair)
  then show ?thesis
    using assms update_known_ids [of rs _ rs' f]
    by (auto simp: Datagram s r scan_inv_def Let_def split: option.splits)
qed

lemma scan_loop_inv:
  "scan_inv c s \<Longrightarrow> \<exists>s'. scan_loop c s es = Inr s' \<and> scan_inv c s'"
  by (induction es arbitrary: s) (simp, metis scan_loop.simps(2) andThen_simps(2) scan_round_inv)

lemma scan_result: "\<exists>s. scan sv bo polls c = Inr s \<and> scan_inv c s"
  using scan_loop_inv [of c "([], [])" polls] by (auto simp: scan_def scan_inv_def)

text \<open>A device that announces itself once is found, whatever else is heard, unless it is this
  device or the name of another entry.\<close>

lemma update_known_keeps:
  "update_known ps p = (ps', found) \<Longrightarrow> set (ids ps) \<subseteq> set (ids ps')"
  using update_known_ids by force

lemma scan_round_keeps:
  assumes "scan_round c s e = Inr s'"
  shows "set (ids (fst s)) \<subseteq> set (ids (fst s'))"
proof (cases e)
  case Nothing
  with assms show ?thesis by (cases s) simp
next
  case (Datagram ip d now)
  obtain rs cs where s: "s = (rs, cs)" by (cases s)
  obtain r where r: "parseAnnouncePacket (take 1024 d) ip now = Inr r"
    using parse_safe [of "take 1024 d" ip now] by (cases "parseAnnouncePacket (take 1024 d) ip now") auto
  from assms show ?thesis
    by (auto simp: Datagram s r Let_def split: if_splits option.splits prod.splits dest: update_known_ids)
qed

lemma scan_loop_keeps:
  "scan_loop c s es = Inr s' \<Longrightarrow> set (ids (fst s)) \<subseteq> set (ids (fst s'))"
  by (induction es arbitrary: s) (auto simp: andThen_Inr dest!: scan_round_keeps)

lemma scan_round_hears:
  assumes "parseAnnouncePacket (take 1024 d) ip now = Inr (Some p)" and "foundDeviceId p \<noteq> deviceId c"
    and "scan_round c s (Datagram ip d now) = Inr s'"
  shows "foundDeviceId p \<in> set (ids (fst s'))"
proof -
  have "take 1024 d \<noteq> []" using assms(1) by (auto simp: parseAnnouncePacket_def)
  with assms show ?thesis
    by (cases s) (auto simp: Let_def split: prod.splits if_splits dest: update_known_ids)
qed

lemma scan_loop_hears:
  assumes "Datagram ip d now \<in> set es" and "parseAnnouncePacket (take 1024 d) ip now = Inr (Some p)"
    and "foundDeviceId p \<noteq> deviceId c" and "scan_loop c s es = Inr s'"
  shows "foundDeviceId p \<in> set (ids (fst s'))"
  using assms(1,4)
proof (induction es arbitrary: s)
  case Nil
  then show ?case by simp
next
  case (Cons e es)
  from Cons.prems(2) obtain s1 where s1: "scan_round c s e = Inr s1" "scan_loop c s1 es = Inr s'"
    by (auto simp: andThen_Inr)
  show ?case
  proof (cases "e = Datagram ip d now")
    case True
    with s1 scan_round_hears [OF assms(2,3)] have "foundDeviceId p \<in> set (ids (fst s1))" by blast
    with scan_loop_keeps [OF s1(2)] show ?thesis by blast
  next
    case False
    with Cons s1 show ?thesis by auto
  qed
qed

lemma packet_fits: "length (buildAnnouncePacket os c) \<le> 307"
  using announced_platform_short [of os] by (simp add: length_packet)

lemma parse_announced:
  "parseAnnouncePacket (take 1024 (buildAnnouncePacket os c)) ip now =
    parseAnnouncePacket (buildAnnouncePacket os c) ip now"
  using packet_fits [of os c] by simp

section \<open>Properties\<close>

text \<open>C30. An announcement is understood by every listener: the packet built from a
  configuration, also after the cut to the receive buffer, is parsed to the peer it describes,
  with the device id cut to 36 characters (and at a NUL) and the name to 255.\<close>

theorem announce_understood:
  "parseAnnouncePacket (take 1024 (buildAnnouncePacket os c)) ip now =
    Inr (Some \<lparr>ipAddress = ip, tcpPort = listenPort c,
      foundDeviceId = takeWhile (\<lambda>ch. ch \<noteq> ch_nul) (take 36 (deviceId c)),
      foundName = take 255 (displayName c), foundPlatform = announced_platform os,
      protocolVersion = 1, lastSeen = now\<rparr>)"
  by (simp add: parse_announced parse_build)

text \<open>C31. The packet parser is memory safe: on no datagram, however short or malformed, does
  it read past the end of its buffer.\<close>

theorem parser_memory_safe: "parseAnnouncePacket d ip now \<noteq> Inl Out_of_bounds"
  by (rule parse_safe)

text \<open>A scan never reads out of bounds; its results are distinct devices, none of them the
  scanning device, and the callback was called once for each, in the order of the results.\<close>

theorem scan_results:
  "\<exists>results calls. scan sv bo polls c = Inr (results, calls) \<and> distinct (map foundDeviceId results) \<and>
    deviceId c \<notin> set (map foundDeviceId results) \<and> map foundDeviceId calls = map foundDeviceId results"
  using scan_result [of sv bo polls c] by (auto simp: scan_inv_def ids_def)

text \<open>C35. A scan misses nobody it hears: if the announcement of a device with another id
  arrives in any round, the device is among the results.\<close>

theorem scan_finds:
  assumes "Datagram ip (buildAnnouncePacket os other) now \<in> set polls"
    and "takeWhile (\<lambda>ch. ch \<noteq> ch_nul) (take 36 (deviceId other)) \<noteq> deviceId c"
  shows "\<exists>results calls. scan True True polls c = Inr (results, calls) \<and>
    takeWhile (\<lambda>ch. ch \<noteq> ch_nul) (take 36 (deviceId other)) \<in> set (map foundDeviceId results)"
proof -
  obtain s where s: "scan_loop c ([], []) polls = Inr s"
    using scan_loop_inv [of c "([], [])" polls] by (auto simp: scan_inv_def)
  have "parseAnnouncePacket (take 1024 (buildAnnouncePacket os other)) ip now = Inr (Some
      \<lparr>ipAddress = ip, tcpPort = listenPort other,
       foundDeviceId = takeWhile (\<lambda>ch. ch \<noteq> ch_nul) (take 36 (deviceId other)),
       foundName = take 255 (displayName other), foundPlatform = announced_platform os,
       protocolVersion = 1, lastSeen = now\<rparr>)"
    by (simp add: parse_announced parse_build)
  from scan_loop_hears [OF assms(1) this _ s] assms(2) s show ?thesis
    by (cases s) (simp add: scan_def ids_def)
qed

theorem scan_finds_witness:
  "\<exists>results calls. scan True True [Nothing, Datagram ''10.0.0.7'' (buildAnnouncePacket Linux sample_config) 5]
      default_config = Inr (results, calls) \<and> ''dev-1'' \<in> set (map foundDeviceId results)"
  using scan_finds [of "''10.0.0.7''" Linux sample_config 5
      "[Nothing, Datagram ''10.0.0.7'' (buildAnnouncePacket Linux sample_config) 5]" default_config]
  by (simp add: sample_config_def default_config_def)

end
