(* ===== verification/Announcer.thy ===== *)
theory Announcer imports Discovery begin

text \<open>
  The announcing thread of LAN discovery (\<open>LanDiscovery::startAnnounce\<close>,
  \<open>stopAnnounce\<close>, \<open>announce\<close>, \<open>announceLoop\<close> in
  \<open>src/discovery/lan_discovery.cpp\<close>). One turn of the thread is a test of the outer loop
  with the announcement that follows, or a test of the waiting loop with its sleep of 100
  milliseconds. \<open>stopAnnounce\<close> is cut between clearing the flag and the join. What was
  given to \<open>sendto\<close>, with the port it was sent to, is kept in \<open>broadcasts\<close>.
\<close>

datatype announce_pc = Ann_none | Ann_test | Ann_sleep nat | Ann_ended

record announcer =
  ann_config :: app_config
  ann_running :: bool
  announce_pc :: announce_pc
  ann_stopping :: bool
  broadcasts :: "(u16 \<times> bytes) list"

definition new_announcer :: "app_config \<Rightarrow> announcer" where
  "new_announcer c = \<lparr>ann_config = c, ann_running = False, announce_pc = Ann_none,
     ann_stopping = False, broadcasts = []\<rparr>"

definition startAnnounce :: "announcer \<Rightarrow> announcer \<times> bool" where
  "startAnnounce a =
     (if ann_running a then (a, True)
      else (a\<lparr>ann_running := True, announce_pc := Ann_test\<rparr>, True))"

definition stopAnnounce :: "announcer \<Rightarrow> announcer" where
  "stopAnnounce a =
     (if \<not> ann_running a then a
      else a\<lparr>ann_running := False, ann_stopping := (announce_pc a \<noteq> Ann_none)\<rparr>)"

definition announce_join :: "announcer \<Rightarrow> announcer" where
  "announce_join a = a\<lparr>ann_stopping := False, announce_pc := Ann_none\<rparr>"

text \<open>\<open>announce\<close>: the second argument says whether a socket was obtained.\<close>

definition announce :: "build_os \<Rightarrow> bool \<Rightarrow> announcer \<Rightarrow> announcer" where
  "announce os socketValid a =
     (if \<not> socketValid then a
      else a\<lparr>broadcasts := broadcasts a @ [(kDiscoveryPort, buildAnnouncePacket os (ann_config a))]\<rparr>)"

definition announce_turn :: "build_os \<Rightarrow> bool \<Rightarrow> announcer \<Rightarrow> announcer" where
  "announce_turn os socketValid a =
     (case announce_pc a of
        Ann_test \<Rightarrow>
          (if ann_running a then (announce os socketValid a)\<lparr>announce_pc := Ann_sleep 0\<rparr>
           else a\<lparr>announce_pc := Ann_ended\<rparr>)
      | Ann_sleep i \<Rightarrow>
          (if i < 300 \<and> ann_running a then a\<lparr>announce_pc := Ann_sleep (i + 1)\<rparr>
           else a\<lparr>announce_pc := Ann_test\<rparr>)
      | _ \<Rightarrow> a)"

text \<open>Several turns, each with the answer of \<open>socket\<close> should it announce.\<close>

definition announce_turns :: "build_os \<Rightarrow> bool list \<Rightarrow> announcer \<Rightarrow> announcer" where
  "announce_turns os valids a = fold (announce_turn os) valids a"

inductive announce_step :: "build_os \<Rightarrow> announcer \<Rightarrow> announcer \<Rightarrow> bool" for os where
  Start_announce: "\<not> ann_stopping a \<Longrightarrow> announce_step os a (fst (startAnnounce a))"
| Stop_announce: "\<not> ann_stopping a \<Longrightarrow> announce_step os a (stopAnnounce a)"
| Join_announce: "ann_stopping a \<Longrightarrow> announce_pc a = Ann_ended \<Longrightarrow> announce_step os a (announce_join a)"
| Thread_turn: "announce_step os a (announce_turn os valid a)"

inductive announce_reach :: "build_os \<Rightarrow> app_config \<Rightarrow> announcer \<Rightarrow> bool" for os c where
  Announce_init: "announce_reach os c (new_announcer c)"
| Announce_next: "announce_reach os c a \<Longrightarrow> announce_step os a a' \<Longrightarrow> announce_reach os c a'"

section \<open>Facts\<close>

text \<open>A thread exists exactly while the flag is set or \<open>stopAnnounce\<close> waits for it.\<close>

definition announcer_inv :: "app_config \<Rightarrow> build_os \<Rightarrow> announcer \<Rightarrow> bool" where
  "announcer_inv c os a \<longleftrightarrow> ann_config a = c \<and>
     (announce_pc a \<noteq> Ann_none \<longleftrightarrow> ann_running a \<or> ann_stopping a) \<and>
     (announce_pc a = Ann_ended \<longrightarrow> \<not> ann_running a) \<and>
     list_all (\<lambda>p. p = (kDiscoveryPort, buildAnnouncePacket os c)) (broadcasts a)"

lemma announce_turn_inv: "announcer_inv c os a \<Longrightarrow> announcer_inv c os (announce_turn os v a)"
  by (cases "announce_pc a") (auto simp: announce_turn_def announcer_inv_def announce_def)

lemma announce_step_inv:
  assumes "announce_step os a a'" and "announcer_inv c os a"
  shows "announcer_inv c os a'"
  using assms(1)
proof cases
  case (Thread_turn v)
  with announce_turn_inv [OF assms(2)] show ?thesis by simp
qed (use assms(2) in \<open>auto simp: startAnnounce_def stopAnnounce_def announce_join_def announcer_inv_def\<close>)

lemma announce_reach_inv: "announce_reach os c a \<Longrightarrow> announcer_inv c os a"
proof (induction rule: announce_reach.induct)
  case Announce_init
  show ?case by (simp add: announcer_inv_def new_announcer_def)
qed (rule announce_step_inv)

lemma announce_turns_append: "announce_turns os (vs @ [v]) a = announce_turn os v (announce_turns os vs a)"
  by (simp add: announce_turns_def)

text \<open>Where an undisturbed thread is after so many turns: a cycle is one announcement, three
  hundred sleeps and the end of the waiting loop.\<close>

lemma ceiling_302: "(n + 301) div 302 = n div 302 + (if n mod 302 = 0 then 0 else 1)" for n :: nat
proof -
  have "n = 302 * (n div 302) + n mod 302" by simp
  then have "(n + 301) div 302 = n div 302 + (n mod 302 + 301) div 302"
    by (metis add.assoc div_mult_self4 zero_neq_numeral)
  moreover have "(n mod 302 + 301) div 302 = (if n mod 302 = 0 then 0 else 1)"
  proof (cases "n mod 302 = 0")
    case False
    have "n mod 302 < 302" by simp
    with False have "302 \<le> n mod 302 + 301" "n mod 302 + 301 < 604" by arith+
    then have "(n mod 302 + 301) div 302 = 1" by (intro div_nat_eqI) simp_all
    with False show ?thesis by simp
  qed simp
  ultimately show ?thesis by simp
qed

lemma announce_cycle:
  assumes "announce_pc a = Ann_test" and "ann_running a"
  shows "ann_running (announce_turns os (replicate n True) a) \<and>
    announce_pc (announce_turns os (replicate n True) a) =
      (if n mod 302 = 0 then Ann_test else Ann_sleep (n mod 302 - 1)) \<and>
    length (broadcasts (announce_turns os (replicate n True) a)) =
      length (broadcasts a) + n div 302 + (if n mod 302 = 0 then 0 else 1)"
proof (induction n)
  case 0
  then show ?case using assms by (simp add: announce_turns_def)
next
  case (Suc n)
  let ?b = "announce_turns os (replicate n True) a"
  have s: "announce_turns os (replicate (Suc n) True) a = announce_turn os True ?b"
    by (metis announce_turns_append replicate_Suc replicate_append_same)
  have m: "n mod 302 < 302" by simp
  consider "n mod 302 = 0" | "n mod 302 = 301" | "n mod 302 \<noteq> 0" "n mod 302 \<noteq> 301" by blast
  then show ?case
  proof cases
    case 1
    with Suc show ?thesis unfolding s by (simp add: announce_turn_def announce_def mod_Suc div_Suc)
  next
    case 2
    with Suc show ?thesis unfolding s by (simp add: announce_turn_def mod_Suc div_Suc)
  next
    case 3
    moreover from 3 m have "n mod 302 - 1 < 300" "Suc (n mod 302) \<noteq> 302" by arith+
    ultimately show ?thesis using Suc unfolding s by (simp add: announce_turn_def mod_Suc div_Suc)
  qed
qed

text \<open>Once the flag is cleared, the thread is at its end after two turns.\<close>

fun announce_left :: "announce_pc \<Rightarrow> nat" where
  "announce_left (Ann_sleep i) = 2"
| "announce_left Ann_test = 1"
| "announce_left _ = 0"

lemma announce_turn_stopped:
  assumes "\<not> ann_running a"
  shows "\<not> ann_running (announce_turn os v a)" "broadcasts (announce_turn os v a) = broadcasts a"
    "announce_left (announce_pc (announce_turn os v a)) = announce_left (announce_pc a) - 1"
    "announce_pc a \<noteq> Ann_none \<Longrightarrow> announce_pc (announce_turn os v a) \<noteq> Ann_none"
  using assms by (cases "announce_pc a"; simp add: announce_turn_def)+

interpretation announce_thread: ending_thread "announce_turn os" "\<lambda>v. True" "\<lambda>a. announce_pc a = Ann_ended"
    "\<lambda>a. announce_left (announce_pc a)" "\<lambda>a. \<not> ann_running a \<and> announce_pc a \<noteq> Ann_none"
proof
  fix a :: announcer and v
  assume f: "\<not> ann_running a \<and> announce_pc a \<noteq> Ann_none"
  then show "\<not> ann_running (announce_turn os v a) \<and> announce_pc (announce_turn os v a) \<noteq> Ann_none"
    "announce_left (announce_pc (announce_turn os v a)) \<le> announce_left (announce_pc a)"
    using announce_turn_stopped by simp_all
  show left: "announce_left (announce_pc a) = 0 \<longleftrightarrow> announce_pc a = Ann_ended"
    using f by (cases "announce_pc a") auto
  show "announce_left (announce_pc (announce_turn os v a)) < announce_left (announce_pc a)"
    if "announce_pc a \<noteq> Ann_ended"
    using that f left announce_turn_stopped(3) [of a os v] by simp
qed

lemma stopped_sends_nothing: "\<not> ann_running a \<Longrightarrow> broadcasts (announce_turns os vs a) = broadcasts a"
  unfolding announce_turns_def by (induction vs arbitrary: a) (simp_all add: announce_turn_stopped)

section \<open>Properties\<close>



text \<open>\<open>stopAnnounce\<close> does not wait for the end of the thirty seconds: after the flag is
  cleared the thread has returned after two more turns, and sends nothing more.\<close>

theorem stopAnnounce_prompt:
  assumes "announce_reach os c a" and "ann_running a" and "2 \<le> length vs"
  shows "announce_pc (announce_turns os vs (stopAnnounce a)) = Ann_ended \<and>
    broadcasts (announce_turns os vs (stopAnnounce a)) = broadcasts a"
proof -
  from announce_reach_inv [OF assms(1)] assms(2) have "announce_pc a \<noteq> Ann_none" by (auto simp: announcer_inv_def)
  moreover have "announce_left p \<le> 2" for p by (cases p) simp_all
  ultimately have "announce_pc (announce_turns os vs (stopAnnounce a)) = Ann_ended"
    using assms(2,3) unfolding announce_turns_def
    by (intro announce_thread.ends) (auto simp: stopAnnounce_def intro: le_trans)
  with assms(2) show ?thesis by (simp add: stopped_sends_nothing stopAnnounce_def)
qed

theorem stopAnnounce_prompt_witness:
  "announce_pc (announce_turns Linux [True, True]
     (stopAnnounce (announce_turn Linux True (fst (startAnnounce (new_announcer sample_config)))))) = Ann_ended"
proof -
  let ?a = "fst (startAnnounce (new_announcer sample_config))"
  have "announce_reach Linux sample_config ?a"
    by (rule Announce_next [OF Announce_init], rule Start_announce) (simp add: new_announcer_def)
  then have "announce_reach Linux sample_config (announce_turn Linux True ?a)"
    by (rule Announce_next) (rule Thread_turn)
  moreover have "ann_running (announce_turn Linux True ?a)"
    by (simp add: startAnnounce_def new_announcer_def announce_turn_def announce_def)
  ultimately show ?thesis using stopAnnounce_prompt [where vs = "[True, True]"] by fastforce
qed

end
