(* ===== verification/Command_Parser.thy ===== *)
theory Command_Parser imports Std_Map Protocol begin

text \<open>
  The command line (\<open>src/cli/command_parser.hpp\<close>, \<open>command_parser.cpp\<close>):
  \<open>ParsedArgs\<close> with its flag accessors, and \<open>CommandParser::parse\<close> on the argument
  vector, program name included.
\<close>

record parsed_args =
  command :: string
  positional :: "string list"
  argFlags :: "(string, string) smap"

definition no_args :: parsed_args where
  "no_args = \<lparr>command = '''', positional = [], argFlags = []\<rparr>"

definition hasFlag :: "parsed_args \<Rightarrow> string \<Rightarrow> bool" where
  "hasFlag a name \<longleftrightarrow> sm_lookup (argFlags a) name \<noteq> None"

definition getFlag :: "parsed_args \<Rightarrow> string \<Rightarrow> string option" where
  "getFlag a name = sm_lookup (argFlags a) name"

text \<open>The exceptions of \<open>std::stoi\<close> are caught and give \<open>nullopt\<close>.\<close>

definition getFlagAsPort :: "parsed_args \<Rightarrow> string \<Rightarrow> u16 option" where
  "getFlagAsPort a name =
     (case getFlag a name of
        None \<Rightarrow> None
      | Some val \<Rightarrow> (case stoi val of
          Inl _ \<Rightarrow> None
        | Inr port \<Rightarrow> if 0 < sint port \<and> sint port \<le> 65535 then Some (ucast port) else None))"

definition getFlagAsInt :: "parsed_args \<Rightarrow> string \<Rightarrow> i32 option" where
  "getFlagAsInt a name =
     (case getFlag a name of
        None \<Rightarrow> None
      | Some val \<Rightarrow> (case stoi val of Inl _ \<Rightarrow> None | Inr v \<Rightarrow> Some v))"

abbreviation is_flag :: "string \<Rightarrow> bool" where
  "is_flag arg \<equiv> take 2 arg = ''--''"

text \<open>The loop over \<open>argv[2..]\<close>: a flag takes the next argument as its value unless that is a
  flag too.\<close>

fun parse_loop :: "parsed_args \<Rightarrow> string list \<Rightarrow> parsed_args" where
  "parse_loop a [] = a"
| "parse_loop a [arg] =
     (if is_flag arg then a\<lparr>argFlags := sm_insert (drop 2 arg) ''true'' (argFlags a)\<rparr>
      else a\<lparr>positional := positional a @ [arg]\<rparr>)"
| "parse_loop a (arg # nxt # rest) =
     (if is_flag arg then
        (if \<not> is_flag nxt then
           parse_loop (a\<lparr>argFlags := sm_insert (drop 2 arg) nxt (argFlags a)\<rparr>) rest
         else
           parse_loop (a\<lparr>argFlags := sm_insert (drop 2 arg) ''true'' (argFlags a)\<rparr>) (nxt # rest))
      else parse_loop (a\<lparr>positional := positional a @ [arg]\<rparr>) (nxt # rest))"

fun parse_args :: "string list \<Rightarrow> parsed_args" where
  "parse_args (prog # firstArg # rest) =
     (if firstArg = ''--help'' \<or> firstArg = ''-h'' then no_args\<lparr>command := ''help''\<rparr>
      else if firstArg = ''--version'' \<or> firstArg = ''-v'' then no_args\<lparr>command := ''version''\<rparr>
      else parse_loop (no_args\<lparr>command := firstArg\<rparr>) rest)"
| "parse_args _ = no_args"

definition versionText :: string where
  "versionText = ''LanTalk v1.0.0'' @ [ch_nl]"

definition helpText :: string where
  "helpText = unlines
     [''LanTalk - Cross-platform LAN messaging application'',
      '''',
      ''Usage: lantalk <command> [options]'',
      '''',
      ''Commands:'',
      ''  listen          Start in listening mode waiting for peers'',
      ''    --port N      Set listening port (default: 5050)'',
      ''    --verbose     Enable verbose logging'',
      ''    --quiet       Disable all non-error logging'',
      ''    --log-level L Set log level (DEBUG, INFO, WARN, ERROR)'',
      '''',
      ''  connect HOST    Connect to a specific host'',
      ''    --port N      Set port to connect to (default: 5050)'',
      ''    --verbose     Enable verbose logging'',
      ''    --quiet       Disable all non-error logging'',
      '''',
      ''  scan            Scan local network for peers'',
      ''    --timeout N   Scan timeout in seconds (default: 5)'',
      '''',
      ''  config          Manage application configuration'',
      ''    set KEY VAL   Set configuration key to value'',
      ''    get KEY       Get configuration key value'',
      ''    show          Show all configuration values'',
      '''',
      ''  version         Show application version'',
      ''  status          Show application status'',
      ''  peers           List connected peers'',
      '''',
      ''  --help          Show this help message'',
      ''  --version       Show application version'']"

section \<open>Facts\<close>

lemma ucast_scast: "(ucast (v :: i32) :: u16) = scast v"
  by (rule bit_word_eqI) (auto simp: bit_simps)

lemma ucast_port:
  fixes v :: i32
  assumes "0 < sint v" and "sint v \<le> 65535"
  shows "uint (ucast v :: u16) = sint v"
proof -
  have "(ucast v :: u16) = word_of_int (sint v)" unfolding ucast_scast by (rule scast_eq)
  then have "uint (ucast v :: u16) = uint (word_of_int (sint v) :: u16)" by (rule arg_cong)
  also have "\<dots> = sint v mod 2 ^ LENGTH(16)" by (rule uint_word_of_int)
  finally show ?thesis using assms by simp
qed

lemma getFlagAsPort_Some:
  "getFlagAsPort a name = Some p \<longleftrightarrow>
    (\<exists>val v. getFlag a name = Some val \<and> stoi val = Inr v \<and> 0 < sint v \<and> sint v \<le> 65535 \<and> p = ucast v)"
  by (auto simp: getFlagAsPort_def split: option.splits sum.splits if_splits)

lemma getFlagAsPort_range:
  assumes "getFlagAsPort a name = Some p"
  shows "p \<noteq> 0 \<and> (\<exists>val v. getFlag a name = Some val \<and> stoi val = Inr v \<and> sint v = int (unat p))"
proof -
  from assms obtain val v where v: "getFlag a name = Some val" "stoi val = Inr v" "0 < sint v"
      "sint v \<le> 65535" "p = ucast v"
    by (auto simp: getFlagAsPort_Some)
  from v have "uint p = sint v" by (simp add: ucast_port)
  with v show ?thesis by auto
qed

text \<open>The arguments that denote a parse result: positional arguments first, then each flag with its
  value.\<close>

definition flag_words :: "(string, string) smap \<Rightarrow> string list" where
  "flag_words fs = concat (map (\<lambda>p. [''--'' @ fst p, snd p]) fs)"

definition render_args :: "string \<Rightarrow> parsed_args \<Rightarrow> string list" where
  "render_args prog a =
     prog # command a # positional a @ flag_words (argFlags a)"

definition renderable :: "parsed_args \<Rightarrow> bool" where
  "renderable a \<longleftrightarrow> command a \<notin> {''--help'', ''-h'', ''--version'', ''-v''} \<and>
     (\<forall>p \<in> set (positional a). \<not> is_flag p) \<and> (\<forall>p \<in> set (argFlags a). \<not> is_flag (snd p)) \<and> sm_ok (argFlags a)"

lemma parse_loop_positional:
  "(\<And>p. p \<in> set ps \<Longrightarrow> \<not> is_flag p) \<Longrightarrow>
   parse_loop a (ps @ rest) = parse_loop (a\<lparr>positional := positional a @ ps\<rparr>) rest"
proof (induction ps arbitrary: a)
  case Nil
  then show ?case by simp
next
  case (Cons p ps)
  then have "parse_loop a (p # ps @ rest) = parse_loop (a\<lparr>positional := positional a @ [p]\<rparr>) (ps @ rest)"
    by (cases "ps @ rest") simp_all
  with Cons show ?case by simp
qed

lemma parse_loop_flags:
  "(\<And>p. p \<in> set fs \<Longrightarrow> \<not> is_flag (snd p)) \<Longrightarrow>
   parse_loop a (flag_words fs) = a\<lparr>argFlags := fold (\<lambda>p. sm_insert (fst p) (snd p)) fs (argFlags a)\<rparr>"
  by (induction fs arbitrary: a) (simp_all add: flag_words_def)

lemma parse_render:
  assumes "renderable a"
  shows "parse_args (render_args prog a) = a"
proof -
  have "parse_args (render_args prog a) =
      parse_loop (no_args\<lparr>command := command a\<rparr>) (positional a @ flag_words (argFlags a))"
    using assms by (simp add: renderable_def render_args_def)
  also have "\<dots> = parse_loop (no_args\<lparr>command := command a, positional := positional a\<rparr>) (flag_words (argFlags a))"
    using assms by (subst parse_loop_positional) (simp_all add: renderable_def no_args_def)
  also have "\<dots> = a"
    using assms fold_sm_insert [of "[]" "argFlags a"]
    by (subst parse_loop_flags) (simp_all add: renderable_def no_args_def)
  finally show ?thesis .
qed

interpretation args_codec: wire_codec "render_args prog" "\<lambda>argv. Some (parse_args argv)" renderable for prog
  by unfold_locales (simp add: parse_render)

section \<open>Properties\<close>

text \<open>C34. The parser inverts the command line of a result: command, positional arguments and
  flags, written in that order, are parsed back, for any command but the help and version
  switches and as long as no value or positional argument starts with two dashes.\<close>

theorem args_roundtrip:
  assumes "renderable a"
  shows "parse_args (render_args prog a) = a"
  using assms by (rule parse_render)

definition sample_args :: parsed_args where
  "sample_args = \<lparr>command = ''connect'', positional = [''10.0.0.7''], argFlags = [(''port'', ''6000''), (''quiet'', ''true'')]\<rparr>"

theorem args_roundtrip_witness:
  "parse_args [''lantalk'', ''connect'', ''10.0.0.7'', ''--port'', ''6000'', ''--quiet'', ''true''] = sample_args"
  using args_roundtrip [of sample_args "''lantalk''"]
  by (simp add: renderable_def sample_args_def sm_ok_def render_args_def flag_words_def)

text \<open>The port flag is safe: a port is returned exactly when the flag's value converts to
  an integer from 1 to 65535, and it is that integer; any other value, and a missing flag, give
  no port.\<close>

theorem port_flag_exact:
  "getFlagAsPort a name = Some p \<longleftrightarrow>
    (\<exists>val v. getFlag a name = Some val \<and> stoi val = Inr v \<and> sint v = int (unat p) \<and> p \<noteq> 0)"
proof
  show "\<exists>val v. getFlag a name = Some val \<and> stoi val = Inr v \<and> sint v = int (unat p) \<and> p \<noteq> 0"
    if "getFlagAsPort a name = Some p"
    using getFlagAsPort_range [OF that] by blast
next
  assume "\<exists>val v. getFlag a name = Some val \<and> stoi val = Inr v \<and> sint v = int (unat p) \<and> p \<noteq> 0"
  then obtain val v where v: "getFlag a name = Some val" "stoi val = Inr v" "sint v = int (unat p)" "p \<noteq> 0" by blast
  have "unat p < 65536" using unsigned_less [of p] by simp
  moreover have "0 < unat p" using v(4) by (simp add: unat_gt_0)
  ultimately have r: "0 < sint v" "sint v \<le> 65535" using v(3) by linarith+
  then have "uint (ucast v :: u16) = uint p" using v(3) by (simp add: ucast_port)
  then have "p = ucast v" by (simp add: word_uint_eq_iff)
  with v r show "getFlagAsPort a name = Some p" by (auto simp: getFlagAsPort_Some)
qed

end
