(* ===== verification/Logger.thy ===== *)
theory Logger imports Lantalk_Prelude begin

text \<open>
  The logger (\<open>src/logging/logger.hpp\<close>, \<open>logger.cpp\<close>): levels, the filter, the
  line format and the two outputs. What is printed is collected in the state, in order. The
  broken-down local time and the source location are arguments.
\<close>

datatype log_level = LevelTrace | LevelDebug | LevelInfo | LevelWarn | LevelError | LevelOff

fun level_value :: "log_level \<Rightarrow> int" where
  "level_value LevelTrace = 0"
| "level_value LevelDebug = 1"
| "level_value LevelInfo = 2"
| "level_value LevelWarn = 3"
| "level_value LevelError = 4"
| "level_value LevelOff = 5"

lemma level_value_inject [simp]: "level_value a = level_value b \<longleftrightarrow> a = b"
  by (cases a; cases b) simp_all

text \<open>The comparison of the scoped enumeration is the one of its values.\<close>

instantiation log_level :: linorder
begin

definition "a \<le> b \<longleftrightarrow> level_value a \<le> level_value b"

definition "a < b \<longleftrightarrow> level_value a < level_value b"

instance
  by standard (auto simp: less_eq_log_level_def less_log_level_def)

end

record logger =
  level :: log_level
  quiet :: bool
  outputFile :: "(string \<times> bool) option"
  consoleOut :: "string list"
  fileOut :: "(string \<times> string) list"

definition initial_logger :: logger where
  "initial_logger = \<lparr>level = LevelInfo, quiet = False, outputFile = None, consoleOut = [], fileOut = []\<rparr>"

definition setLevel :: "log_level \<Rightarrow> logger \<Rightarrow> logger" where
  "setLevel l g = g\<lparr>level := l\<rparr>"

definition setQuiet :: "bool \<Rightarrow> logger \<Rightarrow> logger" where
  "setQuiet q g = g\<lparr>quiet := q\<rparr>"

text \<open>\<open>setOutputFile\<close>: the second argument says whether the file could be opened.\<close>

definition setOutputFile :: "string \<Rightarrow> bool \<Rightarrow> logger \<Rightarrow> logger" where
  "setOutputFile path opened g = g\<lparr>outputFile := Some (path, opened)\<rparr>"

fun levelToString :: "log_level \<Rightarrow> string" where
  "levelToString LevelTrace = ''TRACE''"
| "levelToString LevelDebug = ''DEBUG''"
| "levelToString LevelInfo = ''INFO''"
| "levelToString LevelWarn = ''WARN''"
| "levelToString LevelError = ''ERROR''"
| "levelToString LevelOff = ''OFF''"

text \<open>\<open>put_time\<close> with \<open>%Y-%m-%d %H:%M:%S\<close>, then milliseconds in three digits.\<close>

record local_time =
  lt_year :: nat
  lt_month :: nat
  lt_day :: nat
  lt_hour :: nat
  lt_min :: nat
  lt_sec :: nat
  lt_ms :: nat

definition padded :: "nat \<Rightarrow> nat \<Rightarrow> string" where
  "padded w n = replicate (w - length (nat_to_string n)) (CHR ''0'') @ nat_to_string n"

definition currentTimestamp :: "local_time \<Rightarrow> string" where
  "currentTimestamp t =
     nat_to_string (lt_year t) @ ''-'' @ padded 2 (lt_month t) @ ''-'' @ padded 2 (lt_day t) @ '' '' @
     padded 2 (lt_hour t) @ '':'' @ padded 2 (lt_min t) @ '':'' @ padded 2 (lt_sec t) @
     ''.'' @ padded 3 (lt_ms t)"

definition formatMessage :: "log_level \<Rightarrow> string \<Rightarrow> string \<times> nat \<Rightarrow> local_time \<Rightarrow> string" where
  "formatMessage l message loc t =
     ''['' @ currentTimestamp t @ ''] '' @ ''['' @ levelToString l @ ''] '' @ message @ '' ('' @
     fst loc @ '':'' @ nat_to_string (snd loc) @ '')''"

definition color_prefix :: "log_level \<Rightarrow> string" where
  "color_prefix l =
     (if l = LevelError then CHR 0x1B # ''[31m'' else if l = LevelWarn then CHR 0x1B # ''[33m'' else '''')"

definition color_suffix :: "log_level \<Rightarrow> string" where
  "color_suffix l = (if l = LevelError \<or> l = LevelWarn then CHR 0x1B # ''[0m'' else '''')"

definition log_message :: "log_level \<Rightarrow> string \<Rightarrow> string \<times> nat \<Rightarrow> local_time \<Rightarrow> logger \<Rightarrow> logger" where
  "log_message l message loc t g =
     (if l < level g then g
      else
        let formatted = formatMessage l message loc t;
            g1 = (if \<not> quiet g
                  then g\<lparr>consoleOut := consoleOut g @ [color_prefix l @ formatted @ color_suffix l]\<rparr> else g)
        in case outputFile g1 of
             Some (path, True) \<Rightarrow> g1\<lparr>fileOut := fileOut g1 @ [(path, formatted)]\<rparr>
           | _ \<Rightarrow> g1)"

definition trace_message where "trace_message = log_message LevelTrace"
definition debug_message where "debug_message = log_message LevelDebug"
definition info_message where "info_message = log_message LevelInfo"
definition warn_message where "warn_message = log_message LevelWarn"
definition error_message where "error_message = log_message LevelError"

section \<open>What is printed\<close>

lemma log_console:
  "consoleOut (log_message l m loc t g) =
    consoleOut g @ (if level g \<le> l \<and> \<not> quiet g then [color_prefix l @ formatMessage l m loc t @ color_suffix l] else [])"
  by (auto simp: log_message_def Let_def not_less [symmetric] split: option.split bool.split)

lemma log_file:
  "fileOut (log_message l m loc t g) =
    fileOut g @ (case outputFile g of Some (p, True) \<Rightarrow> if level g \<le> l then [(p, formatMessage l m loc t)] else []
      | _ \<Rightarrow> [])"
  by (auto simp: log_message_def Let_def not_less [symmetric] split: option.split bool.split)

lemma log_settings [simp]:
  "level (log_message l m loc t g) = level g" "quiet (log_message l m loc t g) = quiet g"
  "outputFile (log_message l m loc t g) = outputFile g"
  by (auto simp: log_message_def Let_def split: option.split bool.split)

section \<open>Properties\<close>

text \<open>The logger prints a message exactly when its level is at least the one set: on the
  console unless it is quiet, and in the file whenever one is open, quiet or not; the settings
  stay as they are.\<close>

theorem logger_filters:
  "case log_message l m loc t g of g' \<Rightarrow>
    consoleOut g' = consoleOut g @
      (if level g \<le> l \<and> \<not> quiet g then [color_prefix l @ formatMessage l m loc t @ color_suffix l] else []) \<and>
    fileOut g' = fileOut g @
      (case outputFile g of Some (p, True) \<Rightarrow> if level g \<le> l then [(p, formatMessage l m loc t)] else [] | _ \<Rightarrow> []) \<and>
    level g' = level g \<and> quiet g' = quiet g"
  by (simp add: log_console log_file)

end
