(* ===== verification/App_Commands.thy ===== *)
theory App_Commands imports Terminal_UI Tcp_Endpoints Announcer Command_Parser Logger Session_Steps begin

text \<open>
  The commands of the program (\<open>src/main.cpp\<close>): \<open>runListen\<close>, \<open>runConnect\<close>,
  \<open>runScan\<close>, \<open>runConfig\<close>, \<open>runStatus\<close> and the logging flags, as functions on the
  state of the process. What a command meets outside the program (the system's answers, what
  other threads do while the interface runs, times) is a \<open>command_env\<close>. The texts written to
  the terminal are lists of lines.
\<close>

section \<open>The process\<close>

record app =
  app_os :: build_os
  app_tty :: bool
  cfg :: app_config
  cfgPath :: string
  cfgFile :: config_file
  log :: logger
  out :: "console_item list"
  stdin :: "string list"
  g_shutdown :: bool
  g_ui_ptr :: bool
  handlers_set :: bool

record command_env =
  fs_env :: fs_answers
  log_place :: "string \<times> nat"
  log_time :: local_time
  local_clock :: "i64 \<Rightarrow> nat \<times> nat \<times> nat"
  scan_socket :: bool
  scan_bind :: bool
  scan_polls :: "poll list"
  listen_env :: listen_answers
  accept_script :: "accept_answer list"
  accept_last :: accept_answer
  announce_sockets :: "bool list"
  nonblock_bit :: i32
  connect_env :: connect_answers
  conn_kernel :: "send_answer list"
  conn_random :: "bytes option"
  conn_stamp :: int
  conn_time :: int
  ui_script :: "ui_action list"
  ui_random :: "bytes option"
  ui_time :: i64

definition say :: "console_item \<Rightarrow> app \<Rightarrow> app" where
  "say x a = a\<lparr>out := out a @ [x]\<rparr>"

definition log_info :: "command_env \<Rightarrow> string \<Rightarrow> app \<Rightarrow> app" where
  "log_info e m a = a\<lparr>log := info_message m (log_place e) (log_time e) (log a)\<rparr>"

definition port_text :: "u16 \<Rightarrow> string" where
  "port_text p = nat_to_string (unat p)"

text \<open>A signal. Once the handlers are set it runs \<open>signalHandler\<close>, whose call on the
  interface, if there is one, is an action of the schedule; before, its default action ends the
  process (\<open>None\<close>).\<close>

definition signalHandler :: "app \<Rightarrow> app \<times> ui_action list" where
  "signalHandler a = (a\<lparr>g_shutdown := True\<rparr>, if g_ui_ptr a then [Call_stop] else [])"

definition receive_signal :: "app \<Rightarrow> (app \<times> ui_action list) option" where
  "receive_signal a = (if handlers_set a then Some (signalHandler a) else None)"

definition setupSignalHandlers :: "app \<Rightarrow> app" where
  "setupSignalHandlers a = a\<lparr>handlers_set := True\<rparr>"

section \<open>Callbacks\<close>

text \<open>What the callbacks of the session do with an event, once there is an interface.\<close>

fun ui_call_of :: "(i64 \<Rightarrow> nat \<times> nat \<times> nat) \<Rightarrow> event \<Rightarrow> ui_action" where
  "ui_call_of clock (Message_event m name) = Call_message (formatForDisplay clock m)"
| "ui_call_of clock (Peer_event peer connected) =
     Call_info (piDisplayName peer @ ''@'' @ piAddress peer @ (if connected then '' connected'' else '' disconnected''))"

lemma calls_keep_session [simp]: "ui_session (fst (ui_exec (map (ui_call_of clock) ev) t)) = ui_session t"
proof (induction ev arbitrary: t)
  case (Cons e ev)
  then show ?case by (cases e) (simp_all add: case_prod_unfold)
qed simp

text \<open>A socket becomes a connection; \<open>ks\<close> is what the system will answer to its sends.\<close>

definition wrap_socket :: "send_answer list \<Rightarrow> tcp_socket \<Rightarrow> connection" where
  "wrap_socket ks sock = new_connection (Some (sock\<lparr>kernel := ks\<rparr>)) kMaxPayloadSize"

text \<open>The accept callback of \<open>runListen\<close>.\<close>

definition on_accept :: "command_env \<Rightarrow> name_answer \<Rightarrow> socket_handle \<Rightarrow> session \<Rightarrow> app \<Rightarrow> session \<times> app" where
  "on_accept e peername fd s a =
     (let sock = new_socket fd;
          a1 = log_info e (''Accepted connection from '' @ socket_remoteAddress sock peername) a;
          conn = wrap_socket (conn_kernel e) sock
      in (addConnection (conn_random e) (conn_stamp e) (conn_time e) conn s, a1))"

text \<open>The disconnect callback of \<open>runConnect\<close>.\<close>

definition on_lost :: "(i64 \<Rightarrow> nat \<times> nat \<times> nat) \<Rightarrow> string \<Rightarrow> session \<Rightarrow> ui_action list" where
  "on_lost clock reason s =
     (case onDisconnect '''' s of (s', ev) \<Rightarrow>
        Session_becomes s' # map (ui_call_of clock) ev @ [Call_info (''Disconnected: '' @ reason), Call_stop])"

section \<open>Chatting\<close>

text \<open>The interface runs: first the scripted schedule, then, should it not have returned, the
  thread alone until it does.\<close>

definition chat :: "command_env \<Rightarrow> terminal \<Rightarrow> terminal" where
  "chat e t = ui_finish (ui_random e) (ui_time e) (fst (ui_exec (ui_script e) t))"

text \<open>\<open>session.stop()\<close> after the interface returned; its events are still printed.\<close>

definition end_session :: "command_env \<Rightarrow> terminal \<Rightarrow> terminal" where
  "end_session e t =
     (case stop_session (ui_session t) of (s, ev) \<Rightarrow>
        fst (ui_exec (map (ui_call_of (local_clock e)) ev) (t\<lparr>ui_session := s\<rparr>)))"

definition take_back :: "terminal \<Rightarrow> app \<Rightarrow> app" where
  "take_back t a = a\<lparr>out := screen t, stdin := keyboard t, g_ui_ptr := False\<rparr>"

definition end_announce :: "build_os \<Rightarrow> announcer \<Rightarrow> announcer" where
  "end_announce os an =
     (let b = stopAnnounce an
      in if ann_stopping b then announce_join (announce_turns os [True, True] b) else b)"

definition end_server :: "accept_answer \<Rightarrow> server \<Rightarrow> server" where
  "end_server x sv =
     (let b = stop_begin sv in if stopping b then stop_join (accept_turn x (accept_turn x b)) else b)"

section \<open>Listening\<close>

definition override_port :: "parsed_args \<Rightarrow> app \<Rightarrow> app" where
  "override_port args a =
     (case getFlagAsPort args ''port'' of
        Some p \<Rightarrow> a\<lparr>cfg := (cfg a)\<lparr>listenPort := p\<rparr>\<rparr>
      | None \<Rightarrow> a)"

definition bind_failed_text :: "u16 \<Rightarrow> string" where
  "bind_failed_text p = unlines
     ['''',
      ''Error: Could not bind to port '' @ port_text p @ ''.'',
      ''Possible causes:'',
      ''  - Port is already in use (try --port NNNN)'',
      ''  - Insufficient permissions'']"

text \<open>The result has the server, the announcer and the session as the command leaves them.\<close>

definition run_listen :: "command_env \<Rightarrow> parsed_args \<Rightarrow> app \<Rightarrow> app \<times> server \<times> announcer \<times> session" where
  "run_listen e args a =
     (let a1 = override_port args a;
          port = listenPort (cfg a1);
          a2 = log_info e (''Starting LanTalk server on port '' @ port_text port) a1;
          s0 = wired_session (cfg a2);
          started = start_server (listen_env e) (new_server port True)
      in if \<not> snd started then
           (say (Stderr (bind_failed_text port)) a2, fst started, new_announcer (cfg a2), fst (stop_session s0))
         else
           let an0 = new_announcer (cfg a2);
               an1 = (if discoveryEnabled (cfg a2) then fst (startAnnounce an0) else an0);
               t0 = new_terminal (app_os a2) (app_tty a2) (cfg a2) s0 (out a2) (stdin a2);
               a3 = setupSignalHandlers (a2\<lparr>g_ui_ptr := True\<rparr>);
               t1 = chat e (printListenBanner (''0.0.0.0:'' @ port_text port) t0);
               an2 = end_announce (app_os a2) (announce_turns (app_os a2) (announce_sockets e) an1);
               sv = end_server (accept_last e) (fold accept_turn (accept_script e) (fst started));
               t2 = end_session e t1
           in (take_back t2 a3, sv, an2, ui_session t2))"

section \<open>Connecting\<close>

definition scan_peers :: "command_env \<Rightarrow> app_config \<Rightarrow> discovered_peer list \<times> discovered_peer list" where
  "scan_peers e c =
     (case scan (scan_socket e) (scan_bind e) (scan_polls e) c of Inr r \<Rightarrow> r | Inl _ \<Rightarrow> ([], []))"

definition connect_usage :: string where
  "connect_usage = unlines [''Usage: lantalk connect <host|ip> [--port PORT]'']"

definition not_found_text :: "string \<Rightarrow> string" where
  "not_found_text name = unlines
     ['''', ''Device '' @ [ch_quote] @ name @ [ch_quote] @ '' not found on LAN.'', ''Try: lantalk scan'']"

definition connect_failed_text :: "string \<Rightarrow> u16 \<Rightarrow> string \<Rightarrow> string" where
  "connect_failed_text host port reason = unlines
     ['''',
      ''Connection failed: '' @ host @ '':'' @ port_text port,
      ''Reason: '' @ reason,
      ''Possible causes:'',
      ''  - LanTalk is not running on the remote device'',
      ''  - TCP port '' @ port_text port @ '' is blocked by a firewall'',
      ''  - IP address is incorrect'']"

text \<open>Where to connect: a host with a dot is taken as it is, any other is looked up among the
  devices that announce themselves. The second part is what is printed on the way.\<close>

definition resolve_target :: "command_env \<Rightarrow> app_config \<Rightarrow> string \<Rightarrow> u16 \<Rightarrow> (string \<times> u16) option \<times> console_item list" where
  "resolve_target e c host port =
     (if str_find ''.'' host \<noteq> None then (Some (host, port), [])
      else
        let scanning = Stdout (unlines [''Scanning LAN for device '' @ [ch_quote] @ host @ [ch_quote] @ ''...'']) in
        case find (\<lambda>p. foundName p = host \<or> foundDeviceId p = host) (fst (scan_peers e c)) of
          None \<Rightarrow> (None, [scanning, Stderr (not_found_text host)])
        | Some p \<Rightarrow> (Some (ipAddress p, tcpPort p),
            [scanning, Stdout (unlines [''Found: '' @ foundName p @ '' at '' @ ipAddress p @ '':'' @ port_text (tcpPort p)])]))"

definition run_connect :: "command_env \<Rightarrow> parsed_args \<Rightarrow> app \<Rightarrow> app \<times> session option" where
  "run_connect e args a =
     (case positional args of
        [] \<Rightarrow> (say (Stderr connect_usage) a, None)
      | host0 # _ \<Rightarrow>
          let port0 = (case getFlagAsPort args ''port'' of Some p \<Rightarrow> p | None \<Rightarrow> listenPort (cfg a));
              a1 = say (Stdout (unlines [''Connecting to '' @ host0 @ '':'' @ port_text port0 @ ''...''])) a;
              found = resolve_target e (cfg a) host0 port0;
              a2 = fold say (snd found) a1
          in case fst found of
               None \<Rightarrow> (a2, None)
             | Some (host, port) \<Rightarrow>
                 (case fst (tcp_connect (nonblock_bit e) (connect_env e) host port (sint (connectTimeoutSecs (cfg a)))) of
                    Inl reason \<Rightarrow> (say (Stderr (connect_failed_text host port reason)) a2, None)
                  | Inr (sock, _) \<Rightarrow>
                      let conn = wrap_socket (conn_kernel e) sock;
                          s1 = addConnection (conn_random e) (conn_stamp e) (conn_time e) conn (wired_session (cfg a2));
                          t0 = new_terminal (app_os a2) (app_tty a2) (cfg a2) s1 (out a2) (stdin a2);
                          a3 = setupSignalHandlers (a2\<lparr>g_ui_ptr := True\<rparr>);
                          t1 = chat e (printBanner host (host @ '':'' @ port_text port) t0);
                          t2 = end_session e t1
                      in (take_back t2 a3, Some (ui_session t2))))"

section \<open>Scanning, configuration, status\<close>

fun scan_entries :: "nat \<Rightarrow> discovered_peer list \<Rightarrow> console_item list" where
  "scan_entries n [] = []"
| "scan_entries n (p # ps) =
     Stdout (unlines
       [nat_to_string (n + 1) @ ''. '' @ foundName p,
        ''   IP:       '' @ ipAddress p,
        ''   Port:     '' @ port_text (tcpPort p),
        ''   Platform: '' @ foundPlatform p,
        ''   ID:       '' @ foundDeviceId p,
        '''']) # scan_entries (n + 1) ps"

definition run_scan :: "command_env \<Rightarrow> app \<Rightarrow> app" where
  "run_scan e a =
     (let a1 = say (Stdout (unlines
                 ['''', ''Scanning for LanTalk peers on the local network...'',
                  ''(waiting '' @ nat_to_string kScanTimeoutSecs @ '' seconds)'', ''''])) a
      in case scan_peers e (cfg a) of (found, calls) \<Rightarrow>
           let a2 = fold say (scan_entries 0 calls) a1
           in if found = [] then
                say (Stdout (unlines
                  [''No LanTalk peers found.'', ''Make sure other devices are running: lantalk listen''])) a2
              else
                say (Stdout (unlines
                  [''Found '' @ nat_to_string (length found) @ '' peer(s).'',
                   ''Connect with: lantalk connect <ip-or-name>''])) a2)"

text \<open>\<open>Config::print\<close>.\<close>

definition print_config :: "command_env \<Rightarrow> app \<Rightarrow> app" where
  "print_config e a =
     log_info e (''Config: display_name='' @ displayName (cfg a) @ '', listen_port='' @ port_text (listenPort (cfg a))) a"

definition save_config :: "command_env \<Rightarrow> app \<Rightarrow> app" where
  "save_config e a =
     (case config_save (fs_env e) (cfg a) of
        (ok, Some text) \<Rightarrow> a\<lparr>cfgFile := Contents text\<rparr>
      | (ok, None) \<Rightarrow> a)"

definition run_config_set :: "command_env \<Rightarrow> string \<Rightarrow> string \<Rightarrow> app \<Rightarrow> conv_error + app" where
  "run_config_set e key value a =
     (case config_set (cfg a) key value of
        Inl err \<Rightarrow> Inl err
      | Inr (c, known) \<Rightarrow>
          if \<not> known then
            Inr (say (Stderr (unlines
              [''Unknown config key: '' @ key, ''Run '' @ [ch_sq] @ ''lantalk config show'' @ [ch_sq] @ '' to see valid keys.'']))
              (a\<lparr>cfg := c\<rparr>))
          else
            Inr (say (Stdout (unlines
              [''Set '' @ key @ '' = '' @ value, ''Config saved to: '' @ cfgPath a]))
              (save_config e (a\<lparr>cfg := c\<rparr>))))"

definition run_config_get :: "string \<Rightarrow> app \<Rightarrow> app" where
  "run_config_get key a =
     (case getAsString (cfg a) key of
        None \<Rightarrow> say (Stderr (unlines [''Unknown config key: '' @ key])) a
      | Some val \<Rightarrow> say (Stdout (unlines [key @ '' = '' @ val])) a)"

definition run_config :: "command_env \<Rightarrow> parsed_args \<Rightarrow> app \<Rightarrow> conv_error + app" where
  "run_config e args a =
     (case positional args of
        [] \<Rightarrow> Inr (print_config e a)
      | sub # rest \<Rightarrow>
          if sub = ''show'' then Inr (print_config e a)
          else if sub = ''set'' then
            (case rest of
               key # val # _ \<Rightarrow> run_config_set e key val a
             | _ \<Rightarrow> Inr (say (Stderr (unlines [''Usage: lantalk config set <key> <value>''])) a))
          else if sub = ''get'' then
            (case rest of
               key # _ \<Rightarrow> Inr (run_config_get key a)
             | [] \<Rightarrow> Inr (say (Stderr (unlines [''Usage: lantalk config get <key>''])) a))
          else
            Inr (say (Stderr (unlines
              [''Unknown config sub-command: '' @ sub,
               ''Usage: lantalk config [show | set KEY VALUE | get KEY]''])) a))"

definition run_status :: "app \<Rightarrow> app" where
  "run_status a =
     say (Stdout (unlines
       ['''',
        ''LanTalk Status'',
        ''=============='',
        ''Device ID:    '' @ deviceId (cfg a),
        ''Display Name: '' @ displayName (cfg a),
        ''Platform:     '' @ platform (cfg a),
        ''Listen Port:  '' @ port_text (listenPort (cfg a)),
        ''Discovery:    '' @ (if discoveryEnabled (cfg a) then ''enabled'' else ''disabled''),
        ''Config file:  '' @ cfgPath a])) a"

section \<open>Logging flags\<close>

definition level_named :: "string \<Rightarrow> log_level option" where
  "level_named s =
     (if s = ''trace'' then Some LevelTrace
      else if s = ''debug'' then Some LevelDebug
      else if s = ''info'' then Some LevelInfo
      else if s = ''warn'' then Some LevelWarn
      else if s = ''error'' then Some LevelError
      else None)"

definition apply_logging_flags :: "parsed_args \<Rightarrow> app \<Rightarrow> app" where
  "apply_logging_flags args a =
     (let a1 = (if hasFlag args ''quiet'' then a\<lparr>log := setQuiet True (log a)\<rparr> else a);
          a2 = (if hasFlag args ''verbose'' then a1\<lparr>log := setLevel LevelDebug (log a1)\<rparr> else a1)
      in case getFlag args ''log-level'' of
           None \<Rightarrow> a2
         | Some s \<Rightarrow>
             (case level_named s of
                Some l \<Rightarrow> a2\<lparr>log := setLevel l (log a2)\<rparr>
              | None \<Rightarrow> say (Stderr (unlines
                  [''Unknown log level: '' @ s @ ''. Valid: trace debug info warn error''])) a2))"

section \<open>What the commands leave as it was\<close>

lemma say_simps [simp, state_simps]:
  "stdin (say x a) = stdin a" "cfg (say x a) = cfg a" "cfgFile (say x a) = cfgFile a" "cfgPath (say x a) = cfgPath a"
  "log (say x a) = log a" "g_ui_ptr (say x a) = g_ui_ptr a" "handlers_set (say x a) = handlers_set a"
  "g_shutdown (say x a) = g_shutdown a" "app_os (say x a) = app_os a" "app_tty (say x a) = app_tty a"
  "out (say x a) = out a @ [x]"
  by (simp_all add: say_def)

lemma say_all [simp, state_simps]:
  "stdin (fold say xs a) = stdin a" "cfg (fold say xs a) = cfg a" "out (fold say xs a) = out a @ xs"
  "g_ui_ptr (fold say xs a) = g_ui_ptr a" "handlers_set (fold say xs a) = handlers_set a"
  by (induction xs arbitrary: a) simp_all

lemma log_info_simps [simp, state_simps]:
  "stdin (log_info e m a) = stdin a" "cfg (log_info e m a) = cfg a" "cfgFile (log_info e m a) = cfgFile a"
  "cfgPath (log_info e m a) = cfgPath a" "out (log_info e m a) = out a" "app_os (log_info e m a) = app_os a"
  "app_tty (log_info e m a) = app_tty a" "handlers_set (log_info e m a) = handlers_set a"
  "g_ui_ptr (log_info e m a) = g_ui_ptr a"
  by (simp_all add: log_info_def)

lemma take_back_simps [simp, state_simps]:
  "stdin (take_back t a) = keyboard t" "out (take_back t a) = screen t" "\<not> g_ui_ptr (take_back t a)"
  "handlers_set (take_back t a) = handlers_set a" "cfg (take_back t a) = cfg a" "cfgFile (take_back t a) = cfgFile a"
  by (simp_all add: take_back_def)

lemma setup_simps [simp, state_simps]:
  "handlers_set (setupSignalHandlers a)" "cfg (setupSignalHandlers a) = cfg a"
  "cfgFile (setupSignalHandlers a) = cfgFile a"
  by (simp_all add: setupSignalHandlers_def)

lemma override_port_simps [simp, state_simps]:
  "stdin (override_port args a) = stdin a" "out (override_port args a) = out a"
  "cfgFile (override_port args a) = cfgFile a"
  by (simp_all add: override_port_def split: option.split)

lemma run_scan_stdin [simp]: "stdin (run_scan e a) = stdin a"
  by (simp add: run_scan_def Let_def case_prod_unfold)

lemma run_status_stdin [simp]: "stdin (run_status a) = stdin a"
  by (simp add: run_status_def)

lemma banner_keyboard [simp]:
  "keyboard (printListenBanner x t) = keyboard t" "keyboard (printBanner n x t) = keyboard t"
  "keyboard (new_terminal os tty c s so kb) = kb"
  by (simp_all add: print_defs new_terminal_def)

lemma chat_keyboard: "suffix (keyboard (chat e t)) (keyboard t)"
  unfolding chat_def by (rule suffix_order.trans [OF finish_keyboard exec_keyboard])

lemma end_session_keyboard: "suffix (keyboard (end_session e t)) (keyboard t)"
  using exec_keyboard [of _ "t\<lparr>ui_session := fst (stop_session (ui_session t))\<rparr>"]
  by (simp add: end_session_def case_prod_unfold)

lemma chatted_keyboard:
  "suffix (keyboard (end_session e (chat e (printListenBanner x (new_terminal os tty c so b kb))))) kb"
  "suffix (keyboard (end_session e (chat e (printBanner n x (new_terminal os tty c so b kb))))) kb"
  using suffix_order.trans [OF end_session_keyboard chat_keyboard, of e e] by (metis banner_keyboard)+

lemma run_listen_stdin: "suffix (stdin (fst (run_listen e args a))) (stdin a)"
  using chatted_keyboard(1) by (auto simp: run_listen_def Let_def simp del: append.simps)

lemma run_connect_stdin: "suffix (stdin (fst (run_connect e args a))) (stdin a)"
  by (auto simp: run_connect_def Let_def chatted_keyboard split: list.split option.split sum.split prod.split)

end
