(* ===== verification/Listening_Device.thy ===== *)
theory Listening_Device imports App_Commands begin

text \<open>
  A device that listens, with all its threads (\<open>runListen\<close> in \<open>src/main.cpp\<close>): the main thread
  from the announcement over the input loop to the shutdown, the thread that accepts, the detached
  threads of the accept callback, the announcing thread, the ping thread, one receiving thread per
  connection, and signals. Each is a position and one function that takes its turn; a schedule is the list of
  turns in the order in which they happen. The state is made of the states of the parts: the server,
  the announcer, and the interface with its session.
\<close>

section \<open>Turns of the session's threads\<close>

text \<open>The turn of the receiving thread of a connection: on to \<open>recv\<close>, back from it with an
  answer, the callback for the next frame, or the rate check at a time.\<close>

definition receiver_turn :: "(string \<Rightarrow> string) \<Rightarrow> string \<Rightarrow> recv_answer \<Rightarrow> int \<Rightarrow> session \<Rightarrow> session \<times> event list" where
  "receiver_turn route cid a now s =
     (case sm_lookup (connections s) cid of
        None \<Rightarrow> (s, [])
      | Some c \<Rightarrow>
          (case thread c of
             At_head \<Rightarrow> (case recv_enter c of (c', ev) \<Rightarrow> notify_closed route cid ev (set_conn cid c' s))
           | In_recv \<Rightarrow> (case recv_return c a of (c', ev) \<Rightarrow> notify_closed route cid ev (set_conn cid c' s))
           | Delivering [] \<Rightarrow> (set_conn cid (rate_check now c) s, [])
           | Delivering (f # fs) \<Rightarrow>
               (case next_frame c of
                  None \<Rightarrow> (s, [])
                | Some (g, c') \<Rightarrow> onFrame (route cid) g (set_conn cid c' s))
           | _ \<Rightarrow> (s, [])))"

text \<open>The turn of the ping thread: the next dead connection of a round, or a new round.\<close>

definition pinger_turn :: "session \<Rightarrow> session \<times> event list" where
  "pinger_turn s =
     (if deadConns s \<noteq> [] then ping_reap s
      else if session_running s then (ping_sweep s, []) else (s, []))"

section \<open>The device\<close>

datatype main_pc = Main_announces | Main_builds | Main_chats | Main_quiets | Main_joins_announcer
  | Main_stops_server | Main_joins_server | Main_stops_session | Main_returned

record device =
  dv_config :: app_config
  dv_clock :: "i64 \<Rightarrow> nat \<times> nat \<times> nat"
  dv_os :: build_os
  dv_server :: server
  dv_announcer :: announcer
  dv_terminal :: terminal
  dv_built :: bool
  dv_main :: main_pc
  dv_typed :: "sent_line list"

abbreviation dv_session :: "device \<Rightarrow> session" where
  "dv_session d \<equiv> ui_session (dv_terminal d)"

text \<open>After \<open>session.start()\<close> and a \<open>server.start()\<close> that succeeded.\<close>

definition listening :: "app_config \<Rightarrow> (i64 \<Rightarrow> nat \<times> nat \<times> nat) \<Rightarrow> build_os \<Rightarrow> bool \<Rightarrow> console_item list \<Rightarrow>
    listen_answers \<Rightarrow> string list \<Rightarrow> device" where
  "listening c clock os tty scr la kb =
     \<lparr>dv_config = c, dv_clock = clock, dv_os = os, dv_server = fst (start_server la (new_server (listenPort c) True)),
      dv_announcer = new_announcer c, dv_terminal = new_terminal os tty c (wired_session c) scr kb,
      dv_built = False, dv_main = Main_announces, dv_typed = []\<rparr>"

text \<open>The session moves on and calls back; the callbacks print once there is an interface.\<close>

definition session_shows :: "bool \<Rightarrow> (i64 \<Rightarrow> nat \<times> nat \<times> nat) \<Rightarrow> session \<times> event list \<Rightarrow> terminal \<Rightarrow> terminal" where
  "session_shows built clock r t =
     (case r of (s, ev) \<Rightarrow>
        let t1 = t\<lparr>ui_session := s\<rparr> in if built then fst (ui_exec (map (ui_call_of clock) ev) t1) else t1)"

definition session_moves :: "session \<times> event list \<Rightarrow> device \<Rightarrow> device" where
  "session_moves r d = d\<lparr>dv_terminal := session_shows (dv_built d) (dv_clock d) r (dv_terminal d)\<rparr>"

text \<open>The main thread. It waits where it joins a thread that has not ended.\<close>

definition main_turn :: "bytes option \<Rightarrow> i64 \<Rightarrow> device \<Rightarrow> device" where
  "main_turn rnd now d =
     (case dv_main d of
        Main_announces \<Rightarrow>
          d\<lparr>dv_announcer := (if discoveryEnabled (dv_config d) then fst (startAnnounce (dv_announcer d)) else dv_announcer d),
            dv_main := Main_builds\<rparr>
      | Main_builds \<Rightarrow>
          d\<lparr>dv_built := True, dv_main := Main_chats,
            dv_terminal := printListenBanner (''0.0.0.0:'' @ port_text (listenPort (dv_config d))) (dv_terminal d)\<rparr>
      | Main_chats \<Rightarrow>
          (if ui_pc (dv_terminal d) = Ui_done then d\<lparr>dv_main := Main_quiets\<rparr>
           else case ui_turn rnd now (dv_terminal d) of (t, w) \<Rightarrow> d\<lparr>dv_terminal := t, dv_typed := dv_typed d @ w\<rparr>)
      | Main_quiets \<Rightarrow> d\<lparr>dv_announcer := stopAnnounce (dv_announcer d), dv_main := Main_joins_announcer\<rparr>
      | Main_joins_announcer \<Rightarrow>
          (if \<not> ann_stopping (dv_announcer d) then d\<lparr>dv_main := Main_stops_server\<rparr>
           else if announce_pc (dv_announcer d) = Ann_ended then
             d\<lparr>dv_announcer := announce_join (dv_announcer d), dv_main := Main_stops_server\<rparr>
           else d)
      | Main_stops_server \<Rightarrow> d\<lparr>dv_server := stop_begin (dv_server d), dv_main := Main_joins_server\<rparr>
      | Main_joins_server \<Rightarrow>
          (if \<not> stopping (dv_server d) then d\<lparr>dv_main := Main_stops_session\<rparr>
           else if accept_pc (dv_server d) = Loop_ended then
             d\<lparr>dv_server := stop_join (dv_server d), dv_main := Main_stops_session\<rparr>
           else d)
      | Main_stops_session \<Rightarrow> (session_moves (stop_session (dv_session d)) d)\<lparr>dv_main := Main_returned\<rparr>
      | Main_returned \<Rightarrow> d)"

text \<open>The detached thread of an accepted descriptor runs the accept callback.\<close>

definition callback_turn :: "nat \<Rightarrow> send_answer list \<Rightarrow> bytes option \<Rightarrow> int \<Rightarrow> int \<Rightarrow> device \<Rightarrow> device" where
  "callback_turn i ks rnd ts now d =
     (if i < length (pending (dv_server d)) then
        session_moves (addConnection rnd ts now (wrap_socket ks (new_socket (pending (dv_server d) ! i))) (dv_session d), [])
          (d\<lparr>dv_server := run_callback i (dv_server d)\<rparr>)
      else d)"

text \<open>The handler of a signal stops the interface, from when it is installed until \<open>run\<close> returned.\<close>

definition signal_turn :: "device \<Rightarrow> device" where
  "signal_turn d = (if dv_main d = Main_chats then d\<lparr>dv_terminal := ui_stop (dv_terminal d)\<rparr> else d)"

datatype device_action =
    Main_turn "bytes option" i64
  | Accepts_turn accept_answer
  | Callback_turn nat "send_answer list" "bytes option" int int
  | Receiver_turn string recv_answer int
  | Pinger_turn
  | Announcer_turn bool
  | Signal_arrives

fun device_act :: "device_action \<Rightarrow> device \<Rightarrow> device" where
  "device_act (Main_turn rnd now) d = main_turn rnd now d"
| "device_act (Accepts_turn x) d = d\<lparr>dv_server := accept_turn x (dv_server d)\<rparr>"
| "device_act (Callback_turn i ks rnd ts now) d = callback_turn i ks rnd ts now d"
| "device_act (Receiver_turn cid a now) d = session_moves (receiver_turn main_route cid a now (dv_session d)) d"
| "device_act Pinger_turn d = session_moves (pinger_turn (dv_session d)) d"
| "device_act (Announcer_turn valid) d = d\<lparr>dv_announcer := announce_turn (dv_os d) valid (dv_announcer d)\<rparr>"
| "device_act Signal_arrives d = signal_turn d"

section \<open>The session of a device runs as a session\<close>

lemma session_shows_session [simp]: "ui_session (session_shows built clock r t) = fst r"
  by (simp add: session_shows_def Let_def split: prod.split)

lemma session_moves_simps [simp]:
  "dv_session (session_moves (s, ev) d) = s" "dv_server (session_moves r d) = dv_server d"
  "dv_announcer (session_moves r d) = dv_announcer d" "dv_main (session_moves r d) = dv_main d"
  "dv_config (session_moves r d) = dv_config d" "dv_os (session_moves r d) = dv_os d"
  "dv_typed (session_moves r d) = dv_typed d" "dv_built (session_moves r d) = dv_built d"
  by (simp_all add: session_moves_def)

lemma receiver_steps:
  assumes "receiver_turn route cid a now s = (s', ev)"
  shows "(s', ev) = (s, []) \<or> (\<exists>hs. session_step route s (hs, ev) s')"
proof (cases "sm_lookup (connections s) cid")
  case None
  then show ?thesis using assms by (simp add: receiver_turn_def)
next
  case (Some c)
  show ?thesis
  proof (cases "thread c")
    case At_head
    with Some assms show ?thesis
      by (auto simp: receiver_turn_def split: prod.splits intro: session_step.Enter)
  next
    case In_recv
    with Some assms show ?thesis
      by (auto simp: receiver_turn_def split: prod.splits intro: session_step.Return)
  next
    case (Delivering fs)
    with Some assms show ?thesis
      by (cases fs) (auto simp: receiver_turn_def split: option.splits intro: session_step.Check session_step.Frame)
  qed (use Some assms in \<open>auto simp: receiver_turn_def\<close>)
qed

lemma pinger_steps:
  assumes "pinger_turn s = (s', ev)"
  shows "(s', ev) = (s, []) \<or> session_step route s ([], ev) s'"
  using assms by (auto simp: pinger_turn_def split: if_splits intro: session_step.Sweep session_step.Reap)

lemma ui_turn_session:
  "ui_session (fst (ui_turn rnd now t)) \<in> {ui_session t, broadcast rnd now (hd (texts (snd (ui_turn rnd now t)))) (ui_session t)}"
  by (cases "ui_pc t") (auto simp: ui_turn_def handle_line_def ui_return_def show_prompt_def case_prod_unfold split: list.splits)

text \<open>A turn of any thread leaves the session alone or is a transition of it.\<close>

lemma main_turn_session:
  "dv_session (main_turn rnd now d) = dv_session d \<or>
   (\<exists>l. session_step main_route (dv_session d) l (dv_session (main_turn rnd now d)))"
proof (cases "dv_main d")
  case Main_chats
  let ?b = "broadcast rnd now (hd (texts (snd (ui_turn rnd now (dv_terminal d))))) (dv_session d)"
  have "session_step main_route (dv_session d) ([], []) ?b" by (rule session_step.Broadcast)
  with Main_chats show ?thesis
    using ui_turn_session [of rnd now "dv_terminal d"] by (auto simp: main_turn_def case_prod_unfold)
next
  case Main_stops_session
  obtain s ev where "stop_session (dv_session d) = (s, ev)" by (cases "stop_session (dv_session d)")
  with Main_stops_session show ?thesis by (auto simp: main_turn_def intro: session_step.Stop)
qed (simp_all add: main_turn_def print_defs)

lemma act_session:
  "dv_session (device_act a d) = dv_session d \<or> (\<exists>l. session_step main_route (dv_session d) l (dv_session (device_act a d)))"
proof (cases a)
  case (Main_turn rnd now)
  then show ?thesis using main_turn_session by simp
next
  case (Callback_turn i ks rnd ts now)
  then show ?thesis by (auto simp: callback_turn_def wrap_socket_def intro: session_step.Add)
next
  case (Receiver_turn cid x now)
  obtain s ev where "receiver_turn main_route cid x now (dv_session d) = (s, ev)"
    by (cases "receiver_turn main_route cid x now (dv_session d)")
  with Receiver_turn receiver_steps [OF this] show ?thesis by auto
next
  case Pinger_turn
  obtain s ev where "pinger_turn (dv_session d) = (s, ev)" by (cases "pinger_turn (dv_session d)")
  with Pinger_turn pinger_steps [OF this] show ?thesis by auto
next
  case Signal_arrives
  then show ?thesis by (simp add: signal_turn_def ui_stop_def)
qed simp_all

lemma device_session_run: "\<exists>l. session_run main_route c l (dv_session (fold device_act as (listening c clock os tty scr la kb)))"
proof (induction as rule: rev_induct)
  case Nil
  then show ?case using session_run.Init by (auto simp: listening_def new_terminal_def)
next
  case (snoc a as)
  let ?d = "fold device_act as (listening c clock os tty scr la kb)"
  from snoc obtain hs es where r: "session_run main_route c (hs, es) (dv_session ?d)" by auto
  show ?case
  proof (cases "dv_session (device_act a ?d) = dv_session ?d")
    case True
    then show ?thesis using snoc by simp
  next
    case False
    then obtain hs' es' where "session_step main_route (dv_session ?d) (hs', es') (dv_session (device_act a ?d))"
      using act_session [of a ?d] by auto
    from session_run.Step [OF r this] show ?thesis by auto
  qed
qed

section \<open>The threads of a device and their ends\<close>

definition device_inv :: "device \<Rightarrow> bool" where
  "device_inv d \<longleftrightarrow> server_inv (dv_server d) \<and> accounted (dv_server d) \<and>
     announcer_inv (dv_config d) (dv_os d) (dv_announcer d) \<and>
     (stopping (dv_server d) \<longrightarrow> dv_main d = Main_joins_server) \<and>
     (dv_main d \<in> {Main_joins_server, Main_stops_session, Main_returned} \<longrightarrow> \<not> srv_running (dv_server d)) \<and>
     (ann_stopping (dv_announcer d) \<longrightarrow> dv_main d = Main_joins_announcer) \<and>
     (dv_main d \<notin> {Main_announces, Main_builds, Main_chats, Main_quiets} \<longrightarrow> \<not> ann_running (dv_announcer d)) \<and>
     (dv_main d = Main_returned \<longrightarrow> \<not> session_running (dv_session d))"

lemma receiver_running: "session_running (fst (receiver_turn route cid a now s)) = session_running s"
  by (auto simp: receiver_turn_def notify_closed_def set_conn_def case_prod_unfold
      split: option.split recv_thread.split list.split recv_event.split)

lemma pinger_running: "session_running (fst (pinger_turn s)) = session_running s"
  by (simp add: pinger_turn_def ping_reap_def ping_sweep_def split: list.split)

lemma add_running: "session_running (addConnection rnd ts now c s) = session_running s"
  by (simp add: addConnection_def sendHello_def Let_def)

lemma stop_running: "\<not> session_running (fst (stop_session s))"
  by (simp add: stop_session_def case_prod_unfold reap_all_running)

lemma broadcast_running: "session_running (broadcast rnd now t s) = session_running s"
  by (simp add: broadcast_def Let_def)

lemma callback_server [simp]:
  "stopping (run_callback i s) = stopping s"
  by (simp add: run_callback_def)

lemma accept_stopping [simp]: "stopping (accept_turn x s) = stopping s"
  by (cases "accept_pc s"; cases x) (simp_all add: accept_turn_def accept_returns_def)

lemma accept_running [simp]: "srv_running (accept_turn x s) = srv_running s"
  by (cases "accept_pc s"; cases x) (simp_all add: accept_turn_def accept_returns_def)

lemma announcer_turn_flags [simp]:
  "ann_running (announce_turn os v a) = ann_running a" "ann_stopping (announce_turn os v a) = ann_stopping a"
  by (cases "announce_pc a"; simp add: announce_turn_def announce_def)+

lemma inv_main_turn:
  assumes i: "device_inv d"
  shows "device_inv (main_turn rnd now d)"
proof (cases "dv_main d")
  case Main_chats
  then show ?thesis using i by (auto simp: device_inv_def main_turn_def split: prod.split)
next
  case Main_stops_session
  then show ?thesis using i stop_running [of "dv_session d"]
    by (cases "stop_session (dv_session d)") (auto simp: device_inv_def main_turn_def)
next
  case Main_announces
  then show ?thesis using i announce_step_inv [OF Start_announce]
    by (auto simp: device_inv_def main_turn_def startAnnounce_def)
next
  case Main_quiets
  then show ?thesis using i announce_step_inv [OF Stop_announce]
    by (auto simp: device_inv_def main_turn_def stopAnnounce_def)
next
  case Main_joins_announcer
  then show ?thesis using i announce_step_inv [OF Join_announce]
    by (auto simp: device_inv_def main_turn_def announce_join_def)
next
  case Main_stops_server
  then show ?thesis using i stop_begin_ok [of "dv_server d"] by (auto simp: device_inv_def main_turn_def stop_begin_def)
next
  case Main_joins_server
  then show ?thesis using i stop_join_ok [of "dv_server d"] by (auto simp: device_inv_def main_turn_def stop_join_def)
qed (use i in \<open>auto simp: device_inv_def main_turn_def\<close>)

lemma inv_session_moves:
  "device_inv d \<Longrightarrow> session_running (fst r) = session_running (dv_session d) \<Longrightarrow> device_inv (session_moves r d)"
  by (cases r) (simp add: device_inv_def)

lemma inv_callback:
  assumes i: "device_inv d"
  shows "device_inv (callback_turn n ks rnd ts now d)"
proof -
  have "device_inv (d\<lparr>dv_server := run_callback n (dv_server d)\<rparr>)"
    using i callback_ok [of "dv_server d" n] by (simp add: device_inv_def)
  then show ?thesis using i by (auto simp: callback_turn_def add_running intro: inv_session_moves)
qed

lemma inv_device_act:
  assumes i: "device_inv d"
  shows "device_inv (device_act a d)"
proof (cases a)
  case (Accepts_turn x)
  then show ?thesis using i accept_ok [of "dv_server d" x] by (simp add: device_inv_def)
next
  case (Announcer_turn v)
  then show ?thesis using i announce_step_inv [OF Thread_turn, of "dv_config d" "dv_os d" "dv_announcer d" v]
    by (simp add: device_inv_def)
next
  case Signal_arrives
  then show ?thesis using i by (auto simp: device_inv_def signal_turn_def ui_stop_def)
qed (use i in \<open>simp_all add: inv_main_turn inv_callback inv_session_moves receiver_running pinger_running\<close>)

lemma inv_listening: "snd (start_server la (new_server (listenPort c) True)) \<Longrightarrow> device_inv (listening c clock os tty scr la kb)"
  using reach_ok [OF server_reach.Step [OF server_reach.Init server_step.Start], of "listenPort c" True la]
  by (auto simp: device_inv_def listening_def announcer_inv_def new_announcer_def new_server_def start_server_def Let_def
      close_listen_def move_assign_def split: prod.splits if_splits)

lemma inv_device:
  "snd (start_server la (new_server (listenPort c) True)) \<Longrightarrow>
   device_inv (fold device_act as (listening c clock os tty scr la kb))"
  by (rule fold_invariant [where Q = "\<lambda>a. True"]) (auto intro: inv_listening inv_device_act)

section \<open>Who owns a descriptor\<close>

text \<open>The descriptors that the connections of a session hold, each as often as it is held, and
  whether the connections dropped from the tables hold none.\<close>

definition fds_of :: "connection \<Rightarrow> socket_handle multiset" where
  "fds_of c = (case socket c of None \<Rightarrow> {#} | Some k \<Rightarrow> if isValid k then {#handle k#} else {#})"

definition table_fds :: "(string, connection) smap \<Rightarrow> socket_handle multiset" where
  "table_fds m = sum_list (map (\<lambda>p. fds_of (snd p)) m)"

abbreviation open_fds :: "session \<Rightarrow> socket_handle multiset" where
  "open_fds s \<equiv> table_fds (connections s)"

definition dropped_closed :: "session \<Rightarrow> bool" where
  "dropped_closed s \<longleftrightarrow> (\<forall>c \<in> set (destroyed s). fds_of c = {#})"

text \<open>A change of the session that opens nothing and drops only what is closed.\<close>

definition releases :: "session \<Rightarrow> session \<Rightarrow> bool" where
  "releases s s' \<longleftrightarrow> open_fds s' \<subseteq># open_fds s \<and> (dropped_closed s \<longrightarrow> dropped_closed s')"

lemma releases_refl [simp]: "releases s s"
  by (simp add: releases_def)

lemma releases_trans: "releases s t \<Longrightarrow> releases t u \<Longrightarrow> releases s u"
  unfolding releases_def by (meson subset_mset.order_trans)

lemma table_fds_simps [simp]:
  "table_fds [] = {#}" "table_fds (p # m) = fds_of (snd p) + table_fds m"
  by (simp_all add: table_fds_def)

lemma table_fds_insert:
  "sm_ok m \<Longrightarrow> table_fds (sm_insert k v m) + (case sm_lookup m k of None \<Rightarrow> {#} | Some w \<Rightarrow> fds_of w) = table_fds m + fds_of v"
proof (induction k v m rule: sm_insert.induct)
  case (2 k v k' v' m)
  have "k < k' \<Longrightarrow> sm_lookup m k = None" using 2(2) by (force simp: sm_ok_def map_of_eq_None_iff)
  moreover have "sm_ok m" using 2(2) by (simp add: sm_ok_def)
  ultimately show ?case using 2(1) by (auto simp: ac_simps)
qed simp

lemma table_fds_erase: "table_fds (sm_erase k m) \<subseteq># table_fds m"
  by (induction m) (auto simp: sm_erase_def intro: subset_mset.add_increasing subset_mset.add_mono)

lemma table_fds_map: "(\<And>k c. fds_of (f k c) \<subseteq># fds_of c) \<Longrightarrow> table_fds (map (\<lambda>(k, c). (k, f k c)) m) \<subseteq># table_fds m"
  by (induction m) (auto intro: subset_mset.add_mono)

lemma table_fds_replace:
  assumes "sm_ok m" and "sm_lookup m k = Some w" and "fds_of v \<subseteq># fds_of w"
  shows "table_fds (sm_insert k v m) \<subseteq># table_fds m"
  using table_fds_insert [OF assms(1), of k v] assms(2,3)
  by (metis option.simps(5) subset_mset.add_le_cancel_right subset_mset.add_left_mono)

text \<open>What the operations of a connection do to its descriptor.\<close>

lemma fds_fields [simp]:
  "fds_of (c\<lparr>running := b\<rparr>) = fds_of c" "fds_of (c\<lparr>state := st\<rparr>) = fds_of c" "fds_of (c\<lparr>thread := th\<rparr>) = fds_of c"
  "fds_of (c\<lparr>reader_of := r\<rparr>) = fds_of c" "fds_of (c\<lparr>frameCount := n\<rparr>) = fds_of c" "fds_of (c\<lparr>lastCheck := l\<rparr>) = fds_of c"
  "fds_of (setState st c) = fds_of c" "fds_of (conn_start now c) = fds_of c"
  by (simp_all add: fds_of_def setState_def conn_start_def)

lemma fds_closed_socket [simp]: "fds_of (close_socket c) = {#}"
  using close_socket_fields(7) [of c] by (auto simp: fds_of_def split: option.split)

lemma fds_conn_send: "conn_send c f = (c', b) \<Longrightarrow> fds_of c' = fds_of c"
  by (auto simp: conn_send_def fds_of_def isValid_def split: option.splits if_splits prod.splits)
    (metis sendAll_handle fst_conv)+

lemma fds_send [simp]: "fds_of (fst (conn_send_str c t p)) = fds_of c"
  using fds_conn_send by (metis conn_send_str_def prod.collapse)

lemma fds_disconnect: "fds_of (conn_disconnect c r) \<subseteq># fds_of c"
  by (simp add: conn_disconnect_def Let_def)

lemma fds_destroy [simp]: "fds_of (conn_destroy c) = {#}"
  by (simp add: conn_destroy_def)

lemma fds_recv_result: "recv_result c r = (c', ev) \<Longrightarrow> fds_of c' \<subseteq># fds_of c"
  using fds_disconnect [of "c\<lparr>reader_of := fst (feed (reader_of c) (snd r)), thread := Ended\<rparr>"]
  by (auto simp: recv_result_def split: if_splits prod.splits sum.splits)

lemma fds_receiver:
  "recv_enter c = (c', ev) \<Longrightarrow> fds_of c' \<subseteq># fds_of c" "recv_return c a = (c', ev) \<Longrightarrow> fds_of c' \<subseteq># fds_of c"
  "next_frame c = Some (f, c') \<Longrightarrow> fds_of c' \<subseteq># fds_of c" "fds_of (rate_check now c) \<subseteq># fds_of c"
  by (auto simp: recv_enter_def recv_return_def next_frame_def rate_check_def fds_disconnect dest: fds_recv_result
      split: if_splits option.splits recv_thread.splits list.splits)

text \<open>What the operations of the session do.\<close>

lemma releases_on_connection:
  "sm_ok (connections s) \<Longrightarrow> (\<And>c. fds_of (f c) \<subseteq># fds_of c) \<Longrightarrow> releases s (on_connection k f s)"
  by (auto simp: releases_def on_connection_def dropped_closed_def table_fds_replace split: option.split)

lemma releases_peers [simp]:
  "releases s (t\<lparr>peers := p\<rparr>) = releases s t" "releases (s\<lparr>peers := p\<rparr>) t = releases s t"
  "releases s (t\<lparr>deadConns := ks\<rparr>) = releases s t" "releases (s\<lparr>deadConns := ks\<rparr>) t = releases s t"
  "releases s (t\<lparr>session_running := b\<rparr>) = releases s t" "releases (s\<lparr>session_running := b\<rparr>) t = releases s t"
  by (simp_all add: releases_def dropped_closed_def)

lemma releases_table: "table_fds m \<subseteq># open_fds s \<Longrightarrow> releases s (s\<lparr>connections := m\<rparr>)"
  by (simp add: releases_def dropped_closed_def)

lemma releases_set_conn:
  "sm_ok (connections s) \<Longrightarrow> sm_lookup (connections s) k = Some c \<Longrightarrow> fds_of c' \<subseteq># fds_of c \<Longrightarrow> releases s (set_conn k c' s)"
  by (simp add: set_conn_def releases_table table_fds_replace)

lemma releases_send: "sm_ok (connections s) \<Longrightarrow> releases s (send_on k t p s)"
  by (rule releases_on_connection) simp_all

lemma releases_peer_send: "sm_ok (connections s) \<Longrightarrow> releases s (send_on k t p (s\<lparr>peers := q\<rparr>))"
  using releases_send [of "s\<lparr>peers := q\<rparr>" k t p] by simp

lemma releases_disconnect: "sm_ok (connections s) \<Longrightarrow> releases s (disconnect_on k r s)"
  by (rule releases_on_connection) (simp_all add: fds_disconnect)

lemma releases_refuse: "sm_ok (connections s) \<Longrightarrow> releases s (disconnect_on k r (send_on k t p s))"
  by (rule releases_trans [OF releases_send releases_disconnect])
    (auto simp: on_connection_def sm_ok_insert split: option.split)

lemma releases_onFrame: "sm_ok (connections s) \<Longrightarrow> releases s (fst (onFrame k f s))"
  by (cases "htype (header f)")
    (simp_all add: onFrame_def handleHello_def handleAuthRequest_def handleAuthResponse_def handlePing_def
      handleDisconnect_def Let_def releases_send releases_peer_send releases_disconnect releases_refuse)

lemma releases_onDisconnect: "releases s (fst (onDisconnect k s))"
  by (auto simp: onDisconnect_def Let_def releases_def dropped_closed_def table_fds_erase split: option.splits)

lemma releases_reap: "releases s (fst (reap ks s))"
proof (induction ks arbitrary: s)
  case (Cons k ks)
  show ?case
    using releases_trans [OF releases_onDisconnect [of s k] Cons.IH [of "fst (onDisconnect k s)"]]
    by (simp add: case_prod_unfold)
qed simp

lemma releases_stop: "releases s (fst (stop_session s))"
proof -
  let ?t = "s\<lparr>session_running := False, deadConns := []\<rparr>"
  have "releases s (fst (reap (deadConns s) ?t))" using releases_reap [of ?t "deadConns s"] by simp
  then show ?thesis by (auto simp: stop_session_def case_prod_unfold releases_def dropped_closed_def)
qed

lemma releases_ping: "releases s (fst (pinger_turn s))"
proof -
  have "releases s (fst (ping_reap s))"
    using releases_onDisconnect [of "s\<lparr>deadConns := tl (deadConns s)\<rparr>" "hd (deadConns s)"]
    by (cases "deadConns s") (simp_all add: ping_reap_def)
  moreover have "table_fds (connections (ping_sweep s)) \<subseteq># open_fds s"
    unfolding ping_sweep_connections by (rule table_fds_map) simp
  then have "releases s (ping_sweep s)" by (simp add: ping_sweep_def releases_def dropped_closed_def)
  ultimately show ?thesis by (simp add: pinger_turn_def)
qed

lemma releases_broadcast: "releases s (broadcast rnd now t s)"
  unfolding broadcast_def Let_def by (rule releases_table, rule table_fds_map) simp

lemma releases_notify:
  assumes "sm_ok (connections s)" and "sm_lookup (connections s) cid = Some c" and "fds_of c' \<subseteq># fds_of c"
  shows "releases s (fst (notify_closed route cid ev (set_conn cid c' s)))"
  using releases_set_conn [OF assms] releases_trans [OF releases_set_conn [OF assms] releases_onDisconnect]
  by (simp add: notify_closed_def split: recv_event.split)

lemma releases_receiver:
  assumes ok: "sm_ok (connections s)"
  shows "releases s (fst (receiver_turn route cid a now s))"
proof (cases "sm_lookup (connections s) cid")
  case (Some c)
  have ok': "sm_ok (connections (set_conn cid c' s))" for c' using ok by (simp add: set_conn_def sm_ok_insert)
  note one = releases_notify [OF ok Some] releases_set_conn [OF ok Some] fds_receiver
  show ?thesis
  proof (cases "thread c")
    case (Delivering fs)
    then show ?thesis
    proof (cases fs)
      case (Cons f gs)
      then show ?thesis using Delivering Some releases_trans [OF _ releases_onFrame [OF ok']] one
        by (auto simp: receiver_turn_def case_prod_unfold split: option.split)
    qed (use Some Delivering one in \<open>simp add: receiver_turn_def\<close>)
  qed (use Some one in \<open>auto simp: receiver_turn_def split: prod.split\<close>)
qed (simp add: receiver_turn_def)

text \<open>A new connection brings its own descriptor.\<close>

lemma fds_addConnection:
  assumes ok: "sm_ok (connections s)"
  shows "open_fds (addConnection rnd ts now c s) \<subseteq># open_fds s + fds_of c \<and>
    (dropped_closed s \<longrightarrow> dropped_closed (addConnection rnd ts now c s))"
proof (cases "session_running s")
  case True
  let ?k = "makeConnId rnd ts" and ?m = "sm_insert (makeConnId rnd ts) c (connections s)"
  define d where "d = (case sm_lookup (connections s) ?k of None \<Rightarrow> [] | Some c \<Rightarrow> [conn_destroy c])"
  define t where "t = s\<lparr>connections := ?m, destroyed := destroyed s @ d, peers := sm_insert ?k default_peer (peers s)\<rparr>"
  have "sm_ok (connections t)" using ok by (simp add: t_def sm_ok_insert)
  then have "releases t (on_connection ?k (conn_start now) t)" by (rule releases_on_connection) simp
  moreover have "sm_ok (connections (on_connection ?k (conn_start now) t))"
    using ok by (auto simp: t_def on_connection_def sm_ok_insert split: option.split)
  ultimately have "releases t (sendHello ?k (on_connection ?k (conn_start now) t))"
    using releases_trans releases_send unfolding sendHello_def by blast
  then have "releases t (addConnection rnd ts now c s)" using True by (simp add: addConnection_def Let_def t_def d_def)
  moreover have "open_fds t \<subseteq># open_fds s + fds_of c"
    using table_fds_insert [OF ok, of ?k c] by (simp add: t_def) (metis subset_mset.le_iff_add)
  moreover have "dropped_closed s \<longrightarrow> dropped_closed t" by (auto simp: t_def d_def dropped_closed_def split: option.split)
  ultimately show ?thesis unfolding releases_def by (meson subset_mset.order_trans)
next
  case False
  then show ?thesis by (auto simp: addConnection_def dropped_closed_def intro: subset_mset.add_increasing2)
qed

definition fds_inv :: "device \<Rightarrow> bool" where
  "fds_inv d \<longleftrightarrow> open_fds (dv_session d) \<subseteq># mset (given (dv_server d)) \<and> dropped_closed (dv_session d)"

lemma given_simps [simp]:
  "given (accept_turn x s) = given s" "given (stop_begin s) = given s" "given (stop_join s) = given s"
  by (cases "accept_pc s"; cases x; simp add: accept_turn_def accept_returns_def)
    (simp_all add: stop_begin_def stop_join_def)

lemma fds_moves:
  "fds_inv d \<Longrightarrow> releases (dv_session d) (fst r) \<Longrightarrow> fds_inv (session_moves r d)"
  by (cases r) (auto simp: fds_inv_def releases_def intro: subset_mset.order_trans)

lemma fds_main_turn:
  assumes i: "fds_inv d"
  shows "fds_inv (main_turn rnd now d)"
proof (cases "dv_main d")
  case Main_chats
  have "releases (dv_session d) (ui_session (fst (ui_turn rnd now (dv_terminal d))))"
    using ui_turn_session [of rnd now "dv_terminal d"] releases_broadcast by auto
  then show ?thesis using Main_chats i
    by (auto simp: main_turn_def fds_inv_def releases_def case_prod_unfold intro: subset_mset.order_trans)
next
  case Main_stops_session
  then show ?thesis using fds_moves [OF i, of "stop_session (dv_session d)"] releases_stop
    by (simp add: main_turn_def fds_inv_def)
qed (use i in \<open>auto simp: main_turn_def fds_inv_def print_defs\<close>)

lemma fds_callback:
  assumes i: "fds_inv d" and ok: "sm_ok (connections (dv_session d))"
  shows "fds_inv (callback_turn n ks rnd ts now d)"
proof -
  let ?h = "pending (dv_server d) ! n"
  have w: "fds_of (wrap_socket ks (new_socket ?h)) \<subseteq># {#?h#}"
    by (simp add: fds_of_def wrap_socket_def new_connection_def new_socket_def)
  let ?c = "wrap_socket ks (new_socket ?h)" and ?s = "dv_session d"
  have "open_fds ?s + fds_of ?c \<subseteq># mset (given (dv_server d)) + {#?h#}"
    using i w unfolding fds_inv_def by (intro subset_mset.add_mono) simp_all
  then have "open_fds (addConnection rnd ts now ?c ?s) \<subseteq># mset (given (dv_server d)) + {#?h#}"
    using fds_addConnection [OF ok] subset_mset.order_trans by blast
  moreover have "dropped_closed (addConnection rnd ts now ?c ?s)"
    using i fds_addConnection [OF ok, of rnd ts now ?c] by (simp add: fds_inv_def)
  ultimately show ?thesis using i by (simp add: fds_inv_def callback_turn_def run_callback_def)
qed

lemma fds_device_act:
  assumes "fds_inv d" and "sm_ok (connections (dv_session d))"
  shows "fds_inv (device_act a d)"
proof (cases a)
  case (Callback_turn n ks rnd ts now)
  then show ?thesis using fds_callback [OF assms] by simp
next
  case (Receiver_turn cid x now)
  then show ?thesis using fds_moves [OF assms(1) releases_receiver [OF assms(2)]] by simp
next
  case Pinger_turn
  then show ?thesis using fds_moves [OF assms(1) releases_ping] by simp
next
  case Signal_arrives
  then show ?thesis using assms(1) by (simp add: signal_turn_def fds_inv_def ui_stop_def)
qed (use assms(1) fds_main_turn in \<open>simp_all add: fds_inv_def\<close>)

lemma device_session_inv: "session_inv (dv_session (fold device_act as (listening c clock os tty scr la kb)))"
  using device_session_run run_inv by blast

lemma fds_device: "fds_inv (fold device_act as (listening c clock os tty scr la kb))"
proof (induction as rule: rev_induct)
  case Nil
  then show ?case
    by (simp add: fds_inv_def listening_def new_terminal_def wired_session_def start_session_def setPeerEventCallback_def
        setMessageCallback_def new_session_def dropped_closed_def)
next
  case (snoc a as)
  then show ?case
    using fds_device_act device_session_inv [of as c clock os tty scr la kb] by (simp add: session_inv_def)
qed

section \<open>The main thread returns\<close>

text \<open>How many turns are left at most until \<open>runListen\<close> returns: those of the input loop, the
  steps of the shutdown, and those of the thread that is joined.\<close>

definition device_left :: "device \<Rightarrow> nat" where
  "device_left d =
     (case dv_main d of
        Main_announces \<Rightarrow> turns_left (dv_terminal d) + 15
      | Main_builds \<Rightarrow> turns_left (dv_terminal d) + 14
      | Main_chats \<Rightarrow> turns_left (dv_terminal d) + 13
      | Main_quiets \<Rightarrow> 12
      | Main_joins_announcer \<Rightarrow> 9 + announce_left (announce_pc (dv_announcer d))
      | Main_stops_server \<Rightarrow> 8
      | Main_joins_server \<Rightarrow> 4 + accept_left (accept_pc (dv_server d))
      | Main_stops_session \<Rightarrow> 3
      | Main_returned \<Rightarrow> 0)"

text \<open>The thread whose turn it takes to go on.\<close>

datatype turn_kind = Of_main | Of_acceptor | Of_announcer | Of_other

definition awaited :: "device \<Rightarrow> turn_kind" where
  "awaited d =
     (if dv_main d = Main_joins_announcer \<and> ann_stopping (dv_announcer d) \<and> announce_pc (dv_announcer d) \<noteq> Ann_ended
      then Of_announcer
      else if dv_main d = Main_joins_server \<and> stopping (dv_server d) \<and> accept_pc (dv_server d) \<noteq> Loop_ended
      then Of_acceptor else Of_main)"

fun kind_of :: "device_action \<Rightarrow> turn_kind" where
  "kind_of (Main_turn rnd now) = Of_main"
| "kind_of (Accepts_turn x) = Of_acceptor"
| "kind_of (Announcer_turn v) = Of_announcer"
| "kind_of a = Of_other"

lemma bounds_left: "announce_left p \<le> 2" "accept_left q \<le> 2"
  by (cases p; simp) (cases q; simp)

lemma turns_left_session [simp]: "turns_left (t\<lparr>ui_session := s\<rparr>) = turns_left t"
  by (simp add: turns_left_def)

text \<open>Another thread moves the session and shows it, prints, or stops the interface.\<close>

definition touched :: "terminal \<Rightarrow> terminal \<Rightarrow> bool" where
  "touched t t' \<longleftrightarrow> ui_pc t' = ui_pc t \<and> keyboard t' = keyboard t \<and> (ui_running t' \<longrightarrow> ui_running t)"

lemma touched_left: "touched t t' \<Longrightarrow> turns_left t' = turns_left t"
  by (simp add: touched_def turns_left_def)

lemma touched_calls: "touched t (fst (ui_exec (map (ui_call_of clock) ev) t))"
proof (induction ev arbitrary: t)
  case (Cons e ev)
  obtain l where "ui_call_of clock e = Call_message l \<or> ui_call_of clock e = Call_info l" by (cases e) auto
  with Cons [of "printMessage l t"] Cons [of "printInfo l t"] show ?case
    by (auto simp: touched_def case_prod_unfold)
qed (simp add: touched_def)

lemma touched_shows: "touched t (session_shows built clock r t)"
  using touched_calls [of "t\<lparr>ui_session := fst r\<rparr>" clock "snd r"]
  by (cases r) (simp add: session_shows_def touched_def Let_def)

lemma shows_turns_left: "turns_left (session_shows built clock r t) \<le> turns_left t"
  by (simp add: touched_left [OF touched_shows])

lemma left_moves: "device_left (session_moves r d) \<le> device_left d"
  using shows_turns_left [of "dv_built d" "dv_clock d" r "dv_terminal d"]
  by (simp add: session_moves_def device_left_def split: main_pc.split)

lemma left_main: "device_left (main_turn rnd now d) \<le> device_left d"
  and left_main_awaited: "awaited d = Of_main \<Longrightarrow> dv_main d \<noteq> Main_returned \<Longrightarrow> device_left (main_turn rnd now d) < device_left d"
proof -
  have "device_left (main_turn rnd now d) \<le> device_left d \<and>
    (awaited d = Of_main \<and> dv_main d \<noteq> Main_returned \<longrightarrow> device_left (main_turn rnd now d) < device_left d)"
  proof (cases "dv_main d")
    case Main_chats
    then show ?thesis
      using turn_decreases [of "dv_terminal d" rnd now] by (auto simp: main_turn_def device_left_def case_prod_unfold)
  next
    case Main_builds
    then show ?thesis by (simp add: main_turn_def device_left_def turns_left_def print_defs)
  qed (use bounds_left(1) [of "announce_pc (stopAnnounce (dv_announcer d))"] bounds_left(2) [of "accept_pc (stop_begin (dv_server d))"]
      in \<open>auto simp: main_turn_def device_left_def awaited_def\<close>)
  then show "device_left (main_turn rnd now d) \<le> device_left d"
    "awaited d = Of_main \<Longrightarrow> dv_main d \<noteq> Main_returned \<Longrightarrow> device_left (main_turn rnd now d) < device_left d"
    by blast+
qed

lemma left_announcer:
  assumes i: "device_inv d"
  shows "device_left (device_act (Announcer_turn v) d) \<le> device_left d"
    "awaited d = Of_announcer \<Longrightarrow> device_left (device_act (Announcer_turn v) d) < device_left d"
proof -
  let ?a = "dv_announcer d"
  have "announce_left (announce_pc (announce_turn (dv_os d) v ?a)) = announce_left (announce_pc ?a) - 1"
    if "dv_main d = Main_joins_announcer"
    using i that by (intro announce_turn_stopped) (simp add: device_inv_def)
  then show "device_left (device_act (Announcer_turn v) d) \<le> device_left d"
    by (simp add: device_left_def split: main_pc.split)
  assume w: "awaited d = Of_announcer"
  then have m: "dv_main d = Main_joins_announcer" "ann_stopping ?a" "announce_pc ?a \<noteq> Ann_ended"
    by (auto simp: awaited_def split: if_splits)
  then have "announce_pc ?a \<noteq> Ann_none" using i by (simp add: device_inv_def announcer_inv_def)
  with m have "announce_left (announce_pc ?a) > 0" by (cases "announce_pc ?a") auto
  then show "device_left (device_act (Announcer_turn v) d) < device_left d"
    using m \<open>dv_main d = Main_joins_announcer \<Longrightarrow> _\<close> by (simp add: device_left_def)
qed

lemma left_acceptor:
  assumes i: "device_inv d"
  shows "device_left (device_act (Accepts_turn x) d) \<le> device_left d"
    "awaited d = Of_acceptor \<Longrightarrow> device_left (device_act (Accepts_turn x) d) < device_left d"
proof -
  let ?s = "dv_server d"
  have l: "accept_left (accept_pc (accept_turn x ?s)) \<le> accept_left (accept_pc ?s) - 1" if "dv_main d = Main_joins_server"
    using i that by (intro accept_turn_stopped) (simp add: device_inv_def)
  then have "dv_main d = Main_joins_server \<Longrightarrow> accept_left (accept_pc (accept_turn x ?s)) \<le> accept_left (accept_pc ?s)"
    by fastforce
  then show "device_left (device_act (Accepts_turn x) d) \<le> device_left d"
    by (simp add: device_left_def split: main_pc.split)
  assume w: "awaited d = Of_acceptor"
  then have m: "dv_main d = Main_joins_server" "stopping ?s" "accept_pc ?s \<noteq> Loop_ended"
    by (auto simp: awaited_def split: if_splits)
  then have "accept_pc ?s \<noteq> No_thread" using i by (simp add: device_inv_def server_inv_def)
  with m have "accept_left (accept_pc ?s) > 0" by (cases "accept_pc ?s") auto
  then show "device_left (device_act (Accepts_turn x) d) < device_left d"
    using m(1) l by (simp add: device_left_def)
qed

lemma left_act:
  assumes i: "device_inv d"
  shows "device_left (device_act a d) \<le> device_left d"
    "kind_of a = awaited d \<Longrightarrow> dv_main d \<noteq> Main_returned \<Longrightarrow> device_left (device_act a d) < device_left d"
proof -
  have "device_left (callback_turn n ks rnd ts now d) \<le> device_left d" for n ks rnd ts now
  proof -
    have "device_left (d\<lparr>dv_server := run_callback n (dv_server d)\<rparr>) = device_left d"
      by (simp add: device_left_def split: main_pc.split)
    then show ?thesis using left_moves by (auto simp: callback_turn_def) (metis)
  qed
  moreover have "device_left (signal_turn d) = device_left d"
    by (simp add: signal_turn_def device_left_def ui_stop_def turns_left_def split: main_pc.split)
  ultimately show "device_left (device_act a d) \<le> device_left d"
    using left_announcer(1) [OF i] left_acceptor(1) [OF i] left_main left_moves by (cases a) simp_all
  have "awaited d \<noteq> Of_other" by (simp add: awaited_def)
  then show "kind_of a = awaited d \<Longrightarrow> dv_main d \<noteq> Main_returned \<Longrightarrow> device_left (device_act a d) < device_left d"
    using left_announcer(2) [OF i] left_acceptor(2) [OF i] left_main_awaited [of d] by (cases a) auto
qed

lemma main_waits:
  assumes "awaited d \<noteq> Of_main"
  shows "main_turn rnd now d = d"
  using assms by (auto simp: awaited_def main_turn_def split: if_splits)

lemma awaited_stays:
  assumes "kind_of a \<noteq> awaited d"
  shows "awaited (device_act a d) = awaited d" "dv_main (device_act a d) = dv_main d"
proof -
  have e: "announce_pc b = Ann_ended \<Longrightarrow> announce_pc (announce_turn os v b) = Ann_ended"
    "accept_pc s = Loop_ended \<Longrightarrow> accept_pc (accept_turn x s) = Loop_ended" for b os v s x
    by (simp_all add: announce_turn_def accept_turn_def)
  have "awaited (device_act a d) = awaited d \<and> dv_main (device_act a d) = dv_main d"
  proof (cases a)
    case (Main_turn rnd now)
    then show ?thesis using assms main_waits [of d rnd now] by simp
  next
    case (Accepts_turn x)
    then show ?thesis using assms e(2) [of "dv_server d" x] by (auto simp: awaited_def split: if_splits)
  next
    case (Announcer_turn v)
    then show ?thesis using assms e(1) [of "dv_announcer d" "dv_os d" v] by (auto simp: awaited_def split: if_splits)
  next
    case (Callback_turn n ks rnd ts now)
    then show ?thesis by (simp add: callback_turn_def awaited_def)
  next
    case Signal_arrives
    then show ?thesis by (simp add: signal_turn_def awaited_def)
  qed (simp_all add: awaited_def)
  then show "awaited (device_act a d) = awaited d" "dv_main (device_act a d) = dv_main d" by blast+
qed

lemma left_acts: "device_inv d \<Longrightarrow> device_left (fold device_act as d) \<le> device_left d"
proof (induction as arbitrary: d)
  case (Cons a as)
  then show ?case using left_act(1) [of d a] inv_device_act [of d a] by (auto intro: order.trans)
qed simp

lemma awaited_acts:
  "device_inv d \<Longrightarrow> dv_main d \<noteq> Main_returned \<Longrightarrow> awaited d \<in> kind_of ` set as \<Longrightarrow>
   device_left (fold device_act as d) < device_left d"
proof (induction as arbitrary: d)
  case (Cons a as)
  have i: "device_inv (device_act a d)" using Cons.prems(1) by (rule inv_device_act)
  show ?case
  proof (cases "kind_of a = awaited d")
    case True
    then show ?thesis using left_act(2) [OF Cons.prems(1) True Cons.prems(2)] left_acts [OF i, of as] by simp
  next
    case False
    then have "device_left (fold device_act as (device_act a d)) < device_left (device_act a d)"
      using Cons.prems awaited_stays [OF False] by (intro Cons.IH i) auto
    then show ?thesis using left_act(1) [OF Cons.prems(1), of a] by simp
  qed
qed simp

text \<open>A round is fair when the main, the accepting and the announcing thread get a turn in it; what
  else happens in it does not matter.\<close>

definition fair_round :: "device_action list \<Rightarrow> bool" where
  "fair_round as \<longleftrightarrow> {Of_main, Of_acceptor, Of_announcer} \<subseteq> kind_of ` set as"

interpretation listen_thread: ending_thread "fold device_act" fair_round "\<lambda>d. dv_main d = Main_returned" device_left device_inv
proof
  fix d :: device and as
  assume i: "device_inv d"
  show "device_inv (fold device_act as d)" by (rule fold_invariant [where Q = "\<lambda>a. True"]) (auto intro: i inv_device_act)
  show "device_left (fold device_act as d) < device_left d" if "fair_round as" "dv_main d \<noteq> Main_returned"
    using that by (intro awaited_acts i) (auto simp: fair_round_def awaited_def)
  show "device_left (fold device_act as d) \<le> device_left d" by (rule left_acts [OF i])
  show "device_left d = 0 \<longleftrightarrow> dv_main d = Main_returned" by (cases "dv_main d") (simp_all add: device_left_def)
qed

lemma fold_rounds: "fold (fold device_act) ass d = fold device_act (concat ass) d"
  by (induction ass arbitrary: d) simp_all

section \<open>Properties\<close>




definition sample_device :: "string list \<Rightarrow> device" where
  "sample_device kb = listening talk_config (\<lambda>n. (12, 34, 56)) Linux True [] sample_listen kb"

definition sample_round :: "device_action list" where
  "sample_round = [Main_turn None 0, Signal_arrives, Accepts_turn (Client 7), Callback_turn 0 [Accepts 500] None 5 0, Announcer_turn True]"

lemma sample_bound: "snd (start_server sample_listen (new_server p True))"
  by (simp add: start_server_def sample_listen_def new_server_def move_assign_def close_def kInvalidSocket_def
      new_socket_def isValid_def)

lemma sample_fair: "length (filter fair_round (replicate n sample_round)) = n"
proof -
  have "fair_round sample_round" by (simp add: fair_round_def sample_round_def)
  then show ?thesis by simp
qed


lemma sample_returns: "dv_main (fold device_act (concat (replicate 18 sample_round)) (sample_device [])) = Main_returned"
proof -
  have "device_left (sample_device []) = 18"
    by (simp add: sample_device_def device_left_def listening_def turns_left_def new_terminal_def)
  then have "device_left (sample_device []) \<le> length (filter fair_round (replicate 18 sample_round))"
    by (simp only: sample_fair)
  then show ?thesis unfolding fold_rounds [symmetric] sample_device_def
    by (rule listen_thread.ends [OF inv_listening [OF sample_bound]])
qed


text \<open>A client is accepted and its callback has run.\<close>

definition visit :: "device_action list" where
  "visit = [Accepts_turn (Client 0), Accepts_turn (Client 7), Callback_turn 0 [Accepts 500] None 5 0]"

lemma visit_eval:
  "dv_session (fold device_act visit (sample_device kb)) =
     addConnection None 5 0 (wrap_socket [Accepts 500] (new_socket 7)) (wired_session talk_config)"
  "given (dv_server (fold device_act visit (sample_device kb))) = [7]"
  by (simp_all add: sample_device_def listening_def visit_def callback_turn_def new_terminal_def run_callback_def
      start_server_def sample_listen_def new_server_def move_assign_def close_def kInvalidSocket_def
      new_socket_def isValid_def accept_turn_def accept_returns_def)


end
