(* ===== verification/Listening_Talk.thy ===== *)
theory Listening_Talk imports Listening_Device begin

text \<open>
  What a listening device (\<open>Listening_Device\<close>) says and whom it hears, under the wiring of the
  callbacks in \<open>src/main.cpp\<close>: the frames on its connections in every schedule, and what the loss of
  one connection does to the others.
\<close>

section \<open>What a device says\<close>

text \<open>A stream made of frames of some types, or of beginnings of such frames.\<close>

definition stream_of :: "message_type set \<Rightarrow> bytes \<Rightarrow> bool" where
  "stream_of T w \<longleftrightarrow> (\<exists>ps. w = concat (map snd ps) \<and>
     (\<forall>(f, p) \<in> set ps. htype (header f) \<in> T \<and> prefix p (serialize_frame f)))"

abbreviation small_talk :: "message_type set" where
  "small_talk \<equiv> {HELLO, PING, message_type.DISCONNECT}"

lemma stream_of_Nil [simp]: "stream_of T []"
  by (auto simp: stream_of_def intro!: exI [of _ "[]"])

lemma stream_of_append:
  assumes "stream_of T w" and "htype (header f) \<in> T" and "prefix p (serialize_frame f)"
  shows "stream_of T (w @ p)"
proof -
  obtain ps where "w = concat (map snd ps)" "\<forall>(f, p) \<in> set ps. htype (header f) \<in> T \<and> prefix p (serialize_frame f)"
    using assms(1) by (auto simp: stream_of_def)
  then show ?thesis using assms(2,3) unfolding stream_of_def by (intro exI [of _ "ps @ [(f, p)]"]) auto
qed

definition says :: "message_type set \<Rightarrow> session \<Rightarrow> bool" where
  "says T s \<longleftrightarrow> (\<forall>k c. sm_lookup (connections s) k = Some c \<longrightarrow> stream_of T (sent c)) \<and>
     (\<forall>c \<in> set (destroyed s). stream_of T (sent c))"

lemma htype_create [simp]: "htype (header (create_frame_str t p)) = t"
  by (simp add: create_frame_str_def create_frame_def)

lemma stream_send: "stream_of T (sent c) \<Longrightarrow> t \<in> T \<Longrightarrow> stream_of T (sent (fst (conn_send_str c t p)))"
proof -
  assume T: "stream_of T (sent c)" "t \<in> T"
  obtain c' b where s: "conn_send c (create_frame_str t p) = (c', b)" by (cases "conn_send c (create_frame_str t p)")
  from conn_send_out [OF s] obtain w where "sent c' = sent c @ w" "prefix w (serialize_frame (create_frame_str t p))" by blast
  then show ?thesis using T stream_of_append [of T "sent c" "create_frame_str t p" w] by (simp add: conn_send_str_def s)
qed

lemma stream_disconnect:
  "stream_of T (sent c) \<Longrightarrow> message_type.DISCONNECT \<in> T \<Longrightarrow> stream_of T (sent (conn_disconnect c r))"
  by (simp add: conn_disconnect_def Let_def stream_send)

lemma stream_recv_result:
  "recv_result c r = (c', ev) \<Longrightarrow> stream_of T (sent c) \<Longrightarrow> message_type.DISCONNECT \<in> T \<Longrightarrow> stream_of T (sent c')"
  by (auto simp: recv_result_def stream_disconnect split: if_splits prod.splits sum.splits)

lemma stream_receiver:
  assumes "stream_of T (sent c)" and "message_type.DISCONNECT \<in> T"
  shows "recv_enter c = (c', ev) \<Longrightarrow> stream_of T (sent c')" "recv_return c a = (c', ev) \<Longrightarrow> stream_of T (sent c')"
    "next_frame c = Some (f, c') \<Longrightarrow> stream_of T (sent c')" "stream_of T (sent (rate_check now c))"
  using assms
  by (auto simp: recv_enter_def recv_return_def next_frame_def rate_check_def stream_disconnect dest: stream_recv_result
      split: if_splits option.splits recv_thread.splits list.splits)

lemma says_fields [simp]:
  "says T (s\<lparr>peers := p\<rparr>) = says T s" "says T (s\<lparr>deadConns := ks\<rparr>) = says T s" "says T (s\<lparr>session_running := b\<rparr>) = says T s"
  by (simp_all add: says_def)

lemma says_on_connection:
  "says T s \<Longrightarrow> (\<And>c. stream_of T (sent c) \<Longrightarrow> stream_of T (sent (f c))) \<Longrightarrow> says T (on_connection k f s)"
  by (auto simp: says_def on_connection_def split: option.split)

lemma says_set_conn: "says T s \<Longrightarrow> stream_of T (sent c) \<Longrightarrow> says T (set_conn k c s)"
  by (simp add: says_def set_conn_def)

lemma says_onDisconnect: "says T s \<Longrightarrow> says T (fst (onDisconnect k s))"
  by (auto simp: says_def onDisconnect_def Let_def split: option.splits if_splits)

lemma says_notify: "says T s \<Longrightarrow> says T (fst (notify_closed route k ev s))"
  by (simp add: notify_closed_def says_onDisconnect split: recv_event.split)

lemma says_reap: "says T s \<Longrightarrow> says T (fst (reap ks s))"
  by (induction ks arbitrary: s) (simp_all add: case_prod_unfold says_onDisconnect)

lemma says_frame:
  assumes "cut_off s" and "says T s"
  shows "says T (fst (onFrame '''' f s))"
  using assms
  by (cases "htype (header f)")
    (simp_all add: onFrame_def handleHello_def handleAuthRequest_def handleAuthResponse_def handlePing_def
      handleDisconnect_def cut_off_def Let_def on_connection_missing)

lemma says_receiver:
  assumes cut: "cut_off s" and says: "says T s" "message_type.DISCONNECT \<in> T"
  shows "says T (fst (receiver_turn main_route cid a now s))"
proof (cases "sm_lookup (connections s) cid")
  case (Some c)
  have c: "stream_of T (sent c)" using says(1) Some by (simp add: says_def)
  note one = stream_receiver [OF c says(2)]
  have n: "says T (fst (notify_closed main_route cid ev (set_conn cid c' s)))" if "stream_of T (sent c')" for ev c'
    by (rule says_notify, rule says_set_conn [OF says(1) that])
  show ?thesis
  proof (cases "thread c")
    case At_head
    then show ?thesis using Some n [OF one(1)] by (simp add: receiver_turn_def split: prod.split)
  next
    case In_recv
    then show ?thesis using Some n [OF one(2)] by (simp add: receiver_turn_def split: prod.split)
  next
    case (Delivering fs)
    show ?thesis
    proof (cases fs)
      case Nil
      then show ?thesis using Some Delivering says_set_conn [OF says(1) one(4)] by (simp add: receiver_turn_def)
    next
      case (Cons f gs)
      then obtain c' where f: "next_frame c = Some (f, c')" using Delivering by (simp add: next_frame_def)
      have "says T (fst (onFrame '''' f (set_conn cid c' s)))"
        by (rule says_frame [OF cut_off_set_conn [OF cut Some]], rule says_set_conn [OF says(1) one(3) [OF f]])
      then show ?thesis using Some Delivering Cons f by (simp add: receiver_turn_def main_route_def)
    qed
  qed (use Some says(1) in \<open>simp_all add: receiver_turn_def\<close>)
qed (use says in \<open>simp add: receiver_turn_def\<close>)

lemma says_pinger:
  assumes "says T s" and "PING \<in> T"
  shows "says T (fst (pinger_turn s))"
proof -
  have "says T (fst (ping_reap s))"
    using assms(1) says_onDisconnect [of T "s\<lparr>deadConns := tl (deadConns s)\<rparr>" "hd (deadConns s)"]
    by (cases "deadConns s") (simp_all add: ping_reap_def)
  moreover have "says T (ping_sweep s)"
    using assms unfolding says_def ping_sweep_connections
    by (auto simp: map_of_map_values stream_send) (simp add: ping_sweep_def)
  ultimately show ?thesis using assms(1) by (simp add: pinger_turn_def)
qed

lemma says_stop:
  assumes "says T s" and "message_type.DISCONNECT \<in> T" and "session_inv s"
  shows "says T (fst (stop_session s))"
proof -
  let ?t = "s\<lparr>session_running := False, deadConns := []\<rparr>"
  let ?r = "fst (reap (deadConns s) ?t)"
  have r: "says T ?r" using assms(1) by (simp add: says_reap)
  have "fst (reap (deadConns s) ?t) = (fst (reap (deadConns s) s))\<lparr>session_running := False, deadConns := []\<rparr>"
    by (simp add: reap_frame)
  then have "sm_ok (connections ?r)" using inv_reap [OF assms(3), of "deadConns s"] by (simp add: session_inv_def)
  then have "stream_of T (sent (conn_disconnect c q))" if "(k, c) \<in> set (connections ?r)" for k c q
    using sm_ok_lookup [OF _ that] r assms(2) by (simp add: says_def stream_disconnect)
  then show ?thesis using assms(1) r by (auto simp: stop_session_def case_prod_unfold says_def)
qed

lemma says_add:
  assumes "says T s" and "HELLO \<in> T" and "sent c = []"
  shows "says T (addConnection rnd ts now c s)"
proof (cases "session_running s")
  case True
  let ?k = "makeConnId rnd ts"
  have "says T (s\<lparr>connections := sm_insert ?k c (connections s),
      destroyed := destroyed s @ (case sm_lookup (connections s) ?k of None \<Rightarrow> [] | Some c \<Rightarrow> [conn_destroy c]),
      peers := sm_insert ?k default_peer (peers s)\<rparr>)" (is "says T ?t")
    using assms by (auto simp: says_def split: option.split)
  then have "says T (sendHello ?k (on_connection ?k (conn_start now) ?t))"
    unfolding sendHello_def using assms(2) by (intro says_on_connection) (simp_all add: stream_send)
  then show ?thesis using True by (simp add: addConnection_def Let_def)
next
  case False
  then show ?thesis using assms by (auto simp: addConnection_def says_def)
qed

lemma cut_off_broadcast: "cut_off s \<Longrightarrow> session_inv s \<Longrightarrow> broadcast rnd now t s = s"
  by (rule broadcast_nobody) (auto simp: cut_off_def session_inv_def)

lemma typed_nothing:
  assumes "cut_off (ui_session t)" and "session_inv (ui_session t)"
  shows "ui_session (fst (ui_turn rnd now t)) = ui_session t"
  using ui_turn_session [of rnd now t] cut_off_broadcast [OF assms] by auto

lemma says_act:
  assumes cut: "cut_off (dv_session d)" and inv: "session_inv (dv_session d)" and says: "says small_talk (dv_session d)"
  shows "says small_talk (dv_session (device_act a d))"
proof (cases a)
  case (Main_turn rnd now)
  have "says small_talk (dv_session (main_turn rnd now d))"
  proof (cases "dv_main d")
    case Main_chats
    then show ?thesis using says typed_nothing [OF cut inv, of rnd now] by (simp add: main_turn_def case_prod_unfold)
  next
    case Main_stops_session
    then show ?thesis using says_stop [OF says _ inv]
      by (cases "stop_session (dv_session d)") (simp add: main_turn_def)
  qed (use says in \<open>simp_all add: main_turn_def print_defs\<close>)
  with Main_turn show ?thesis by simp
next
  case (Callback_turn i ks rnd ts now)
  then show ?thesis using says says_add [OF says]
    by (simp add: callback_turn_def wrap_socket_def new_connection_def new_socket_def sent_def)
next
  case (Receiver_turn cid x now)
  then show ?thesis using says_receiver [OF cut says, of cid x now]
    by (cases "receiver_turn main_route cid x now (dv_session d)") simp
next
  case Pinger_turn
  then show ?thesis using says_pinger [OF says] by (cases "pinger_turn (dv_session d)") simp
next
  case Signal_arrives
  then show ?thesis using says by (simp add: signal_turn_def ui_stop_def)
qed (use says in simp_all)

lemma device_cut_off: "cut_off (dv_session (fold device_act as (listening c clock os tty scr la kb)))"
  using device_session_run run_cut_off by blast

lemma says_device: "says small_talk (dv_session (fold device_act as (listening c clock os tty scr la kb)))"
proof (induction as rule: rev_induct)
  case Nil
  then show ?case
    by (simp add: says_def listening_def new_terminal_def wired_session_def start_session_def setPeerEventCallback_def
        setMessageCallback_def new_session_def)
next
  case (snoc a as)
  then show ?case using says_act [OF device_cut_off device_session_inv] by simp
qed

section \<open>Who is heard\<close>

definition nobody :: "session \<Rightarrow> bool" where
  "nobody s \<longleftrightarrow> (\<forall>k. \<not> is_authenticated s k)"

text \<open>A schedule in which no greeting is handed to the session.\<close>

fun no_hello :: "device_action list \<Rightarrow> device \<Rightarrow> bool" where
  "no_hello [] d = True"
| "no_hello (a # as) d =
     ((case a of
         Receiver_turn cid x now \<Rightarrow>
           (case sm_lookup (connections (dv_session d)) cid of
              None \<Rightarrow> True
            | Some c \<Rightarrow> (case next_frame c of None \<Rightarrow> True | Some (f, c') \<Rightarrow> htype (header f) \<noteq> HELLO))
       | _ \<Rightarrow> True) \<and> no_hello as (device_act a d))"

lemma nobody_frame:
  assumes "cut_off s" and "nobody s" and "htype (header f) \<noteq> HELLO"
  shows "nobody (fst (onFrame '''' f s))"
  using assms becomes_authenticated [of "''''" f s] unfolding nobody_def cut_off_def by blast

lemma nobody_onDisconnect: "nobody s \<Longrightarrow> nobody (fst (onDisconnect k s))"
  unfolding nobody_def using authenticated_onDisconnect by blast

lemma nobody_notify: "nobody s \<Longrightarrow> nobody (fst (notify_closed route k ev (set_conn cid c s)))"
  unfolding nobody_def using authenticated_notify authenticated_set_conn by blast

lemma nobody_receiver:
  assumes cut: "cut_off s" and n: "nobody s"
    and f: "\<And>c f c'. sm_lookup (connections s) cid = Some c \<Longrightarrow> next_frame c = Some (f, c') \<Longrightarrow> htype (header f) \<noteq> HELLO"
  shows "nobody (fst (receiver_turn main_route cid a now s))"
proof (cases "sm_lookup (connections s) cid")
  case (Some c)
  have n': "nobody (set_conn cid c' s)" for c' using n by (simp add: nobody_def)
  show ?thesis
  proof (cases "thread c")
    case (Delivering fs)
    show ?thesis
    proof (cases fs)
      case (Cons g gs)
      then obtain c' where g: "next_frame c = Some (g, c')" using Delivering by (simp add: next_frame_def)
      have "nobody (fst (onFrame '''' g (set_conn cid c' s)))"
        by (rule nobody_frame [OF cut_off_set_conn [OF cut Some] n' f [OF Some g]])
      then show ?thesis using Some Delivering Cons g by (simp add: receiver_turn_def main_route_def)
    qed (use Some Delivering n' in \<open>simp add: receiver_turn_def\<close>)
  qed (use Some n nobody_notify in \<open>simp_all add: receiver_turn_def case_prod_unfold\<close>)
qed (use n in \<open>simp add: receiver_turn_def\<close>)

lemma nobody_pinger: "nobody s \<Longrightarrow> nobody (fst (pinger_turn s))"
  using nobody_onDisconnect [of "s\<lparr>deadConns := tl (deadConns s)\<rparr>" "hd (deadConns s)"]
  by (cases "deadConns s") (auto simp: pinger_turn_def ping_reap_def ping_sweep_def nobody_def)

lemma nobody_stop: "nobody s \<Longrightarrow> nobody (fst (stop_session s))"
  using authenticated_reap [of "deadConns s" "s\<lparr>session_running := False, deadConns := []\<rparr>"]
  by (auto simp: stop_session_def case_prod_unfold nobody_def is_authenticated_def)

lemma nobody_add: "nobody s \<Longrightarrow> nobody (addConnection rnd ts now c s)"
  by (auto simp: addConnection_def Let_def sendHello_def nobody_def is_authenticated_def default_peer_def)

lemma nobody_act:
  assumes cut: "cut_off (dv_session d)" and inv: "session_inv (dv_session d)" and n: "nobody (dv_session d)"
    and h: "no_hello [a] d"
  shows "nobody (dv_session (device_act a d))"
proof (cases a)
  case (Main_turn rnd now)
  have "nobody (dv_session (main_turn rnd now d))"
  proof (cases "dv_main d")
    case Main_chats
    then show ?thesis using n typed_nothing [OF cut inv, of rnd now] by (simp add: main_turn_def case_prod_unfold)
  next
    case Main_stops_session
    then show ?thesis using nobody_stop [OF n] by (cases "stop_session (dv_session d)") (simp add: main_turn_def)
  qed (use n in \<open>simp_all add: main_turn_def print_defs\<close>)
  with Main_turn show ?thesis by simp
next
  case (Callback_turn i ks rnd ts now)
  then show ?thesis using n nobody_add by (simp add: callback_turn_def)
next
  case (Receiver_turn cid x now)
  with h have "htype (header f) \<noteq> HELLO"
    if "sm_lookup (connections (dv_session d)) cid = Some c" "next_frame c = Some (f, c')" for c f c' using that by simp
  with Receiver_turn show ?thesis using nobody_receiver [OF cut n, of cid x now]
    by (cases "receiver_turn main_route cid x now (dv_session d)") auto
next
  case Pinger_turn
  then show ?thesis using nobody_pinger [OF n] by (cases "pinger_turn (dv_session d)") simp
next
  case Signal_arrives
  then show ?thesis using n by (simp add: signal_turn_def ui_stop_def)
qed (use n in simp_all)

lemma nobody_device:
  "cut_off (dv_session d) \<Longrightarrow> session_inv (dv_session d) \<Longrightarrow> nobody (dv_session d) \<Longrightarrow> no_hello as d \<Longrightarrow>
   (\<And>bs. cut_off (dv_session (fold device_act bs d)) \<and> session_inv (dv_session (fold device_act bs d))) \<Longrightarrow>
   nobody (dv_session (fold device_act as d))"
proof (induction as arbitrary: d)
  case (Cons a as)
  have 1: "nobody (dv_session (device_act a d))" using nobody_act [OF Cons.prems(1-3)] Cons.prems(4) by simp
  have 2: "cut_off (dv_session (fold device_act bs (device_act a d))) \<and>
      session_inv (dv_session (fold device_act bs (device_act a d)))" for bs
    using Cons.prems(5) [of "a # bs"] by simp
  show ?case using Cons.IH [OF _ _ 1 _ 2] 2 [of "[]"] Cons.prems(4) by simp
qed simp

lemma nobody_peers:
  assumes "nobody s" and "session_inv s"
  shows "list_peers s = []"
proof -
  have "piState p \<noteq> AUTHENTICATED" if "(k, p) \<in> set (peers s)" for k p
  proof -
    have "sm_lookup (peers s) k = Some p" using assms(2) that by (intro sm_ok_lookup) (simp_all add: session_inv_def)
    moreover have "\<not> is_authenticated s k" using assms(1) by (simp add: nobody_def)
    ultimately show ?thesis by (simp add: is_authenticated_def)
  qed
  then show ?thesis by (auto simp: list_peers_def filter_empty_conv)
qed

text \<open>A connection that is lost takes the shared peer entry with it.\<close>

lemma lost_nobody:
  assumes "sm_lookup (connections s) cid = Some c" and "thread c = In_recv" and "running c"
    and "fst (recv_code a recv_buffer_size) \<le> 0" and cut: "cut_off s"
  shows "nobody (fst (receiver_turn main_route cid a now s))"
proof -
  let ?c = "setState DISCONNECTED (c\<lparr>running := False, thread := Ended\<rparr>)"
  have "recv_return c a = (?c, Closed ''Connection closed'')" using assms(3,4) by (simp add: recv_return_def recv_result_def)
  then have "fst (receiver_turn main_route cid a now s) = fst (onDisconnect '''' (set_conn cid ?c s))"
    using assms(1,2) by (simp add: receiver_turn_def notify_closed_def main_route_def)
  moreover have "\<not> is_authenticated (fst (onDisconnect '''' t)) ''''" for t
    by (simp add: onDisconnect_def Let_def is_authenticated_def)
  moreover have "cut_off (fst (onDisconnect '''' (set_conn cid ?c s)))"
    by (rule cut_off_onDisconnect [OF cut_off_set_conn [OF cut assms(1)]])
  ultimately show ?thesis unfolding nobody_def cut_off_def by metis
qed

section \<open>Properties\<close>

text \<open>C1. Whatever is typed, a listening device never says it: in every schedule of its threads, whoever
  connects and whatever they send, every byte written to a connection belongs to a \<open>HELLO\<close>, a
  \<open>PING\<close> or a \<open>DISCONNECT\<close> frame (or the beginning of one), and a turn of the input loop leaves
  the session as it is, also the turn that sends a line.\<close>

theorem listening_says_little:
  "let d = fold device_act as (listening c clock os tty scr la kb) in
     (\<forall>k x. sm_lookup (connections (dv_session d)) k = Some x \<longrightarrow> stream_of small_talk (sent x)) \<and>
     list_all (\<lambda>x. stream_of small_talk (sent x)) (destroyed (dv_session d)) \<and>
     (dv_main d = Main_chats \<longrightarrow> dv_session (device_act (Main_turn rnd now) d) = dv_session d)"
proof -
  let ?d = "fold device_act as (listening c clock os tty scr la kb)"
  have "dv_session (device_act (Main_turn rnd now) ?d) = dv_session ?d" if "dv_main ?d = Main_chats"
    using that typed_nothing [OF device_cut_off device_session_inv, of rnd now as c clock os tty scr la kb]
    by (simp add: main_turn_def case_prod_unfold)
  then show ?thesis using says_device [of as c clock os tty scr la kb] by (simp add: says_def Let_def list_all_iff)
qed

text \<open>C17. One peer that leaves silences all others: when any connection of a listening device is lost, all
  devices lose their admission, and until some device greets again no message is shown, whoever sends it.\<close>

theorem leaving_silences_all:
  assumes "d = fold device_act as (listening c clock os tty scr la kb)" and "sm_lookup (connections (dv_session d)) cid = Some x"
    and "thread x = In_recv" and "running x" and "fst (recv_code a recv_buffer_size) \<le> 0"
    and "no_hello bs (device_act (Receiver_turn cid a now) d)"
  shows "let s = dv_session (fold device_act bs (device_act (Receiver_turn cid a now) d)) in
    list_peers s = [] \<and> Message_event m n \<notin> set (snd (onFrame '''' f s))"
proof -
  let ?d = "device_act (Receiver_turn cid a now) d"
  have e: "fold device_act bs ?d = fold device_act (as @ Receiver_turn cid a now # bs) (listening c clock os tty scr la kb)" for bs
    using assms(1) by simp
  have all: "cut_off (dv_session (fold device_act bs ?d)) \<and> session_inv (dv_session (fold device_act bs ?d))" for bs
    unfolding e using device_cut_off device_session_inv by blast
  have "nobody (fst (receiver_turn main_route cid a now (dv_session d)))"
    using lost_nobody [OF assms(2-5)] device_cut_off [of as c clock os tty scr la kb] assms(1) by simp
  then have "nobody (dv_session ?d)" by (cases "receiver_turn main_route cid a now (dv_session d)") simp
  then have n: "nobody (dv_session (fold device_act bs ?d))" (is "nobody ?s")
    using nobody_device [of ?d bs] all [of "[]"] all assms(6) by simp
  then have "Message_event m n \<notin> set (snd (onFrame '''' f ?s))" by (simp add: message_event_iff nobody_def)
  moreover have "list_peers ?s = []"
    using nobody_peers [OF n] all by blast
  ultimately show ?thesis by (simp add: Let_def)
qed

text \<open>A visitor that greets, and whose connection is lost then.\<close>

lemma visitor:
  "sm_lookup (connections (dv_session (fold device_act visit (sample_device kb)))) ''conn5'' =
     Some (fst (conn_send_str (conn_start 0 (wrap_socket [Accepts 500] (new_socket 7))) HELLO (hello_payload talk_config)))"
proof -
  have "makeConnId None 5 = ''conn5''" by code_simp
  then show ?thesis
    by (simp add: visit_eval addConnection_def Let_def sendHello_def on_connection_def wired_session_def
        start_session_def setPeerEventCallback_def setMessageCallback_def new_session_def)
qed

theorem listening_says_little_witness:
  "\<exists>x. sm_lookup (connections (dv_session (fold device_act visit (sample_device [''hi''])))) ''conn5'' = Some x \<and>
     stream_of small_talk (sent x)"
  using listening_says_little [of visit talk_config "\<lambda>n. (12, 34, 56)" Linux True "[]" sample_listen "[''hi'']"]
    visitor [of "[''hi'']"]
  by (simp add: Let_def sample_device_def)

theorem leaving_silences_all_witness:
  "list_peers (dv_session (device_act (Receiver_turn ''conn5'' (Received []) 0)
     (fold device_act (visit @ [Receiver_turn ''conn5'' Recv_again 0]) (sample_device [])))) = []"
proof -
  let ?d = "fold device_act (visit @ [Receiver_turn ''conn5'' Recv_again 0]) (sample_device [])"
  let ?c = "fst (conn_send_str (conn_start 0 (wrap_socket [Accepts 500] (new_socket 7))) HELLO (hello_payload talk_config))"
  let ?s = "dv_session (fold device_act visit (sample_device []))"
  have c: "running ?c" "thread ?c = At_head" "\<exists>k. socket ?c = Some k \<and> isValid k"
    by (auto simp: conn_send_str_def conn_send_def conn_start_def wrap_socket_def new_connection_def new_socket_def
        isValid_def kInvalidSocket_def sendAll_def split: prod.splits)
  then have "recv_enter ?c = (?c\<lparr>thread := In_recv\<rparr>, Quiet)" by (auto simp: recv_enter_def)
  then have "receiver_turn main_route ''conn5'' Recv_again 0 ?s = (set_conn ''conn5'' (?c\<lparr>thread := In_recv\<rparr>) ?s, [])"
    using visitor [of "[]"] c(2) by (simp add: receiver_turn_def notify_closed_def)
  then have "sm_lookup (connections (dv_session ?d)) ''conn5'' = Some (?c\<lparr>thread := In_recv\<rparr>)" by (simp add: set_conn_def)
  from leaving_silences_all [OF _ this, of "visit @ [Receiver_turn ''conn5'' Recv_again 0]" talk_config
      "\<lambda>n. (12, 34, 56)" Linux True "[]" sample_listen "[]" "Received []" "[]" 0] c(1)
  show ?thesis by (simp add: sample_device_def recv_code_def Let_def)
qed

end
