(* ===== verification/Connecting_Device.thy ===== *)
theory Connecting_Device imports Listening_Talk begin

text \<open>
  A device that has connected to another, with all its threads (\<open>runConnect\<close> in
  \<open>src/main.cpp\<close>, from \<open>addConnection\<close> on): the main thread, the receiving thread of the
  connection, the ping thread and signals. The turns of the session's threads are those of
  \<open>Listening_Device\<close>; a lost connection is also reported to the interface, which is then stopped.
\<close>

section \<open>The device\<close>

record caller =
  cl_address :: "string \<times> string"
  cl_clock :: "i64 \<Rightarrow> nat \<times> nat \<times> nat"
  cl_terminal :: terminal
  cl_built :: bool
  cl_main :: main_pc

abbreviation cl_session :: "caller \<Rightarrow> session" where
  "cl_session d \<equiv> ui_session (cl_terminal d)"

definition calling :: "app_config \<Rightarrow> (i64 \<Rightarrow> nat \<times> nat \<times> nat) \<Rightarrow> build_os \<Rightarrow> bool \<Rightarrow> console_item list \<Rightarrow>
    string \<times> string \<Rightarrow> session \<Rightarrow> string list \<Rightarrow> caller" where
  "calling c clock os tty scr addr s kb =
     \<lparr>cl_address = addr, cl_clock = clock, cl_terminal = new_terminal os tty c s scr kb, cl_built = False, cl_main = Main_builds\<rparr>"

text \<open>The session with the new connection in it.\<close>

definition called :: "app_config \<Rightarrow> send_answer list \<Rightarrow> bytes option \<Rightarrow> int \<Rightarrow> int \<Rightarrow> tcp_socket \<Rightarrow> session" where
  "called c ks rnd ts now sock = addConnection rnd ts now (wrap_socket ks sock) (wired_session c)"

text \<open>The reason with which a turn of a receiving thread calls the disconnect callback, if it does.\<close>

definition reports_loss :: "string \<Rightarrow> recv_answer \<Rightarrow> session \<Rightarrow> string option" where
  "reports_loss cid a s =
     (case sm_lookup (connections s) cid of
        None \<Rightarrow> None
      | Some c \<Rightarrow>
          (case (case thread c of At_head \<Rightarrow> snd (recv_enter c) | In_recv \<Rightarrow> snd (recv_return c a) | _ \<Rightarrow> Quiet) of
             Closed reason \<Rightarrow> Some reason
           | _ \<Rightarrow> None))"

definition caller_receiver :: "string \<Rightarrow> recv_answer \<Rightarrow> int \<Rightarrow> caller \<Rightarrow> caller" where
  "caller_receiver cid a now d =
     (let t = session_shows (cl_built d) (cl_clock d) (receiver_turn main_route cid a now (cl_session d)) (cl_terminal d)
      in case reports_loss cid a (cl_session d) of
           None \<Rightarrow> d\<lparr>cl_terminal := t\<rparr>
         | Some reason \<Rightarrow>
             d\<lparr>cl_terminal := (if cl_built d then ui_stop (printInfo (''Disconnected: '' @ reason) t) else t)\<rparr>)"

definition caller_main :: "bytes option \<Rightarrow> i64 \<Rightarrow> caller \<Rightarrow> caller" where
  "caller_main rnd now d =
     (case cl_main d of
        Main_builds \<Rightarrow>
          d\<lparr>cl_built := True, cl_main := Main_chats,
            cl_terminal := printBanner (fst (cl_address d)) (snd (cl_address d)) (cl_terminal d)\<rparr>
      | Main_chats \<Rightarrow>
          (if ui_pc (cl_terminal d) = Ui_done then d\<lparr>cl_main := Main_stops_session\<rparr>
           else d\<lparr>cl_terminal := fst (ui_turn rnd now (cl_terminal d))\<rparr>)
      | Main_stops_session \<Rightarrow>
          d\<lparr>cl_terminal := session_shows (cl_built d) (cl_clock d) (stop_session (cl_session d)) (cl_terminal d),
            cl_main := Main_returned\<rparr>
      | _ \<Rightarrow> d)"

datatype caller_action =
    Caller_main "bytes option" i64
  | Caller_receiver string recv_answer int
  | Caller_pinger
  | Caller_signal

fun caller_act :: "caller_action \<Rightarrow> caller \<Rightarrow> caller" where
  "caller_act (Caller_main rnd now) d = caller_main rnd now d"
| "caller_act (Caller_receiver cid a now) d = caller_receiver cid a now d"
| "caller_act Caller_pinger d =
     d\<lparr>cl_terminal := session_shows (cl_built d) (cl_clock d) (pinger_turn (cl_session d)) (cl_terminal d)\<rparr>"
| "caller_act Caller_signal d = (if cl_main d = Main_chats then d\<lparr>cl_terminal := ui_stop (cl_terminal d)\<rparr> else d)"

section \<open>Its session\<close>

lemma caller_receiver_session: "cl_session (caller_receiver cid a now d) = fst (receiver_turn main_route cid a now (cl_session d))"
  by (simp add: caller_receiver_def Let_def ui_stop_def split: option.split)

text \<open>Typing does nothing to it, so what is left are the turns of its threads and its end.\<close>

definition session_turn :: "session \<Rightarrow> session \<Rightarrow> bool" where
  "session_turn s s' \<longleftrightarrow> s' = s \<or> s' = fst (stop_session s) \<or> s' = fst (pinger_turn s) \<or>
     (\<exists>cid a now. s' = fst (receiver_turn main_route cid a now s))"

lemma caller_session:
  assumes cut: "cut_off (cl_session d)" and inv: "session_inv (cl_session d)"
  shows "session_turn (cl_session d) (cl_session (caller_act a d))"
proof (cases a)
  case (Caller_main rnd now)
  then show ?thesis using typed_nothing [OF cut inv, of rnd now]
    by (cases "cl_main d") (simp_all add: session_turn_def caller_main_def print_defs)
next
  case (Caller_receiver cid x now)
  then show ?thesis unfolding session_turn_def by (simp only: caller_act.simps caller_receiver_session) blast
qed (simp_all add: session_turn_def ui_stop_def)

lemma session_turn_step:
  assumes "session_turn s s'"
  shows "s' = s \<or> (\<exists>l. session_step main_route s l s')"
proof -
  have "fst (pinger_turn s) = s \<or> (\<exists>l. session_step main_route s l (fst (pinger_turn s)))"
    using pinger_steps [where route = main_route, OF surjective_pairing [of "pinger_turn s"]] by auto
  moreover have "fst (receiver_turn main_route cid a now s) = s \<or>
      (\<exists>l. session_step main_route s l (fst (receiver_turn main_route cid a now s)))" for cid a now
    using receiver_steps [OF surjective_pairing [of "receiver_turn main_route cid a now s"]] by auto
  moreover have "\<exists>l. session_step main_route s l (fst (stop_session s))"
    using session_step.Stop [OF surjective_pairing [of "stop_session s"]] by blast
  ultimately show ?thesis using assms unfolding session_turn_def by blast
qed

lemma turn_keeps: "session_turn s s' \<Longrightarrow> cut_off s \<Longrightarrow> session_inv s \<Longrightarrow> cut_off s' \<and> session_inv s'"
  using session_turn_step cut_off_step session_inv_step by blast

text \<open>What every turn of the session's threads keeps, a device keeps.\<close>

lemma caller_invariant:
  assumes "cut_off s" and "session_inv s" and "I s"
    and I: "\<And>s s'. cut_off s \<Longrightarrow> session_inv s \<Longrightarrow> I s \<Longrightarrow> session_turn s s' \<Longrightarrow> I s'"
  shows "cut_off (cl_session (fold caller_act as (calling c clock os tty scr addr s kb))) \<and>
    session_inv (cl_session (fold caller_act as (calling c clock os tty scr addr s kb))) \<and>
    I (cl_session (fold caller_act as (calling c clock os tty scr addr s kb)))"
proof (induction as rule: rev_induct)
  case Nil
  then show ?case using assms by (simp add: calling_def new_terminal_def)
next
  case (snoc a as)
  let ?d = "fold caller_act as (calling c clock os tty scr addr s kb)"
  from snoc have "session_turn (cl_session ?d) (cl_session (caller_act a ?d))" using caller_session by blast
  then show ?case using snoc turn_keeps I by simp blast
qed

lemma says_turn:
  "cut_off s \<Longrightarrow> session_inv s \<Longrightarrow> says small_talk s \<Longrightarrow> session_turn s s' \<Longrightarrow> says small_talk s'"
  unfolding session_turn_def using says_receiver says_pinger says_stop by blast

lemma called_facts:
  assumes "wire sock = []"
  shows "cut_off (called c ks rnd ts now sock)" "session_inv (called c ks rnd ts now sock)"
    "says small_talk (called c ks rnd ts now sock)"
proof -
  let ?c = "wrap_socket ks sock"
  have c: "conn_ok ?c" "state ?c = CONNECTED" "sent ?c = []"
    using assms by (simp_all add: wrap_socket_def conn_ok_new) (simp_all add: new_connection_def sent_def)
  show "cut_off (called c ks rnd ts now sock)" unfolding called_def by (rule cut_off_add [OF cut_off_wired])
  show "session_inv (called c ks rnd ts now sock)" unfolding called_def by (rule inv_addConnection [OF inv_wired c(1,2)])
  have "says small_talk (wired_session c)"
    by (simp add: says_def wired_session_def start_session_def setPeerEventCallback_def setMessageCallback_def new_session_def)
  then show "says small_talk (called c ks rnd ts now sock)" unfolding called_def using c(3) by (intro says_add) simp_all
qed

lemma caller_session_facts:
  assumes "wire sock = []"
  shows "cut_off (cl_session (fold caller_act as (calling c clock os tty scr addr (called c ks rnd ts now sock) kb)))"
    "session_inv (cl_session (fold caller_act as (calling c clock os tty scr addr (called c ks rnd ts now sock) kb)))"
    "says small_talk (cl_session (fold caller_act as (calling c clock os tty scr addr (called c ks rnd ts now sock) kb)))"
proof -
  let ?d = "fold caller_act as (calling c clock os tty scr addr (called c ks rnd ts now sock) kb)"
  have "cut_off (cl_session ?d) \<and> session_inv (cl_session ?d) \<and> says small_talk (cl_session ?d)"
  proof (rule caller_invariant)
    show "says small_talk s'" if "cut_off s" "session_inv s" "says small_talk s" "session_turn s s'" for s s'
      using says_turn that by blast
  qed (rule called_facts [OF assms])+
  then show "cut_off (cl_session ?d)" "session_inv (cl_session ?d)" "says small_talk (cl_session ?d)" by blast+
qed

section \<open>The main thread comes to its end\<close>

definition caller_left :: "caller \<Rightarrow> nat" where
  "caller_left d =
     (case cl_main d of
        Main_builds \<Rightarrow> turns_left (cl_terminal d) + 3
      | Main_chats \<Rightarrow> turns_left (cl_terminal d) + 2
      | Main_stops_session \<Rightarrow> 1
      | _ \<Rightarrow> 0)"

definition caller_pc_ok :: "caller \<Rightarrow> bool" where
  "caller_pc_ok d \<longleftrightarrow> cl_main d \<in> {Main_builds, Main_chats, Main_stops_session, Main_returned}"

fun caller_own :: "caller_action \<Rightarrow> bool" where
  "caller_own (Caller_main rnd now) = True"
| "caller_own a = False"

lemma touched_receiver: "touched (cl_terminal d) (cl_terminal (caller_receiver cid a now d))"
proof -
  let ?t = "session_shows (cl_built d) (cl_clock d) (receiver_turn main_route cid a now (cl_session d)) (cl_terminal d)"
  have "touched (cl_terminal d) ?t" by (rule touched_shows)
  then show ?thesis by (cases "cl_built d") (simp_all add: caller_receiver_def Let_def touched_def ui_stop_def split: option.split)
qed

lemma caller_act_other:
  assumes "\<not> caller_own a"
  shows "cl_main (caller_act a d) = cl_main d" "touched (cl_terminal d) (cl_terminal (caller_act a d))"
proof -
  have t: "touched (cl_terminal d) (cl_terminal d)" "touched (cl_terminal d) (ui_stop (cl_terminal d))"
    by (simp_all add: touched_def ui_stop_def)
  show "cl_main (caller_act a d) = cl_main d"
    using assms by (cases a) (simp_all add: caller_receiver_def Let_def split: option.split)
  show "touched (cl_terminal d) (cl_terminal (caller_act a d))"
    using assms t touched_receiver touched_shows by (cases a) simp_all
qed

interpretation caller_thread: ending_thread caller_act caller_own "\<lambda>d. cl_main d = Main_returned" caller_left caller_pc_ok
proof
  fix d :: caller and a
  assume i: "caller_pc_ok d"
  show "caller_pc_ok (caller_act a d)"
    using i caller_act_other(1) [of a d]
    by (cases a) (auto simp: caller_pc_ok_def caller_main_def split: main_pc.split)
  have own: "caller_left (caller_main rnd now d) < caller_left d" if "cl_main d \<noteq> Main_returned" for rnd now
    using i that turn_decreases [of "cl_terminal d" rnd now]
    by (auto simp: caller_pc_ok_def caller_main_def caller_left_def turns_left_def print_defs)
  then show "caller_left (caller_act a d) < caller_left d" if "caller_own a" "cl_main d \<noteq> Main_returned"
    using that by (cases a) auto
  show "caller_left (caller_act a d) \<le> caller_left d"
  proof (cases "caller_own a")
    case True
    then obtain rnd now where "a = Caller_main rnd now" by (cases a) auto
    then show ?thesis using own [of rnd now] by (cases "cl_main d = Main_returned") (auto simp: caller_main_def)
  next
    case False
    then show ?thesis using caller_act_other(1) [OF False, of d] touched_left [OF caller_act_other(2) [OF False, of d]]
      by (simp add: caller_left_def split: main_pc.split)
  qed
  show "caller_left d = 0 \<longleftrightarrow> cl_main d = Main_returned"
    using i by (auto simp: caller_left_def caller_pc_ok_def)
qed

section \<open>After the connection is lost\<close>

text \<open>The interface has been told to stop while its loop runs.\<close>

definition told :: "caller \<Rightarrow> bool" where
  "told d \<longleftrightarrow> caller_pc_ok d \<and> cl_main d \<noteq> Main_builds \<and>
     (cl_main d = Main_chats \<longrightarrow> \<not> ui_running (cl_terminal d) \<and> ui_pc (cl_terminal d) \<noteq> Ui_idle)"

fun steps_to_stop :: "ui_pc \<Rightarrow> nat" where
  "steps_to_stop Ui_read = 4"
| "steps_to_stop (Ui_handle l) = 3"
| "steps_to_stop Ui_prompt = 2"
| "steps_to_stop Ui_test = 1"
| "steps_to_stop _ = 0"

definition told_left :: "caller \<Rightarrow> nat" where
  "told_left d =
     (case cl_main d of
        Main_chats \<Rightarrow> steps_to_stop (ui_pc (cl_terminal d)) + 2
      | Main_stops_session \<Rightarrow> 1
      | _ \<Rightarrow> 0)"

text \<open>One line may still be read when the loop is already past its test.\<close>

definition may_read :: "caller \<Rightarrow> nat" where
  "may_read d = (if cl_main d = Main_chats \<and> ui_pc (cl_terminal d) = Ui_read then 1 else 0)"

lemma told_turn:
  assumes "\<not> ui_running t" and "ui_pc t \<noteq> Ui_idle" and "ui_pc t \<noteq> Ui_done"
  shows "\<not> ui_running (fst (ui_turn rnd now t))" "ui_pc (fst (ui_turn rnd now t)) \<noteq> Ui_idle"
    "steps_to_stop (ui_pc (fst (ui_turn rnd now t))) < steps_to_stop (ui_pc t)"
    "length (keyboard t) + (if ui_pc (fst (ui_turn rnd now t)) = Ui_read then 1 else 0) \<le>
       length (keyboard (fst (ui_turn rnd now t))) + (if ui_pc t = Ui_read then 1 else 0)"
  using assms
  by (auto simp: ui_turn_def handle_line_def ui_return_def case_prod_unfold split: ui_pc.split list.split)

lemma told_main:
  assumes "told d"
  shows "told (caller_main rnd now d)"
    "cl_main d \<noteq> Main_returned \<Longrightarrow> told_left (caller_main rnd now d) < told_left d"
    "length (keyboard (cl_terminal d)) + may_read (caller_main rnd now d) \<le>
       length (keyboard (cl_terminal (caller_main rnd now d))) + may_read d"
proof -
  let ?d = "caller_main rnd now d"
  have "told ?d \<and> (cl_main d \<noteq> Main_returned \<longrightarrow> told_left ?d < told_left d) \<and>
    length (keyboard (cl_terminal d)) + may_read ?d \<le> length (keyboard (cl_terminal ?d)) + may_read d"
  proof (cases "cl_main d")
    case Main_chats
    show ?thesis
    proof (cases "ui_pc (cl_terminal d) = Ui_done")
      case False
      then show ?thesis using Main_chats assms told_turn [of "cl_terminal d" rnd now]
        by (simp add: told_def caller_pc_ok_def caller_main_def told_left_def may_read_def)
    qed (use Main_chats assms in \<open>simp add: told_def caller_pc_ok_def caller_main_def told_left_def may_read_def\<close>)
  next
    case Main_stops_session
    then show ?thesis using assms touched_shows [of "cl_terminal d" "cl_built d" "cl_clock d" "stop_session (cl_session d)"]
      by (simp add: told_def caller_pc_ok_def caller_main_def told_left_def may_read_def touched_def)
  qed (use assms in \<open>simp_all add: told_def caller_pc_ok_def caller_main_def told_left_def may_read_def\<close>)
  then show "told ?d" "cl_main d \<noteq> Main_returned \<Longrightarrow> told_left ?d < told_left d"
    "length (keyboard (cl_terminal d)) + may_read ?d \<le> length (keyboard (cl_terminal ?d)) + may_read d" by blast+
qed

lemma told_other:
  assumes "told d" and "\<not> caller_own a"
  shows "told (caller_act a d)" "told_left (caller_act a d) = told_left d"
    "keyboard (cl_terminal (caller_act a d)) = keyboard (cl_terminal d)" "may_read (caller_act a d) = may_read d"
proof -
  have e: "cl_main (caller_act a d) = cl_main d" "ui_pc (cl_terminal (caller_act a d)) = ui_pc (cl_terminal d)"
    "keyboard (cl_terminal (caller_act a d)) = keyboard (cl_terminal d)"
    "ui_running (cl_terminal (caller_act a d)) \<Longrightarrow> ui_running (cl_terminal d)"
    using caller_act_other [OF assms(2), of d] by (auto simp: touched_def)
  show "told (caller_act a d)" using assms(1) e by (auto simp: told_def caller_pc_ok_def)
  show "told_left (caller_act a d) = told_left d" "keyboard (cl_terminal (caller_act a d)) = keyboard (cl_terminal d)"
    "may_read (caller_act a d) = may_read d" using e by (simp_all add: told_left_def may_read_def split: main_pc.split)
qed

lemma caller_own_cases: "(\<And>rnd now. a = Caller_main rnd now \<Longrightarrow> P) \<Longrightarrow> (\<not> caller_own a \<Longrightarrow> P) \<Longrightarrow> P"
  by (cases a) auto

interpretation told_thread: ending_thread caller_act caller_own "\<lambda>d. cl_main d = Main_returned" told_left told
proof
  fix d :: caller and a
  assume t: "told d"
  show "told (caller_act a d)"
    by (rule caller_own_cases [of a]) (use told_main(1) [OF t] told_other(1) [OF t] in auto)
  show "told_left (caller_act a d) < told_left d" if "caller_own a" "cl_main d \<noteq> Main_returned"
    using that told_main(2) [OF t] by (cases a) auto
  show "told_left (caller_act a d) \<le> told_left d"
  proof (rule caller_own_cases [of a])
    fix rnd now
    assume a: "a = Caller_main rnd now"
    show ?thesis using told_main(2) [OF t, of rnd now] a
      by (cases "cl_main d = Main_returned") (auto simp: caller_main_def)
  qed (use told_other(2) [OF t] in simp)
  show "told_left d = 0 \<longleftrightarrow> cl_main d = Main_returned"
    using t by (auto simp: told_left_def told_def caller_pc_ok_def)
qed

lemma told_reads:
  "told d \<Longrightarrow> length (keyboard (cl_terminal d)) + may_read (fold caller_act as d) \<le>
     length (keyboard (cl_terminal (fold caller_act as d))) + may_read d"
proof (induction as arbitrary: d)
  case (Cons a as)
  have "told (caller_act a d)" using Cons.prems by (rule told_thread.fair_act)
  moreover have "length (keyboard (cl_terminal d)) + may_read (caller_act a d) \<le>
      length (keyboard (cl_terminal (caller_act a d))) + may_read d"
    by (rule caller_own_cases [of a]) (use told_main(3) [OF Cons.prems] told_other(3,4) [OF Cons.prems] in auto)
  ultimately show ?case using Cons.IH [of "caller_act a d"] by simp
qed simp

lemma told_reported:
  assumes "cl_built d" and "cl_main d = Main_chats" and "ui_pc (cl_terminal d) \<noteq> Ui_idle"
    and "reports_loss cid a (cl_session d) = Some reason"
  shows "told (caller_act (Caller_receiver cid a now) d)"
    "keyboard (cl_terminal (caller_act (Caller_receiver cid a now) d)) = keyboard (cl_terminal d)"
    "told_left (caller_act (Caller_receiver cid a now) d) \<le> 6"
proof -
  have o: "\<not> caller_own (Caller_receiver cid a now)" by simp
  note * = caller_act_other [OF o, of d]
  have "\<not> ui_running (cl_terminal (caller_act (Caller_receiver cid a now) d))"
    using assms(1,4) by (simp add: caller_receiver_def Let_def ui_stop_def)
  then show "told (caller_act (Caller_receiver cid a now) d)"
    using * assms(2,3) by (simp add: told_def caller_pc_ok_def touched_def)
  show "keyboard (cl_terminal (caller_act (Caller_receiver cid a now) d)) = keyboard (cl_terminal d)"
    using *(2) by (simp add: touched_def)
  have "steps_to_stop p \<le> 4" for p by (cases p) simp_all
  then show "told_left (caller_act (Caller_receiver cid a now) d) \<le> 6" using *(1) assms(2) by (simp add: told_left_def)
qed

section \<open>Properties\<close>

text \<open>A device that connects says as little as one that listens: in every schedule of its threads every
  byte written belongs to a \<open>HELLO\<close>, \<open>PING\<close> or \<open>DISCONNECT\<close> frame, and a turn of the input
  loop leaves the session as it is.\<close>

theorem connecting_says_little:
  assumes "wire sock = []"
  shows "let d = fold caller_act as (calling c clock os tty scr addr (called c ks rnd ts now sock) kb) in
     (\<forall>k x. sm_lookup (connections (cl_session d)) k = Some x \<longrightarrow> stream_of small_talk (sent x)) \<and>
     list_all (\<lambda>x. stream_of small_talk (sent x)) (destroyed (cl_session d)) \<and>
     (cl_main d = Main_chats \<longrightarrow> cl_session (caller_act (Caller_main rnd' now') d) = cl_session d)"
proof -
  let ?d = "fold caller_act as (calling c clock os tty scr addr (called c ks rnd ts now sock) kb)"
  note facts = caller_session_facts [OF assms, of as c clock os tty scr addr ks rnd ts now kb]
  have "cl_session (caller_act (Caller_main rnd' now') ?d) = cl_session ?d" if "cl_main ?d = Main_chats"
    using that typed_nothing [OF facts(1,2), of rnd' now'] by (simp add: caller_main_def)
  then show ?thesis using facts(3) by (simp add: says_def Let_def list_all_iff)
qed

text \<open>\<open>runConnect\<close> returns: in every schedule the main thread is at its end after six turns of its
  own, and four more for each line of the input.\<close>

theorem connecting_returns:
  assumes "4 * length kb + 6 \<le> length (filter caller_own as)"
  shows "cl_main (fold caller_act as (calling c clock os tty scr addr s kb)) = Main_returned"
proof (rule caller_thread.ends)
  show "caller_left (calling c clock os tty scr addr s kb) \<le> length (filter caller_own as)"
    using assms by (simp add: caller_left_def calling_def turns_left_def new_terminal_def)
qed (simp add: caller_pc_ok_def calling_def)


text \<open>A device in the input loop, waiting for a line and for the peer.\<close>

definition sample_call :: caller where
  "sample_call = calling talk_config (\<lambda>n. (12, 34, 56)) Linux True [] (''laptop'', ''10.0.0.2:5050'')
     (called talk_config [Accepts 500] None 5 0 (new_socket 7)) [''hi'', ''there'']"

definition sample_chat :: caller where
  "sample_chat = fold caller_act
     [Caller_receiver ''conn5'' Recv_again 0, Caller_main None 0, Caller_main None 0, Caller_main None 0] sample_call"

abbreviation sample_conn :: connection where
  "sample_conn \<equiv> fst (conn_send_str (conn_start 0 (wrap_socket [Accepts 500] (new_socket 7))) HELLO (hello_payload talk_config))"

lemma sample_conn_simps:
  "running sample_conn" "thread sample_conn = At_head" "\<exists>k. socket sample_conn = Some k \<and> isValid k"
  by (auto simp: conn_send_str_def conn_send_def conn_start_def wrap_socket_def new_connection_def new_socket_def
      isValid_def kInvalidSocket_def sendAll_def split: prod.splits)

lemma sample_call_simps:
  "sm_lookup (connections (cl_session sample_call)) ''conn5'' = Some sample_conn" "cl_main sample_call = Main_builds"
  "ui_pc (cl_terminal sample_call) = Ui_idle" "keyboard (cl_terminal sample_call) = [''hi'', ''there'']"
  "\<not> cl_built sample_call"
proof -
  have "makeConnId None 5 = ''conn5''" by code_simp
  then show "sm_lookup (connections (cl_session sample_call)) ''conn5'' = Some sample_conn"
    by (simp add: sample_call_def calling_def called_def new_terminal_def addConnection_def Let_def sendHello_def
        on_connection_def wired_session_def start_session_def setPeerEventCallback_def setMessageCallback_def new_session_def)
qed (simp_all add: sample_call_def calling_def new_terminal_def)

lemma sample_enters:
  "caller_act (Caller_receiver ''conn5'' Recv_again 0) sample_call =
     sample_call\<lparr>cl_terminal := (cl_terminal sample_call)
       \<lparr>ui_session := set_conn ''conn5'' (sample_conn\<lparr>thread := In_recv\<rparr>) (cl_session sample_call)\<rparr>\<rparr>"
proof -
  have "recv_enter sample_conn = (sample_conn\<lparr>thread := In_recv\<rparr>, Quiet)"
    using sample_conn_simps by (auto simp: recv_enter_def)
  then show ?thesis using sample_call_simps(1,5) sample_conn_simps(2)
    by (simp add: caller_receiver_def receiver_turn_def notify_closed_def reports_loss_def session_shows_def)
qed

lemma sample_chat_simps:
  "sm_lookup (connections (cl_session sample_chat)) ''conn5'' = Some (sample_conn\<lparr>thread := In_recv\<rparr>)"
  "cl_built sample_chat" "cl_main sample_chat = Main_chats" "ui_pc (cl_terminal sample_chat) = Ui_read"
  "keyboard (cl_terminal sample_chat) = [''hi'', ''there'']"
  unfolding sample_chat_def fold_simps(2) o_apply sample_enters
  by (simp_all add: caller_main_def ui_turn_def sample_call_simps set_conn_def print_defs)

lemma sample_silent: "wire (new_socket n) = []"
  by (simp add: new_socket_def)

theorem connecting_says_little_witness:
  "\<exists>x. sm_lookup (connections (cl_session sample_chat)) ''conn5'' = Some x \<and> stream_of small_talk (sent x)"
  using connecting_says_little [OF sample_silent, of
      "[Caller_receiver ''conn5'' Recv_again 0, Caller_main None 0, Caller_main None 0, Caller_main None 0]"
      talk_config "\<lambda>n. (12, 34, 56)" Linux True "[]" "(''laptop'', ''10.0.0.2:5050'')" "[Accepts 500]" None 5 0 7 "[''hi'', ''there'']"]
    sample_chat_simps(1)
  unfolding Let_def sample_call_def [symmetric] sample_chat_def [symmetric] by blast

theorem connecting_returns_witness:
  "cl_main (fold caller_act (replicate 14 (Caller_main None 0)) sample_call) = Main_returned"
  unfolding sample_call_def by (rule connecting_returns) simp


end
