(* ===== verification/App_Main.thy ===== *)
theory App_Main imports App_Commands "HOL-Library.Monad_Syntax" begin

text \<open>
  The entry point (\<open>src/main.cpp\<close>): \<open>main\<close>, its dispatch and the interactive menu. The
  menu reads commands until the end of the input or a command to leave; as a loop that might not
  end it is a partial function whose value \<open>None\<close> is running forever, and that it returns
  is proved. An exception that nothing catches is the outcome \<open>Uncaught\<close>.
\<close>

datatype exit = Exit nat | Uncaught conv_error

section \<open>The menu\<close>

text \<open>The drawing; \<open>^\<close> stands for a backslash in this text only.\<close>

definition drawn :: "string \<Rightarrow> string" where
  "drawn s = map (\<lambda>c. if c = CHR ''^'' then ch_bs else c) s"

definition menu_banner :: string where
  "menu_banner = unlines
     ['''',
      ''      __               ______      ____ __ '',
      ''     / /  ___ ____    /_  __/__ _ / / // /__'',
      drawn (''    / /__/ _ `/ _ ^    / / / _ `// / //  '' @ [ch_sq] @ ''_/''),
      drawn ''   /____/^_,_/_//_/   /_/  ^_,_//_/_//_/^_^ '',
      ''                                           '',
      ''        ( ( ( ( (  '' @ [CHR 0xF0, CHR 0x9F, CHR 0x93, CHR 0xA1] @ ''  ) ) ) ) )           '',
      ''                                           '',
      ''   P2P Local Area Network Messenger v1.0.5  '',
      ''=============================================='']"

definition menu_text :: string where
  "menu_text = unlines
     ['''',
      ''Choose an action:'',
      ''  [1] Listen for incoming connections'',
      ''  [2] Scan Wi-Fi/LAN for peers'',
      ''  [3] Connect to a specific IP address'',
      ''  [4] View Status / Info'',
      ''  [5] Exit'',
      ''''] @ ''LANTALK> ''"

definition menu_connect :: "command_env \<Rightarrow> parsed_args \<Rightarrow> app \<Rightarrow> app" where
  "menu_connect e args a =
     (let a1 = say (Stdout ''Enter IP Address (e.g. 192.168.1.5): '') a
      in case stdin a1 of
           [] \<Rightarrow> a1
         | ip # rest \<Rightarrow>
             (let a2 = a1\<lparr>stdin := rest\<rparr>
              in if ip \<noteq> '''' then fst (run_connect e (args\<lparr>positional := positional args @ [ip]\<rparr>) a2) else a2))"

text \<open>One round, and whether the loop goes on.\<close>

definition menu_round :: "command_env \<Rightarrow> parsed_args \<Rightarrow> app \<Rightarrow> app \<times> bool" where
  "menu_round e args a =
     (let a1 = say (Stdout menu_text) a
      in case stdin a1 of
           [] \<Rightarrow> (a1, False)
         | choice # rest \<Rightarrow>
             (let a2 = a1\<lparr>stdin := rest\<rparr>
              in if choice = ''1'' then (fst (run_listen e args a2), True)
                 else if choice = ''2'' then (run_scan e a2, True)
                 else if choice = ''3'' then (menu_connect e args a2, True)
                 else if choice = ''4'' then (run_status a2, True)
                 else if choice = ''5'' \<or> choice = ''exit'' \<or> choice = ''quit'' then (a2, False)
                 else if choice \<noteq> '''' then (say (Stdout (unlines [''Invalid choice. Enter 1-5.''])) a2, True)
                 else (a2, True)))"

partial_function (option) menu_run :: "(nat \<Rightarrow> command_env) \<Rightarrow> parsed_args \<Rightarrow> nat \<Rightarrow> app \<Rightarrow> app option" where
  "menu_run envs args i a =
     (case menu_round (envs i) args a of
        (a', again) \<Rightarrow> if again then menu_run envs args (i + 1) a' else Some a')"

section \<open>The entry point\<close>

record start_env =
  st_os :: build_os
  st_tty :: bool
  st_sockets :: bool
  st_fs :: fs_answers
  st_file :: config_file
  st_random :: "bytes option"
  st_host :: "string option"
  st_getenv :: "string \<Rightarrow> string option"
  st_cwd :: string
  st_stdin :: "string list"
  st_commands :: "nat \<Rightarrow> command_env"

definition initial_app :: "start_env \<Rightarrow> app" where
  "initial_app st = \<lparr>app_os = st_os st, app_tty = st_tty st, cfg = default_config,
     cfgPath = configFilePath (st_os st) (st_getenv st) (st_cwd st), cfgFile = st_file st, log = initial_logger,
     out = [], stdin = st_stdin st, g_shutdown = False, g_ui_ptr = False, handlers_set = False\<rparr>"

text \<open>\<open>Config cfg; cfg.load();\<close> The returned value is not looked at.\<close>

definition load_config :: "start_env \<Rightarrow> app \<Rightarrow> conv_error + app" where
  "load_config st a =
     (case config_load (st_fs st) (st_file st) (st_random st) (st_host st)
             (construct_config (st_os st) (st_random st) (st_host st)) of
        Inl err \<Rightarrow> Inl err
      | Inr (_, c, saved) \<Rightarrow>
          Inr (a\<lparr>cfg := c, cfgFile := (case saved of Some text \<Rightarrow> Contents text | None \<Rightarrow> cfgFile a)\<rparr>))"

definition dispatch :: "(nat \<Rightarrow> command_env) \<Rightarrow> parsed_args \<Rightarrow> app \<Rightarrow> (exit \<times> app) option" where
  "dispatch envs args a =
     (let cmd = command args; e = envs 0
      in if cmd = ''listen'' then Some (Exit 0, fst (run_listen e args a))
         else if cmd = ''connect'' then Some (Exit 0, fst (run_connect e args a))
         else if cmd = ''scan'' then Some (Exit 0, run_scan e a)
         else if cmd = ''config'' then
           (case run_config e args a of Inl err \<Rightarrow> Some (Uncaught err, a) | Inr a' \<Rightarrow> Some (Exit 0, a'))
         else if cmd = ''status'' then Some (Exit 0, run_status a)
         else if cmd = ''peers'' then Some (Exit 0, run_scan e a)
         else if cmd = '''' then
           menu_run envs args 0 (say (Stdout menu_banner) a) \<bind> (\<lambda>a'. Some (Exit 0, a'))
         else Some (Exit 1, say (Stderr (unlines
           [''Unknown command: '' @ cmd, ''Run '' @ [ch_sq] @ ''lantalk --help'' @ [ch_sq] @ '' for usage.''])) a))"

definition run_main :: "start_env \<Rightarrow> string list \<Rightarrow> (exit \<times> app) option" where
  "run_main st argv =
     (let a0 = initial_app st
      in if \<not> initializeSockets (st_os st = Windows) (st_sockets st) then
           Some (Exit 1, say (Stderr (unlines [''Fatal: socket initialisation failed.''])) a0)
         else
           let args = parse_args argv
           in if command args = ''help'' \<or> hasFlag args ''help'' then Some (Exit 0, say (Stdout helpText) a0)
              else if command args = ''version'' \<or> hasFlag args ''version'' then Some (Exit 0, say (Stdout versionText) a0)
              else
                case load_config st a0 of
                  Inl err \<Rightarrow> Some (Uncaught err, a0)
                | Inr a1 \<Rightarrow> dispatch (st_commands st) args (apply_logging_flags args a1))"

section \<open>The menu ends\<close>

lemma menu_connect_stdin: "suffix (stdin (menu_connect e args a)) (stdin a)"
proof (cases "stdin a")
  case (Cons ip rest)
  have "suffix (stdin (fst (run_connect e args' (say x a\<lparr>stdin := rest\<rparr>)))) rest" for args' x
    using run_connect_stdin [of e args' "say x a\<lparr>stdin := rest\<rparr>"] by simp
  then show ?thesis
    using Cons by (auto simp: menu_connect_def Let_def intro: suffix_ConsI)
qed (simp add: menu_connect_def)

text \<open>A round that goes on has read a line.\<close>

lemma menu_round_reads:
  assumes "menu_round e args a = (a', True)"
  shows "length (stdin a') < length (stdin a)"
proof -
  from assms obtain choice rest where s: "stdin a = choice # rest"
    by (cases "stdin a") (auto simp: menu_round_def)
  let ?a2 = "say (Stdout menu_text) a\<lparr>stdin := rest\<rparr>"
  have "length (stdin a') \<le> length rest"
    using assms suffix_length_le [OF run_listen_stdin [of e args ?a2]]
      suffix_length_le [OF menu_connect_stdin [of e args ?a2]]
    by (auto simp: menu_round_def s Let_def split: if_splits)
  with s show ?thesis by simp
qed

lemma menu_returns: "\<exists>a'. menu_run envs args i a = Some a'"
proof (induction "length (stdin a)" arbitrary: i a rule: less_induct)
  case less
  obtain a1 again where r: "menu_round (envs i) args a = (a1, again)" by (cases "menu_round (envs i) args a")
  show ?case
  proof (cases again)
    case True
    with r have "length (stdin a1) < length (stdin a)"
      by (simp add: menu_round_reads [of "envs i" args a a1])
    from less [OF this] True r show ?thesis by (subst menu_run.simps) simp
  next
    case False
    with r show ?thesis by (subst menu_run.simps) simp
  qed
qed

section \<open>How the program ends\<close>

text \<open>The outcome read off the arguments and the configuration file.\<close>

definition program_commands :: "string list" where
  "program_commands = ['''', ''listen'', ''connect'', ''scan'', ''config'', ''status'', ''peers'']"

definition config_error :: "app_config \<Rightarrow> parsed_args \<Rightarrow> conv_error option" where
  "config_error c args =
     (case (command args, positional args) of
        (cmd, sub # key # val # _) \<Rightarrow>
          if cmd = ''config'' \<and> sub = ''set''
          then (case config_set c key val of Inl err \<Rightarrow> Some err | Inr _ \<Rightarrow> None) else None
      | _ \<Rightarrow> None)"

definition program_outcome :: "start_env \<Rightarrow> parsed_args \<Rightarrow> exit" where
  "program_outcome st args =
     (if st_os st = Windows \<and> \<not> st_sockets st then Exit 1
      else if command args \<in> {''help'', ''version''} \<or> hasFlag args ''help'' \<or> hasFlag args ''version'' then Exit 0
      else case load_config st (initial_app st) of
        Inl err \<Rightarrow> Uncaught err
      | Inr a \<Rightarrow>
          if command args \<notin> set program_commands then Exit 1
          else case config_error (cfg a) args of Some err \<Rightarrow> Uncaught err | None \<Rightarrow> Exit 0)"

lemma logging_flags_keep [simp]:
  "cfg (apply_logging_flags args a) = cfg a" "cfgFile (apply_logging_flags args a) = cfgFile a"
  "cfgPath (apply_logging_flags args a) = cfgPath a" "stdin (apply_logging_flags args a) = stdin a"
  by (simp_all add: apply_logging_flags_def Let_def split: option.split)

lemma run_config_error:
  "command args = ''config'' \<Longrightarrow>
   (case run_config e args a of Inl err \<Rightarrow> config_error (cfg a) args = Some err | Inr _ \<Rightarrow> config_error (cfg a) args = None)"
  by (auto simp: run_config_def config_error_def run_config_set_def split: list.split sum.split prod.split)

lemma config_error_only: "command args \<noteq> ''config'' \<Longrightarrow> config_error c args = None"
  by (auto simp: config_error_def split: list.split)

lemma dispatch_outcome:
  "\<exists>a'. dispatch envs args a =
     Some (if command args \<notin> set program_commands then Exit 1
           else case config_error (cfg a) args of Some err \<Rightarrow> Uncaught err | None \<Rightarrow> Exit 0, a')"
proof (cases "command args = ''config''")
  case True
  with run_config_error [OF True, where e = "envs 0" and a = a] show ?thesis
    by (cases "run_config (envs 0) args a") (simp_all add: dispatch_def program_commands_def)
next
  case False
  then have c: "config_error (cfg a) args = None" by (rule config_error_only)
  show ?thesis
  proof (cases "command args = ''''")
    case True
    with menu_returns [of envs args 0 "say (Stdout menu_banner) a"] c show ?thesis
      by (auto simp: dispatch_def program_commands_def)
  next
    case nonempty: False
    with False c show ?thesis by (auto simp: dispatch_def program_commands_def Let_def)
  qed
qed


section \<open>Configuration across runs\<close>

definition sockets_up :: "start_env \<Rightarrow> bool" where
  "sockets_up st \<longleftrightarrow> st_os st \<noteq> Windows \<or> st_sockets st"

definition can_save :: "command_env \<Rightarrow> bool" where
  "can_save e \<longleftrightarrow> dirExists (fs_env e) \<and> writeOpens (fs_env e)"

lemma initial_simps [simp]:
  "cfgFile (initial_app st) = st_file st" "out (initial_app st) = []" "stdin (initial_app st) = st_stdin st"
  by (simp_all add: initial_app_def)

lemma load_config_saved:
  assumes "config_ok c" and "st_file st = Contents (unlines (config_lines c))"
  shows "load_config st (initial_app st) = Inr (initial_app st\<lparr>cfg := c\<rparr>)"
  using assms by (simp add: load_config_def load_saved)

lemma save_config_file:
  "can_save e \<Longrightarrow> save_config e a = a\<lparr>cfgFile := Contents (unlines (config_lines (cfg a)))\<rparr>"
  by (simp add: save_config_def can_save_def config_save_def)

text \<open>The program run on a good file with a \<open>config\<close> command and no flags.\<close>

lemma run_main_config:
  assumes "config_ok c" and "st_file st = Contents (unlines (config_lines c))" and "sockets_up st"
    and "parse_args argv = \<lparr>command = ''config'', positional = ps, argFlags = []\<rparr>"
  shows "run_main st argv =
    (case run_config (st_commands st 0) \<lparr>command = ''config'', positional = ps, argFlags = []\<rparr> (initial_app st\<lparr>cfg := c\<rparr>) of
       Inl err \<Rightarrow> Some (Uncaught err, initial_app st\<lparr>cfg := c\<rparr>) | Inr a \<Rightarrow> Some (Exit 0, a))"
proof -
  have "apply_logging_flags \<lparr>command = ''config'', positional = ps, argFlags = []\<rparr> a = a" for a
    by (simp add: apply_logging_flags_def hasFlag_def getFlag_def)
  with assms show ?thesis
    by (auto simp: run_main_def initializeSockets_def sockets_up_def load_config_saved dispatch_def hasFlag_def
        split: sum.split)
qed

lemma parse_plain:
  "list_all (\<lambda>w. \<not> is_flag w) ws \<Longrightarrow> parse_loop a ws = a\<lparr>positional := positional a @ ws\<rparr>"
  by (induction a ws rule: parse_loop.induct) simp_all

lemma parse_config:
  "list_all (\<lambda>w. \<not> is_flag w) ws \<Longrightarrow>
   parse_args (p # ''config'' # ws) = \<lparr>command = ''config'', positional = ws, argFlags = []\<rparr>"
  by (simp add: parse_plain no_args_def)

lemma readable_keys: "getAsString c k \<noteq> None \<Longrightarrow> \<not> is_flag k"
  by (auto simp: getAsString_def split: if_splits)

lemma set_keeps_ok:
  "config_ok c \<Longrightarrow> getAsString c k \<noteq> None \<Longrightarrow> saveable v \<Longrightarrow> v \<noteq> '''' \<Longrightarrow>
   \<exists>c'. config_set c k v = Inr (c', True) \<and> getAsString c' k = Some v \<and> config_ok c'"
  by (auto simp: getAsString_def config_set_def config_ok_def split: if_splits)


definition sample_command :: command_env where
  "sample_command = \<lparr>fs_env = \<lparr>dirExists = True, dirCreated = True, writeOpens = True\<rparr>, log_place = (''main.cpp'', 57),
     log_time = \<lparr>lt_year = 2025, lt_month = 1, lt_day = 2, lt_hour = 3, lt_min = 4, lt_sec = 5, lt_ms = 6\<rparr>,
     local_clock = (\<lambda>t. (1, 2, 3)), scan_socket = True, scan_bind = True, scan_polls = [], listen_env = sample_listen,
     accept_script = [], accept_last = Accept_failed ''closed'', announce_sockets = [True], nonblock_bit = 2048,
     connect_env = sample_connect Connects 1, conn_kernel = [Accepts 500], conn_random = None, conn_stamp = 0, conn_time = 0, ui_script = [],
     ui_random = None, ui_time = 0\<rparr>"

definition sample_start :: "app_config \<Rightarrow> string list \<Rightarrow> start_env" where
  "sample_start c kb = \<lparr>st_os = Linux, st_tty = True, st_sockets = True,
     st_fs = \<lparr>dirExists = True, dirCreated = True, writeOpens = True\<rparr>, st_file = Contents (unlines (config_lines c)),
     st_random = None, st_host = None, st_getenv = (\<lambda>v. None), st_cwd = ''/tmp'', st_stdin = kb,
     st_commands = (\<lambda>i. sample_command)\<rparr>"

lemma sample_start_simps [simp]:
  "st_file (sample_start c kb) = Contents (unlines (config_lines c))" "sockets_up (sample_start c kb)"
  "st_commands (sample_start c kb) i = sample_command" "st_stdin (sample_start c kb) = kb"
  "can_save sample_command"
  by (simp_all add: sample_start_def sockets_up_def can_save_def sample_command_def)


section \<open>A setting that locks the program\<close>

definition bad_name :: string where
  "bad_name = ''x'' @ [ch_nl] @ ''listen_port = abc''"

lemma stoi_abc: "stoi ''abc'' = Inl Invalid_argument"
  by (simp add: stoi_def strto_parse_def is_space_def is_digit_def)

lemma bad_name_lines:
  assumes "config_ok c"
  shows "getlines (unlines (config_lines (c\<lparr>displayName := bad_name\<rparr>))) =
    [''[identity]'', config_line ''device_id'' (deviceId c), config_line ''display_name'' ''x'',
     config_line ''listen_port'' ''abc''] @ drop 3 (config_lines c)"
proof -
  have u: "unlines (config_lines (c\<lparr>displayName := bad_name\<rparr>)) =
      unlines ([''[identity]'', config_line ''device_id'' (deviceId c), config_line ''display_name'' ''x'',
        config_line ''listen_port'' ''abc''] @ drop 3 (config_lines c))"
    by (simp add: unlines_def config_lines_def config_line_def bad_name_def)
  have "ch_nl \<notin> set l" if "l \<in> set (drop 3 (config_lines c))" for l
    using that config_lines_one_line [OF assms] by (blast dest: in_set_dropD)
  moreover have "ch_nl \<notin> set (config_line ''device_id'' (deviceId c))"
    using assms by (simp add: config_ok_def config_line_def saveable_one_line)
  ultimately show ?thesis
    unfolding u by (intro getlines_unlines) (auto simp: config_line_def)
qed

lemma bad_name_load:
  assumes "config_ok c"
  shows "load_lines c0 (getlines (unlines (config_lines (c\<lparr>displayName := bad_name\<rparr>)))) = Inl Invalid_argument"
proof -
  have "saveable ''x''" "saveable ''abc''" by (simp_all add: saveable_def trimmed_def is_blank_def)
  moreover have "saveable (deviceId c)" using assms by (simp add: config_ok_def)
  ultimately show ?thesis
    by (simp add: bad_name_lines [OF assms] load_config_line config_set_def set_stoi_def stoi_abc)
qed



section \<open>Listening and connecting\<close>

text \<open>What other threads leave behind while the interface runs is a session in order.\<close>

definition sessions_in_order :: "ui_action list \<Rightarrow> bool" where
  "sessions_in_order as \<longleftrightarrow> list_all (\<lambda>a. case a of Session_becomes s \<Rightarrow> session_inv s | _ \<Rightarrow> True) as"

lemma turn_session_inv: "session_inv (ui_session t) \<Longrightarrow> session_inv (ui_session (fst (ui_turn r n t)))"
  by (auto simp: ui_turn_def handle_line_def ui_return_def case_prod_unfold inv_broadcast split: ui_pc.split list.split)

lemma act_session_inv:
  "session_inv (ui_session t) \<Longrightarrow> sessions_in_order [a] \<Longrightarrow> session_inv (ui_session (fst (ui_act a t)))"
  by (cases a) (simp_all add: turn_session_inv ui_stop_def sessions_in_order_def)

lemma exec_session_inv:
  "session_inv (ui_session t) \<Longrightarrow> sessions_in_order as \<Longrightarrow> session_inv (ui_session (fst (ui_exec as t)))"
proof (induction as arbitrary: t)
  case (Cons a as)
  then have "sessions_in_order [a]" "sessions_in_order as" by (simp_all add: sessions_in_order_def)
  with Cons act_session_inv [of t a] show ?case by (simp add: case_prod_unfold)
qed simp

lemma finish_session_inv: "session_inv (ui_session t) \<Longrightarrow> session_inv (ui_session (ui_finish r n t))"
proof (induction r n t rule: ui_finish.induct)
  case (1 r n t)
  then show ?case using turn_session_inv [of t r n] by (subst ui_finish.simps) simp
qed

lemma end_session_state: "ui_session (end_session e t) = fst (stop_session (ui_session t))"
  by (simp add: end_session_def case_prod_unfold calls_keep_session)

lemma ended_session:
  assumes "session_inv (ui_session t)" and "sessions_in_order (ui_script e)"
  shows "session_inv (ui_session (end_session e (chat e t)))" "connections (ui_session (end_session e (chat e t))) = []"
    "\<not> session_running (ui_session (end_session e (chat e t)))"
proof -
  have "session_inv (ui_session (chat e t))"
    unfolding chat_def using assms by (intro finish_session_inv exec_session_inv)
  then show "session_inv (ui_session (end_session e (chat e t)))" "connections (ui_session (end_session e (chat e t))) = []"
    "\<not> session_running (ui_session (end_session e (chat e t)))"
    using stop_result [of "ui_session (chat e t)"] by (simp_all add: end_session_state)
qed

lemma banner_session [simp]:
  "ui_session (printListenBanner x t) = ui_session t" "ui_session (printBanner n x t) = ui_session t"
  "ui_session (new_terminal os tty c s so kb) = s"
  by (simp_all add: print_defs new_terminal_def)

lemma accept_turn_simps [simp]: "stopping (accept_turn x sv) = stopping sv"
  by (simp add: accept_turn_def accept_returns_def split: accept_pc.split accept_answer.split)

lemma stop_begin_simps [simp]: "stopping (stop_begin sv) = (srv_running sv \<or> stopping sv)" "\<not> srv_running (stop_begin sv)"
  by (simp_all add: stop_begin_def)

lemma server_ended:
  assumes "server_inv sv" and "accounted sv" and "\<not> stopping sv"
  shows "server_inv (end_server x sv) \<and> accounted (end_server x sv) \<and> \<not> stopping (end_server x sv) \<and>
    \<not> srv_running (end_server x sv)"
proof (cases "srv_running sv")
  case True
  let ?b = "accept_turn x (accept_turn x (stop_begin sv))"
  have "server_inv ?b \<and> accounted ?b" by (intro accept_ok [THEN conjunct1] accept_ok [THEN conjunct2] conjI
      stop_begin_ok [THEN conjunct1] stop_begin_ok [THEN conjunct2] assms)
  then have "server_inv (stop_join ?b) \<and> accounted (stop_join ?b)" using True by (intro stop_join_ok) simp_all
  moreover have "end_server x sv = stop_join ?b" using True by (simp add: end_server_def)
  moreover have "srv_running (accept_turn y z) = srv_running z" for y z
    by (simp add: accept_turn_def accept_returns_def split: accept_pc.split accept_answer.split)
  ultimately show ?thesis by (simp add: stop_join_def)
next
  case False
  then show ?thesis using assms stop_begin_ok [OF assms(1,2)] by (simp add: end_server_def stop_begin_def)
qed

lemma accepts_ok:
  "server_inv sv \<Longrightarrow> accounted sv \<Longrightarrow>
   server_inv (fold accept_turn xs sv) \<and> accounted (fold accept_turn xs sv) \<and> stopping (fold accept_turn xs sv) = stopping sv"
  by (induction xs arbitrary: sv) (simp_all add: accept_ok)

lemma started_server_ok:
  "server_inv (fst (start_server a (new_server p cb))) \<and> accounted (fst (start_server a (new_server p cb))) \<and>
   \<not> stopping (fst (start_server a (new_server p cb)))"
proof -
  have "server_inv (new_server p cb)" "accounted (new_server p cb)" "\<not> stopping (new_server p cb)"
    by (simp_all add: server_ok_defs new_server_def)
  from start_ok [OF this] this(3) show ?thesis
    by (auto simp: start_server_def Let_def split: prod.split)
qed

lemma failed_server: "\<not> snd (start_server a (new_server p cb)) \<Longrightarrow> \<not> srv_running (fst (start_server a (new_server p cb)))"
  by (auto simp: start_server_def new_server_def Let_def split: prod.splits if_splits)

lemma announcer_ended:
  assumes "announcer_inv c os an" and "\<not> ann_stopping an"
  shows "\<not> ann_running (end_announce os an) \<and> announce_pc (end_announce os an) = Ann_none \<and>
    broadcasts (end_announce os an) = broadcasts an"
proof (cases "ann_running an")
  case True
  with assms(1) have "announce_pc an \<noteq> Ann_none" "announce_pc an \<noteq> Ann_ended" by (auto simp: announcer_inv_def)
  with True show ?thesis
    by (cases "announce_pc an")
      (simp_all add: end_announce_def stopAnnounce_def announce_turns_def announce_turn_def announce_join_def)
next
  case False
  with assms show ?thesis by (auto simp: end_announce_def stopAnnounce_def announcer_inv_def)
qed

lemma announces_ok:
  "announcer_inv c os an \<Longrightarrow>
   announcer_inv c os (announce_turns os vs an) \<and> ann_stopping (announce_turns os vs an) = ann_stopping an"
proof (induction vs rule: rev_induct)
  case (snoc v vs)
  have "ann_stopping (announce_turn os v b) = ann_stopping b" for b
    by (simp add: announce_turn_def announce_def split: announce_pc.split)
  with snoc show ?case by (simp add: announce_turns_append announce_turn_inv)
qed (simp add: announce_turns_def)


text \<open>The result of \<open>run_listen\<close> by components, when the port could be bound and when not.\<close>

lemma run_listen_bound:
  fixes e args a
  defines "b \<equiv> override_port args a"
  defines "st \<equiv> start_server (listen_env e) (new_server (listenPort (cfg b)) True)"
  assumes "snd st"
  shows "\<exists>x a'. run_listen e args a =
    (a', end_server (accept_last e) (fold accept_turn (accept_script e) (fst st)),
     end_announce (app_os b) (announce_turns (app_os b) (announce_sockets e)
       (if discoveryEnabled (cfg b) then fst (startAnnounce (new_announcer (cfg b))) else new_announcer (cfg b))),
     ui_session (end_session e (chat e (printListenBanner x
       (new_terminal (app_os b) (app_tty b) (cfg b) (wired_session (cfg b)) (out a) (stdin a)))))) \<and>
    cfg a' = cfg b \<and> \<not> g_ui_ptr a' \<and> handlers_set a'"
  using assms(3)
  by (simp add: run_listen_def Let_def b_def st_def del: append.simps) (rule exI, rule refl)

lemma run_listen_unbound:
  fixes e args a
  defines "b \<equiv> override_port args a"
  defines "st \<equiv> start_server (listen_env e) (new_server (listenPort (cfg b)) True)"
  assumes "\<not> snd st"
  shows "\<exists>a'. run_listen e args a = (a', fst st, new_announcer (cfg b), fst (stop_session (wired_session (cfg b)))) \<and>
    g_ui_ptr a' = g_ui_ptr a"
proof -
  have "g_ui_ptr (override_port args a) = g_ui_ptr a" by (simp add: override_port_def split: option.split)
  with assms(3) show ?thesis
    by (simp add: run_listen_def Let_def b_def st_def del: append.simps)
qed

lemma announcer_began:
  fixes c os
  defines "an \<equiv> (if discoveryEnabled c then fst (startAnnounce (new_announcer c)) else new_announcer c)"
  shows "announcer_inv c os an" "\<not> ann_stopping an"
    "\<not> discoveryEnabled c \<Longrightarrow> broadcasts (announce_turns os vs an) = []"
proof -
  have "announce_turns os vs (new_announcer c) = new_announcer c"
    by (induction vs rule: rev_induct)
      (simp_all add: announce_turns_append, simp_all add: announce_turns_def announce_turn_def new_announcer_def)
  then show "announcer_inv c os an" "\<not> ann_stopping an"
    "\<not> discoveryEnabled c \<Longrightarrow> broadcasts (announce_turns os vs an) = []"
    by (simp_all add: an_def announcer_inv_def startAnnounce_def new_announcer_def)
qed

lemma listen_ended:
  assumes "run_listen e args a = (a', sv, an, s)" and "sessions_in_order (ui_script e)" and "\<not> g_ui_ptr a"
  shows "server_inv sv \<and> accounted sv \<and> \<not> srv_running sv \<and> \<not> stopping sv \<and>
    announce_pc an = Ann_none \<and> (discoveryEnabled (cfg a') \<or> broadcasts an = []) \<and>
    session_inv s \<and> connections s = [] \<and> \<not> session_running s \<and> \<not> g_ui_ptr a'"
proof -
  let ?b = "override_port args a"
  let ?st = "start_server (listen_env e) (new_server (listenPort (cfg ?b)) True)"
  note ok = started_server_ok [of "listen_env e" "listenPort (cfg ?b)" True]
  show ?thesis
  proof (cases "snd ?st")
    case True
    note an = announcer_began [of "cfg ?b"]
    note an1 = announces_ok [OF an(1), of "app_os ?b" "announce_sockets e"]
    from run_listen_bound [OF True] assms(1) obtain x where
      sv: "sv = end_server (accept_last e) (fold accept_turn (accept_script e) (fst ?st))" and
      an': "an = end_announce (app_os ?b) (announce_turns (app_os ?b) (announce_sockets e)
        (if discoveryEnabled (cfg ?b) then fst (startAnnounce (new_announcer (cfg ?b))) else new_announcer (cfg ?b)))" and
      s: "s = ui_session (end_session e (chat e (printListenBanner x
        (new_terminal (app_os ?b) (app_tty ?b) (cfg ?b) (wired_session (cfg ?b)) (out a) (stdin a)))))" and
      a': "cfg a' = cfg ?b" "\<not> g_ui_ptr a'"
      by auto
    have 1: "server_inv sv \<and> accounted sv \<and> \<not> srv_running sv \<and> \<not> stopping sv"
      unfolding sv using server_ended accepts_ok ok by simp
    have "\<not> ann_stopping (announce_turns (app_os ?b) (announce_sockets e)
        (if discoveryEnabled (cfg ?b) then fst (startAnnounce (new_announcer (cfg ?b))) else new_announcer (cfg ?b)))"
      using an1 an(2) by blast
    with announcer_ended [OF an1 [THEN conjunct1] this] an(3)
    have 2: "announce_pc an = Ann_none \<and> (discoveryEnabled (cfg a') \<or> broadcasts an = [])"
      unfolding an' a'(1) by metis
    have 3: "session_inv s \<and> connections s = [] \<and> \<not> session_running s"
      unfolding s using ended_session [OF _ assms(2)] inv_wired by simp
    from 1 2 3 a'(2) show ?thesis by blast
  next
    case False
    from run_listen_unbound [OF False] assms(1,3) have
      sv: "sv = fst ?st" and an': "an = new_announcer (cfg ?b)" and s: "s = fst (stop_session (wired_session (cfg ?b)))"
      and a': "\<not> g_ui_ptr a'"
      by auto
    from a' ok failed_server [OF False] stop_result [OF inv_wired, of "cfg ?b"] show ?thesis
      unfolding sv an' s by (simp add: new_announcer_def)
  qed
qed

section \<open>Properties of the commands\<close>

text \<open>\<open>lantalk listen\<close> leaves nothing behind, whether it could bind or not, whatever is
  typed and whatever other threads did: the server is stopped and its thread joined, every
  descriptor of the server is closed or with its callback, the announcing thread is joined and
  announced only if discovery is enabled, the session is stopped without connections and no
  destroyed connection runs, and the signal handler has no interface to call.\<close>

theorem listen_leaves_nothing:
  assumes "run_listen e args a = (a', sv, an, s)" and "sessions_in_order (ui_script e)" and "\<not> g_ui_ptr a"
  shows "\<not> isRunning sv \<and> accept_pc sv = No_thread \<and>
    mset (opened sv) = mset (closed sv) + mset (pending sv) + mset (given sv) \<and>
    announce_pc an = Ann_none \<and> (if discoveryEnabled (cfg a') then True else broadcasts an = []) \<and>
    connections s = [] \<and> \<not> session_running s \<and> list_all (\<lambda>c. \<not> running c) (destroyed s) \<and> \<not> g_ui_ptr a'"
proof -
  note l = listen_ended [OF assms]
  then have "\<not> isValid (listenSocket sv)" "accept_pc sv = No_thread" by (auto simp: server_inv_def)
  with l show ?thesis by (auto simp: isRunning_def accounted_def session_inv_def list_all_iff)
qed

definition sample_app :: "app_config \<Rightarrow> string list \<Rightarrow> app" where
  "sample_app c kb = initial_app (sample_start c kb)\<lparr>cfg := c\<rparr>"

theorem listen_leaves_nothing_witness:
  "case run_listen sample_command no_args (sample_app sample_config [''hello'', ''/quit'']) of (a', sv, an, s) \<Rightarrow>
     accept_pc sv = No_thread \<and> announce_pc an = Ann_none \<and> connections s = []"
proof -
  have "sessions_in_order (ui_script sample_command)" by (simp add: sample_command_def sessions_in_order_def)
  moreover have "\<not> g_ui_ptr (sample_app sample_config [''hello'', ''/quit''])" by (simp add: sample_app_def initial_app_def)
  moreover obtain a' sv an s where
    "run_listen sample_command no_args (sample_app sample_config [''hello'', ''/quit'']) = (a', sv, an, s)"
    by (metis prod_cases4)
  ultimately show ?thesis using listen_leaves_nothing by fastforce
qed

lemma listening_handlers:
  "snd (start_server (listen_env e) (new_server (listenPort (cfg (override_port args a))) True)) \<Longrightarrow>
   handlers_set (fst (run_listen e args a)) \<and> \<not> g_ui_ptr (fst (run_listen e args a))"
  using run_listen_bound [of e args a] by auto

text \<open>After a chat the program no longer ends on a signal: \<open>runListen\<close> installs its
  handler and does not remove it, and once the interface is gone a signal only sets a flag that
  nothing reads; before, a signal has its default action.\<close>

theorem signal_swallowed:
  assumes "snd (start_server (listen_env e) (new_server (listenPort (cfg (override_port args a))) True))"
  shows "receive_signal (fst (run_listen e args a)) = Some (fst (run_listen e args a)\<lparr>g_shutdown := True\<rparr>, []) \<and>
    receive_signal (initial_app st) = None"
  using listening_handlers [OF assms]
  by (simp add: receive_signal_def signalHandler_def) (simp add: initial_app_def)

theorem signal_swallowed_witness:
  "receive_signal (fst (run_listen sample_command no_args (sample_app sample_config []))) =
     Some (fst (run_listen sample_command no_args (sample_app sample_config []))\<lparr>g_shutdown := True\<rparr>, [])"
proof -
  have "snd (start_server (listen_env sample_command) (new_server p True))" for p
    by (simp add: sample_command_def sample_listen_def start_server_def new_server_def move_assign_def close_def
        kInvalidSocket_def Let_def)
  from signal_swallowed [OF this] show ?thesis by blast
qed

text \<open>\<open>lantalk connect\<close> dials only what it was given or what announced itself: a host with a
  dot is dialled as it is, with the given port; any other is dialled only when a device other than
  this one announced that name or id in this scan, at the address the announcement came from and the
  port it named; otherwise nothing is dialled (so \<open>localhost\<close> is never reached).\<close>

theorem connect_target:
  "if CHR ''.'' \<in> set host then resolve_target e c host port = (Some (host, port), [])
   else case fst (resolve_target e c host port) of
       None \<Rightarrow> list_all (\<lambda>p. foundName p \<noteq> host \<and> foundDeviceId p \<noteq> host) (fst (scan_peers e c))
     | Some (ip, q) \<Rightarrow> \<exists>p. p \<in> set (fst (scan_peers e c)) \<and> (foundName p = host \<or> foundDeviceId p = host) \<and>
         foundDeviceId p \<noteq> deviceId c \<and> ip = ipAddress p \<and> q = tcpPort p"
proof (cases "CHR ''.'' \<in> set host")
  case True
  then have "str_find ''.'' host \<noteq> None" by (subst str_find_char) auto
  with True show ?thesis by (simp add: resolve_target_def)
next
  case False
  then have dot: "str_find ''.'' host = None" by (subst str_find_char) auto
  have "scan_inv c (scan_peers e c)"
    using scan_result [of "scan_socket e" "scan_bind e" "scan_polls e" c] by (auto simp: scan_peers_def)
  then have "deviceId c \<notin> foundDeviceId ` set (fst (scan_peers e c))" by (simp add: scan_inv_def ids_def)
  then have other: "p \<in> set (fst (scan_peers e c)) \<Longrightarrow> foundDeviceId p \<noteq> deviceId c" for p
    by (metis imageI)
  show ?thesis
  proof (cases "find (\<lambda>p. foundName p = host \<or> foundDeviceId p = host) (fst (scan_peers e c))")
    case None
    then have "fst (resolve_target e c host port) = None" by (simp add: resolve_target_def Let_def dot)
    with False None show ?thesis by (simp add: find_None_iff list_all_iff)
  next
    case (Some p)
    then have "p \<in> set (fst (scan_peers e c))" "foundName p = host \<or> foundDeviceId p = host"
      by (auto simp: find_Some_iff)
    with False dot Some other show ?thesis by (auto simp: resolve_target_def Let_def)
  qed
qed

section \<open>The device is identified\<close>

lemma ensured_names:
  assumes "config_generateUUID rnd \<noteq> ''''"
  shows "deviceId (ensureDisplayName host (ensureDeviceId rnd c)) \<noteq> '''' \<and>
    displayName (ensureDisplayName host (ensureDeviceId rnd c)) \<noteq> ''''"
  using assms by (auto simp: ensureDisplayName_def ensureDeviceId_def Let_def)

lemma uuid_nonempty: "config_generateUUID rnd \<noteq> ''''"
proof (cases rnd)
  case (Some b)
  then show ?thesis by (simp add: config_generateUUID_def Let_def upt_16)
qed (simp add: config_generateUUID_def)



end
