(* ===== verification/Command_Runs.thy ===== *)
theory Command_Runs imports Connecting_Device App_Main begin

text \<open>
  The devices of \<open>Listening_Device\<close> and \<open>Connecting_Device\<close>, where every thread has its turns,
  against the commands of \<open>App_Commands\<close>, where what the other threads do is a script: every schedule of a
  device until its main thread stops the session is a run of the command under some script, with the same
  output, input and session. So what holds of the command under every script holds of the devices.
\<close>

section \<open>Schedules as scripts\<close>

lemma exec_append_fst: "fst (ui_exec (as @ bs) t) = fst (ui_exec bs (fst (ui_exec as t)))"
  by (simp add: exec_append case_prod_unfold)

lemma exec_turn [simp]: "fst (ui_exec [Turn rnd now] t) = fst (ui_turn rnd now t)"
  by (simp add: case_prod_unfold)

text \<open>What a move of the session shows, as a script.\<close>

definition shows_script :: "(i64 \<Rightarrow> nat \<times> nat \<times> nat) \<Rightarrow> session \<times> event list \<Rightarrow> ui_action list" where
  "shows_script clock r = Session_becomes (fst r) # map (ui_call_of clock) (snd r)"

lemma exec_shows: "fst (ui_exec (shows_script clock r) t) = session_shows True clock r t"
  by (cases r) (simp add: shows_script_def session_shows_def Let_def case_prod_unfold)

lemma shows_unbuilt: "session_shows False clock r t = t\<lparr>ui_session := fst r\<rparr>"
  by (cases r) (simp add: session_shows_def)

lemma shows_pc [simp]: "ui_pc (session_shows built clock r t) = ui_pc t" "keyboard (session_shows built clock r t) = keyboard t"
  using touched_shows [of t built clock r] by (simp_all add: touched_def)

lemma stop_pc [simp]: "ui_pc (ui_stop t) = ui_pc t"
  by (simp add: ui_stop_def)

text \<open>A terminal that a script reaches from another.\<close>

definition scripted :: "terminal \<Rightarrow> terminal \<Rightarrow> bool" where
  "scripted t0 t \<longleftrightarrow> (\<exists>as. t = fst (ui_exec as t0))"

lemma scripted_refl [simp]: "scripted t t"
  by (auto simp: scripted_def intro: exI [of _ "[]"])

lemma scripted_more: "scripted t0 t \<Longrightarrow> scripted t0 (fst (ui_exec as t))"
  by (auto simp: scripted_def exec_append_fst [symmetric])

lemma scripted_turn: "scripted t0 t \<Longrightarrow> scripted t0 (fst (ui_turn rnd now t))"
  using scripted_more [of t0 t "[Turn rnd now]"] by simp

lemma scripted_shows: "scripted t0 t \<Longrightarrow> scripted t0 (session_shows True clock r t)"
  using scripted_more [of t0 t "shows_script clock r"] by (simp only: exec_shows)

lemma scripted_stop: "scripted t0 t \<Longrightarrow> scripted t0 (ui_stop t)"
  using scripted_more [of t0 t "[Call_stop]"] by simp

lemma scripted_info: "scripted t0 t \<Longrightarrow> scripted t0 (printInfo l t)"
  using scripted_more [of t0 t "[Call_info l]"] by simp

lemma scripted_session: "scripted t (t\<lparr>ui_session := s\<rparr>)"
  using scripted_more [of t t "[Session_becomes s]"] by simp

lemma banner_later: "printListenBanner a (t\<lparr>ui_session := s\<rparr>) = (printListenBanner a t)\<lparr>ui_session := s\<rparr>"
  "printBanner n a (t\<lparr>ui_session := s\<rparr>) = (printBanner n a t)\<lparr>ui_session := s\<rparr>"
  by (simp_all add: print_defs put_def supportsAnsi_def)

text \<open>What is left when the interface has returned is the script.\<close>

lemma chat_scripted:
  assumes "scripted t0 t" and "ui_pc t = Ui_done"
  shows "\<exists>as. chat (e\<lparr>ui_script := as\<rparr>) t0 = t"
proof -
  from assms(1) obtain as where "t = fst (ui_exec as t0)" by (auto simp: scripted_def)
  moreover from this have "ui_finish (ui_random e) (ui_time e) (fst (ui_exec as t0)) = fst (ui_exec as t0)"
    using assms(2) by (subst ui_finish.simps) simp
  ultimately show ?thesis by (intro exI [of _ as]) (simp add: chat_def)
qed

lemma end_session_shows: "end_session e t = session_shows True (local_clock e) (stop_session (ui_session t)) t"
  by (simp add: end_session_def session_shows_def Let_def split: prod.split)

section \<open>A listening device\<close>

abbreviation listen_terminal :: "app_config \<Rightarrow> build_os \<Rightarrow> bool \<Rightarrow> console_item list \<Rightarrow> string list \<Rightarrow> terminal" where
  "listen_terminal c os tty scr kb \<equiv> new_terminal os tty c (wired_session c) scr kb"

abbreviation listen_banner :: "app_config \<Rightarrow> terminal \<Rightarrow> terminal" where
  "listen_banner c \<equiv> printListenBanner (''0.0.0.0:'' @ port_text (listenPort c))"

definition follows_listen :: "app_config \<Rightarrow> (i64 \<Rightarrow> nat \<times> nat \<times> nat) \<Rightarrow> terminal \<Rightarrow> device \<Rightarrow> bool" where
  "follows_listen c clock t0 d \<longleftrightarrow> dv_config d = c \<and> dv_clock d = clock \<and>
     (case dv_main d of
        Main_announces \<Rightarrow> \<not> dv_built d \<and> (\<exists>s. dv_terminal d = t0\<lparr>ui_session := s\<rparr>)
      | Main_builds \<Rightarrow> \<not> dv_built d \<and> (\<exists>s. dv_terminal d = t0\<lparr>ui_session := s\<rparr>)
      | Main_returned \<Rightarrow> True
      | m \<Rightarrow> dv_built d \<and> scripted (listen_banner c t0) (dv_terminal d) \<and> (m = Main_chats \<or> ui_pc (dv_terminal d) = Ui_done))"

lemma session_moves_clock [simp]: "dv_clock (session_moves r d) = dv_clock d"
  "dv_terminal (session_moves r d) = session_shows (dv_built d) (dv_clock d) r (dv_terminal d)"
  by (simp_all add: session_moves_def)

lemma follows_moves: "follows_listen c clock t0 d \<Longrightarrow> follows_listen c clock t0 (session_moves r d)"
  by (cases "dv_main d") (auto simp: follows_listen_def shows_unbuilt intro: scripted_shows)

lemma follows_fields [simp]:
  "follows_listen c clock t0 (d\<lparr>dv_server := sv\<rparr>) = follows_listen c clock t0 d"
  "follows_listen c clock t0 (d\<lparr>dv_announcer := an\<rparr>) = follows_listen c clock t0 d"
  by (simp_all add: follows_listen_def split: main_pc.split)

lemma follows_main:
  assumes "follows_listen c clock t0 d"
  shows "follows_listen c clock t0 (main_turn rnd now d)"
proof (cases "dv_main d")
  case Main_builds
  with assms obtain s where "dv_terminal d = t0\<lparr>ui_session := s\<rparr>" "dv_config d = c" by (auto simp: follows_listen_def)
  then show ?thesis using Main_builds assms scripted_session by (simp add: follows_listen_def main_turn_def banner_later)
next
  case Main_chats
  then show ?thesis using assms scripted_turn by (auto simp: follows_listen_def main_turn_def case_prod_unfold)
qed (use assms in \<open>auto simp: follows_listen_def main_turn_def\<close>)

lemma follows_act: "follows_listen c clock t0 d \<Longrightarrow> follows_listen c clock t0 (device_act a d)"
proof (cases a)
  case (Callback_turn i ks rnd ts now)
  assume "follows_listen c clock t0 d"
  then show ?thesis using Callback_turn follows_moves by (simp add: callback_turn_def)
next
  case Signal_arrives
  assume "follows_listen c clock t0 d"
  then show ?thesis using Signal_arrives scripted_stop by (auto simp: signal_turn_def follows_listen_def)
qed (simp_all add: follows_main follows_moves)

lemma follows_schedule: "follows_listen c clock (listen_terminal c os tty scr kb) (fold device_act as (listening c clock os tty scr la kb))"
proof (induction as rule: rev_induct)
  case Nil
  have "new_terminal os tty c (wired_session c) scr kb =
      (new_terminal os tty c (wired_session c) scr kb)\<lparr>ui_session := wired_session c\<rparr>"
    by (simp add: new_terminal_def)
  then show ?case by (auto simp: follows_listen_def listening_def intro: exI [of _ "wired_session c"])
qed (simp add: follows_act)

section \<open>A connecting device\<close>

definition follows_call :: "(i64 \<Rightarrow> nat \<times> nat \<times> nat) \<Rightarrow> string \<times> string \<Rightarrow> terminal \<Rightarrow> caller \<Rightarrow> bool" where
  "follows_call clock addr t0 d \<longleftrightarrow> cl_clock d = clock \<and> cl_address d = addr \<and>
     (case cl_main d of
        Main_builds \<Rightarrow> \<not> cl_built d \<and> (\<exists>s. cl_terminal d = t0\<lparr>ui_session := s\<rparr>)
      | Main_chats \<Rightarrow> cl_built d \<and> scripted (printBanner (fst addr) (snd addr) t0) (cl_terminal d)
      | Main_stops_session \<Rightarrow>
          cl_built d \<and> scripted (printBanner (fst addr) (snd addr) t0) (cl_terminal d) \<and> ui_pc (cl_terminal d) = Ui_done
      | _ \<Rightarrow> True)"

lemma follows_call_shows:
  assumes "follows_call clock addr t0 d"
  shows "follows_call clock addr t0 (d\<lparr>cl_terminal := session_shows (cl_built d) (cl_clock d) r (cl_terminal d)\<rparr>)"
  using assms by (cases "cl_main d") (auto simp: follows_call_def shows_unbuilt intro: scripted_shows)

lemma follows_call_receiver:
  assumes "follows_call clock addr t0 d"
  shows "follows_call clock addr t0 (caller_receiver cid a now d)"
proof -
  let ?t = "session_shows (cl_built d) (cl_clock d) (receiver_turn main_route cid a now (cl_session d)) (cl_terminal d)"
  have "follows_call clock addr t0 (d\<lparr>cl_terminal := ?t\<rparr>)" using assms by (rule follows_call_shows)
  then show ?thesis
    by (cases "cl_main d")
      (auto simp: follows_call_def caller_receiver_def Let_def ui_stop_def [symmetric] intro!: scripted_stop scripted_info
        split: option.split)
qed

lemma follows_call_main:
  assumes "follows_call clock addr t0 d"
  shows "follows_call clock addr t0 (caller_main rnd now d)"
proof (cases "cl_main d")
  case Main_builds
  with assms obtain s where "cl_terminal d = t0\<lparr>ui_session := s\<rparr>" "cl_address d = addr" by (auto simp: follows_call_def)
  then show ?thesis using Main_builds assms scripted_session by (simp add: follows_call_def caller_main_def banner_later)
next
  case Main_chats
  then show ?thesis using assms scripted_turn by (auto simp: follows_call_def caller_main_def)
qed (use assms in \<open>auto simp: follows_call_def caller_main_def\<close>)

lemma follows_call_act: "follows_call clock addr t0 d \<Longrightarrow> follows_call clock addr t0 (caller_act a d)"
proof (cases a)
  case Caller_signal
  assume "follows_call clock addr t0 d"
  then show ?thesis using Caller_signal scripted_stop by (auto simp: follows_call_def)
qed (simp_all add: follows_call_main follows_call_receiver follows_call_shows)

lemma follows_call_schedule:
  "follows_call clock addr (new_terminal os tty c s scr kb) (fold caller_act as (calling c clock os tty scr addr s kb))"
proof (induction as rule: rev_induct)
  case Nil
  have "new_terminal os tty c s scr kb = (new_terminal os tty c s scr kb)\<lparr>ui_session := s\<rparr>" by (simp add: new_terminal_def)
  then show ?case by (auto simp: follows_call_def calling_def intro: exI [of _ s])
qed (simp add: follows_call_act)

text \<open>A main thread that has returned was about to stop the session before.\<close>

lemma main_turn_returned:
  "dv_main (main_turn rnd now d) = Main_returned \<Longrightarrow> dv_main d \<noteq> Main_returned \<Longrightarrow> dv_main d = Main_stops_session"
  by (cases "dv_main d") (auto simp: main_turn_def case_prod_unfold split: if_splits)

lemma returned_stopped:
  assumes "dv_main (fold device_act as d) = Main_returned" and "dv_main d \<noteq> Main_returned"
  shows "\<exists>bs. dv_main (fold device_act bs d) = Main_stops_session"
  using assms(1)
proof (induction as rule: rev_induct)
  case (snoc a as)
  let ?d = "fold device_act as d"
  show ?case
  proof (cases "dv_main ?d = Main_returned")
    case False
    have "dv_main (device_act a ?d) = dv_main ?d \<or> (\<exists>rnd now. a = Main_turn rnd now)"
      by (cases a) (simp_all add: callback_turn_def signal_turn_def)
    with snoc.prems False have "dv_main ?d = Main_stops_session" using main_turn_returned [of _ _ ?d] by auto
    then show ?thesis by blast
  qed (use snoc.IH in blast)
qed (use assms(2) in simp)

lemma caller_returned_stopped:
  assumes "cl_main (fold caller_act as d) = Main_returned" and "cl_main d \<noteq> Main_returned"
  shows "\<exists>bs. cl_main (fold caller_act bs d) = Main_stops_session"
  using assms(1)
proof (induction as rule: rev_induct)
  case (snoc a as)
  let ?d = "fold caller_act as d"
  show ?case
  proof (cases "cl_main ?d = Main_returned")
    case False
    have "cl_main (caller_act a ?d) \<noteq> Main_returned" if "cl_main ?d \<noteq> Main_stops_session"
      by (rule caller_own_cases [of a])
        (use that False caller_act_other(1) [of a ?d] in \<open>auto simp: caller_main_def split: main_pc.split\<close>)
    with snoc.prems show ?thesis by auto
  qed (use snoc.IH in blast)
qed (use assms(2) in simp)

section \<open>Properties\<close>



abbreviation quiet_app :: app where
  "quiet_app \<equiv> sample_app talk_config []"

lemma quiet_facts:
  "cfg (override_port no_args quiet_app) = talk_config" "stdin quiet_app = []" "out quiet_app = []" "cfg quiet_app = talk_config"
  "listen_env sample_command = sample_listen" "getFlagAsPort no_args p = None"
  by (simp_all add: override_port_def sample_app_def initial_app_def sample_start_def sample_command_def getFlagAsPort_def
      getFlag_def no_args_def)


text \<open>A call to an address.\<close>

definition call_args :: parsed_args where
  "call_args = no_args\<lparr>positional := [''10.0.0.7'']\<rparr>"

lemma call_resolves:
  "positional call_args = [''10.0.0.7'']" "getFlagAsPort call_args p = None"
  "resolve_target sample_command c ''10.0.0.7'' port = (Some (''10.0.0.7'', port), [])"
proof -
  have "str_find ''.'' ''10.0.0.7'' \<noteq> None" by code_simp
  then show "resolve_target sample_command c ''10.0.0.7'' port = (Some (''10.0.0.7'', port), [])"
    by (simp add: resolve_target_def)
qed (simp_all add: call_args_def no_args_def getFlagAsPort_def getFlag_def)

lemma call_connects:
  "fst (tcp_connect (nonblock_bit sample_command) (connect_env sample_command) h p t) = Inr (new_socket 5, 2)"
  using connect_outcome [of "sample_connect Connects 1" 2048 h p t]
  by (simp add: connects_def sample_connect_def kInvalidSocket_def sample_command_def)

definition sample_dial :: caller where
  "sample_dial = calling (cfg quiet_app) (local_clock sample_command) (app_os quiet_app) (app_tty quiet_app)
     (out quiet_app @ [Stdout (unlines [''Connecting to '' @ ''10.0.0.7'' @ '':'' @ port_text (listenPort (cfg quiet_app)) @ ''...''])] @ [])
     (''10.0.0.7'', ''10.0.0.7'' @ '':'' @ port_text (listenPort (cfg quiet_app)))
     (called (cfg quiet_app) (conn_kernel sample_command) (conn_random sample_command) (conn_stamp sample_command)
        (conn_time sample_command) (new_socket 5)) (stdin quiet_app)"

lemma sample_dial_returns: "cl_main (fold caller_act (replicate 6 (Caller_main None 0)) sample_dial) = Main_returned"
  unfolding sample_dial_def by (rule connecting_returns) (simp add: quiet_facts)


end
