(* ===== verification/Spec2Isabelle.thy ===== *)
theory Spec2Isabelle
  imports Message_Queue Authentication Connection_Threads Handshake Adding_Connection Tls_Credentials Command_Runs
begin

text \<open>
  LanTalk, a peer-to-peer chat for the local network (C++, \<open>src/src\<close>).

  \<^bold>\<open>The program.\<close> \<open>main.cpp\<close> parses the command line (\<open>cli/command_parser.cpp\<close>),
  loads the configuration (\<open>config/config.cpp\<close>) and runs a command. \<open>listen\<close> and
  \<open>connect\<close> make sockets (\<open>network/tcp_socket.cpp\<close>) into connections
  (\<open>network/connection.cpp\<close>), each with a thread that feeds what it receives to a frame reader
  (\<open>network/protocol.cpp\<close>) and hands the frames to the chat session
  (\<open>chat/chat_session.cpp\<close>). The session keeps the tables of connections and peers, greets,
  authenticates, pings, and exchanges chat messages (\<open>chat/message.cpp\<close>). \<open>scan\<close> finds
  other devices by UDP announcements (\<open>discovery/lan_discovery.cpp\<close>). The sockets come from
  a server and a client (\<open>network/tcp_server.cpp\<close>, \<open>network/tcp_client.cpp\<close>); while a chat runs
  the user types into a terminal interface (\<open>cli/terminal_ui.cpp\<close>). Beside these there are a
  logger, a bounded message queue, a challenge-response authenticator and OpenSSL wrappers.

  \<^bold>\<open>Theories.\<close> \<open>Lantalk_Prelude\<close>: integer types, bytes, number printing and
  parsing of the C++ library, string search, checked reads; the locale \<open>ending_thread\<close> of
  the threads that end, whatever the others do, after some turns of their own. \<open>Std_Map\<close>: \<open>std::map\<close> as a
  sorted association list behind the locale \<open>ordered_map\<close>. \<open>Protocol\<close>: message types,
  headers, frames; the locale \<open>wire_codec\<close>. \<open>Frame_Reader\<close>: the incremental reader, its
  specification \<open>parse_stream\<close>, the locale \<open>chunked_reader\<close>. \<open>Identifiers\<close>: hex,
  UUIDs, connection ids. \<open>Json_Text\<close>: the three hand-written JSON scanners; the locale
  \<open>escaper\<close>. \<open>Message\<close>: chat messages. \<open>Message_Queue\<close>: the queue; the locale
  \<open>bounded_fifo\<close>. \<open>Config\<close>: configuration and INI file. \<open>Command_Parser\<close>: the
  command line. \<open>Discovery\<close>: announcement packets and scan. \<open>Logger\<close>: levels and output.
  \<open>Tcp_Socket\<close>: handles, \<open>sendAll\<close>, \<open>recv\<close>. \<open>Connection\<close>: sending,
  disconnecting and the receiving thread; the locale \<open>connection_client\<close> is what the session
  needs of it. \<open>Connection_Threads\<close>: any number of threads inside \<open>send\<close> and \<open>disconnect\<close>
  of one connection. \<open>Authentication\<close>: the authenticator and the base64 wrappers. \<open>Chat_Session\<close>: the session's
  operations and the invariant of its tables. \<open>Session_Steps\<close>: the transition system of the
  session's threads, its runs, and what the wiring of the callbacks in \<open>main.cpp\<close> makes of them.
  \<open>Handshake\<close>: two sessions that greet and authenticate each other.
  \<open>Session_Locks\<close>: the same session cut where a thread waits for \<open>connMutex_\<close> or a join, with a
  receiving thread for each connection and any number of threads that add one.
  \<open>Adding_Connection\<close>: \<open>addConnection\<close> cut between its two sections under the lock, with shared
  ownership of the connection.
  \<open>Socket_Options\<close>: blocking mode, options and addresses of a socket. \<open>Tcp_Endpoints\<close>:
  the server with its accept thread, and connecting. \<open>Announcer\<close>: the announcing thread.
  \<open>Terminal_UI\<close>: printing, commands and the input loop. \<open>Tls_Credentials\<close>: the certificate
  files. \<open>App_Commands\<close>: the commands of \<open>main.cpp\<close> on the state of the process.
  \<open>App_Main\<close>: \<open>main\<close>, its dispatch and the menu, and the properties of whole runs of the
  program. \<open>Listening_Device\<close>: \<open>runListen\<close> with all its threads at once, and its descriptors;
  \<open>Listening_Talk\<close>: what such a device says and whom it hears; \<open>Connecting_Device\<close>: \<open>runConnect\<close>
  with all its threads; \<open>Command_Runs\<close>: their schedules as runs of the commands of \<open>App_Commands\<close>. This theory: properties of two devices.

  \<^bold>\<open>Correspondence.\<close> Records have the fields of the classes, datatypes the enumerators
  or the exceptions, and every method is one definition with the method's name where Isabelle allows
  it. Locks are not data: an operation that holds \<open>connMutex_\<close> is one transition, a loop that
  releases it is cut there (\<open>ping_sweep\<close>, \<open>ping_reap\<close>; \<open>recv_enter\<close>,
  \<open>recv_return\<close>, \<open>next_frame\<close>, \<open>rate_check\<close>). Callbacks are events in the result.
  What the system answers is an argument or a script: the answers of \<open>::send\<close> (after the
  script every send fails), of \<open>::recv\<close> and \<open>recvfrom\<close>, of \<open>accept\<close>, \<open>connect\<close> and
  \<open>select\<close>, random bytes, clock values, file contents, the host name, the lines typed. A thread is
  a position in its function and one definition that takes a turn (\<open>ui_turn\<close>,
  \<open>accept_turn\<close>, \<open>announce_turn\<close>); a schedule interleaves turns with what other threads do. A
  command of \<open>main.cpp\<close> is a function of the process and of a \<open>command_env\<close>, which holds its
  schedule and the answers it meets. The whole devices (\<open>device\<close>, \<open>caller\<close>) put the states of their
  parts side by side; an action is one turn of one thread (\<open>device_act\<close>, \<open>caller_act\<close>), a schedule a
  list of actions, and every turn moves the session as a transition of \<open>Session_Steps\<close> or not at all, so
  that what holds in all runs of the session holds in all schedules. Where the session calls back,
  \<open>session_shows\<close> prints, once there is an interface. OpenSSL's HMAC, digest and BIO calls are function
  parameters.

  \<^bold>\<open>What is shown.\<close> Encodings round-trip and their decoders accept exactly what they
  should (headers, frames, messages, configuration, command line, announcements); the frame reader
  refines a parser of the whole stream under every cut of it and has bounded memory; sending writes
  all or a prefix, and sends of many threads never mix; a connection delivers in order what the threads of
  another one sent; the queue loses, duplicates and reorders nothing; the announcement parser never reads
  out of bounds; the session's tables stay consistent in all runs and no message is shown for a peer that no
  frame admitted; in a handshake the key decides; the input loop sends exactly the lines typed. A whole
  device, in every schedule of its threads: no descriptor has two owners, \<open>listen\<close> and \<open>connect\<close>
  return after a bounded number of turns and leave no thread or connection behind, a lost connection ends
  the chat, and every schedule is a run of the command under some script, with the same output. The program returns on every command line and input, and a setting made by one run is what
  the next run reads. Where the program goes wrong the theorem says how: under the wiring of
  \<open>main.cpp\<close> no line typed is ever sent and one peer that leaves silences all others, stopping a
  session or losing a connection can deadlock, a connection that reports its end
  under its own id never leaves the table, a ping round can drop a connection that is being added, two
  threads that disconnect close a descriptor twice, the authentication answers give the key away, a value with a newline locks the configuration.

  \<^bold>\<open>Bounds.\<close> No definition runs on fuel: the loops of the program terminate, by the
  measure of a buffer (frame reader), of the lines still to be typed (\<open>ui_finish\<close>), or structurally on
  their input or script. A device returns after as many rounds as \<open>device_left\<close> and \<open>caller_left\<close>
  count: four for each line, and one for each step of the shutdown. The menu is a \<open>partial_function\<close>, whose value \<open>None\<close> is running for ever;
  \<open>main_returns\<close> shows that it is never reached.

  \<^bold>\<open>Not modelled.\<close> How long anything waits: timeouts are answers of the system, a
  thread that waits gets no turn; a \<open>sendAll\<close> that spins for ever on \<open>EAGAIN\<close>; an \<open>::accept\<close> or
  \<open>::recv\<close> that the closing of its socket by another thread does not wake. In the models of whole devices a handler and \<open>stop\<close> are one turn, so that they do not
  deadlock. Accesses to a socket's handle, which is not atomic, are sequentially consistent, and the number
  of a closed descriptor is not given out again. A signal before the handlers are installed ends the
  process. The log lines of the components (only those of
  \<open>main.cpp\<close> and \<open>Config::print\<close> are modelled), the branches for Winsock, the console mode of
  Windows, and what OpenSSL computes.
\<close>

section \<open>From one device to another\<close>

text \<open>Bytes written by one connection and read by the other.\<close>

lemma frames_delivered:
  assumes "frames_fit m fs" and "receiving r" and "reader_of r = new_reader m" and "frameCount r = 0"
    and "length fs \<le> 100" and "concat ds = concat (map serialize_frame fs)"
    and "\<And>d. d \<in> set ds \<Longrightarrow> d \<noteq> [] \<and> length d \<le> recv_buffer_size" and "length nows = length ds"
  shows "\<exists>r'. recv_rounds r (zip (map Received ds) nows) = (r', fs) \<and> receiving r'"
proof -
  have "parse_stream m [] = ([], None, [])" by (subst parse_stream.simps) (simp add: kFrameHeaderSize_def)
  with reader_delivers [OF assms(1), of "[]" ds] assms(6)
  obtain r1 where "feed_chunks feed (new_reader m) ds = (r1, fs, None)" by auto
  then have "\<exists>c'. recv_rounds r (zip (map Received ds) nows) = (c', fs) \<and> receiving c' \<and> reader_of c' = r1"
    using assms by (intro recv_rounds_pass [OF few_pass]) auto
  then show ?thesis by blast
qed

text \<open>What one connection sends another receives: the frames of successful sends, however
  the network cuts their bytes into pieces, are handed over by the receiving thread, complete and
  in order, for up to a hundred frames within the payload limit.\<close>

theorem frames_over_the_wire:
  assumes "sends conn_send c fs = (c', True)" and "frames_fit m fs" and "length fs \<le> 100"
    and "sent c' = sent c @ concat ds" and "\<And>d. d \<in> set ds \<Longrightarrow> d \<noteq> [] \<and> length d \<le> recv_buffer_size"
    and "receiving r" and "reader_of r = new_reader m" and "frameCount r = 0" and "length nows = length ds"
  shows "\<exists>r'. recv_rounds r (zip (map Received ds) nows) = (r', fs) \<and> receiving r'"
proof -
  from cc.sends_out [OF assms(1)] assms(4) have "concat ds = concat (map serialize_frame fs)" by simp
  with assms show ?thesis by (intro frames_delivered [of m]) auto
qed

theorem frames_over_the_wire_witness:
  "\<exists>r'. recv_rounds started (zip (map Received [take 3 (serialize_frame ping_frame), drop 3 (serialize_frame ping_frame)]) [1, 2]) =
    (r', [ping_frame]) \<and> receiving r'"
proof -
  obtain c' where c': "conn_send started ping_frame = (c', True)"
    using started_sends [of ping_frame] by (auto simp: ping_frame_eval)
  then have s: "sends conn_send started [ping_frame] = (c', True)" by simp
  show ?thesis
  proof (rule frames_over_the_wire [OF s])
    show "sent c' = sent started @ concat [take 3 (serialize_frame ping_frame), drop 3 (serialize_frame ping_frame)]"
      using conn_send_out [OF c'] by auto
  qed (auto simp: started_facts frames_fit_def ping_frame_eval kMaxPayloadSize_def recv_buffer_size_def)
qed

text \<open>C3. Many threads, one stream: however the threads of a device interleave their sends over one
  connection, and however the network cuts the bytes into pieces, the receiving thread of the other
  device hands over the frames of the successful sends whole, in the order in which they got
  \<open>sendMutex_\<close>, as long as no send failed and there are a hundred at most, within the payload limit.\<close>

theorem concurrent_sends_received:
  assumes "fold conn_act as (all_free c) = s" and "sendMutex s = None" and "list_all its_result (written s)"
    and "frames_fit m (map its_frame (written s))" and "length (written s) \<le> 100"
    and "sent (shared s) = sent c @ concat ds" and "\<And>d. d \<in> set ds \<Longrightarrow> d \<noteq> [] \<and> length d \<le> recv_buffer_size"
    and "receiving r" and "reader_of r = new_reader m" and "frameCount r = 0" and "length nows = length ds"
  shows "\<exists>r'. recv_rounds r (zip (map Received ds) nows) = (r', map its_frame (written s)) \<and> receiving r'"
proof -
  have "threads_inv (sent c) s" using inv_schedule assms(1) by blast
  with assms(2,3,6) have "concat ds = concat (map its_bytes (written s))" "map its_bytes (written s) = map serialize_frame (map its_frame (written s))"
    by (auto simp: threads_inv_def on_its_way_def exact_def list_all_iff)
  with assms show ?thesis by (intro frames_delivered [of m]) auto
qed

text \<open>A ping overtaken by a disconnect, received in two pieces.\<close>

theorem concurrent_sends_received_witness:
  "\<exists>r'. recv_rounds started (zip (map Received
      [serialize_frame (create_frame_str message_type.DISCONNECT ''bye''), serialize_frame ping_frame]) [1, 2]) =
    (r', [create_frame_str message_type.DISCONNECT ''bye'', ping_frame]) \<and> receiving r'"
proof -
  let ?d = "create_frame_str message_type.DISCONNECT ''bye''"
  let ?s = "fold conn_act (overtaken ping_frame ''bye'') (all_free started)"
  have u: "usable started" using started_facts by (simp add: usable_def receiving_def)
  obtain k where k: "socket started = Some k" using started_facts(2) by (auto simp: receiving_def)
  have w: "sendMutex ?s = None" "list_all its_result (written ?s)" "map its_frame (written ?s) = [?d, ping_frame]"
    "sent (shared ?s) = sent started @ concat [serialize_frame ?d, serialize_frame ping_frame]"
    unfolding overtaken_run [OF u] by (simp_all add: k Let_def sent_def writes_def)
  have l: "length (written ?s) \<le> 100" using arg_cong [OF w(3), of length] by simp
  have f: "frames_fit kMaxPayloadSize (map its_frame (written ?s))"
    unfolding w(3) by (simp add: frames_fit_def ping_frame_def create_frame_str_def create_frame_ok kMaxPayloadSize_def)
  have p: "d \<noteq> [] \<and> length d \<le> recv_buffer_size" if "d \<in> set [serialize_frame ?d, serialize_frame ping_frame]" for d
    using that by (auto simp: create_frame_str_def create_frame_def ping_frame_def recv_buffer_size_def kFrameHeaderSize_def)
  from concurrent_sends_received [OF refl w(1,2) f l w(4) p started_facts(2,6,4), of "[1, 2]"] w(3)
  show ?thesis by simp
qed

lemma broadcast_received:
  assumes "session_inv a" and "is_authenticated a k" and "sm_lookup (connections a) k = Some c"
    and "snd (conn_send_str c CHAT_MESSAGE (toJson (own_message rnd t txt a)))"
    and "message_ok (own_message rnd t txt a)" and "length (toJson (own_message rnd t txt a)) \<le> kMaxPayloadSize"
    and "sm_lookup (connections (broadcast rnd t txt a)) k = Some c'" and "sent c' = sent c @ concat ds"
    and "\<And>d. d \<in> set ds \<Longrightarrow> d \<noteq> [] \<and> length d \<le> recv_buffer_size"
    and "receiving r" and "reader_of r = new_reader kMaxPayloadSize" and "frameCount r = 0" and "length nows = length ds"
    and "is_authenticated b j" and "has_messageCallback b"
  shows "\<exists>r' f. recv_rounds r (zip (map Received ds) nows) = (r', [f]) \<and>
    snd (onFrame j f b) = [Message_event (own_message rnd t txt a) (displayName (config a))]"
proof -
  let ?m = "own_message rnd t txt a" and ?f = "create_frame_str CHAT_MESSAGE (toJson (own_message rnd t txt a))"
  from assms(2,3,7) have c': "c' = fst (conn_send c ?f)" by (simp add: broadcast_connections conn_send_str_def)
  moreover have "snd (conn_send c ?f)" using assms(4) by (simp add: conn_send_str_def)
  ultimately have "conn_send c ?f = (c', True)" by (metis prod.collapse)
  then have s: "sends conn_send c [?f] = (c', True)" by simp
  have "frames_fit kMaxPayloadSize [?f]"
    using assms(6) by (simp add: frames_fit_def create_frame_str_def create_frame_ok kMaxPayloadSize_def)
  with cc.sends_out [OF s] assms(8-13) have "\<exists>r'. recv_rounds r (zip (map Received ds) nows) = (r', [?f]) \<and> receiving r'"
    by (intro frames_delivered [of kMaxPayloadSize]) auto
  moreover have "snd (onFrame j ?f b) = [Message_event ?m (displayName (config a))]"
    using assms(5,14,15) fromJson_toJson [of ?m]
    by (simp add: onFrame_def handleChatMessage_def) (simp add: own_message_def)
  ultimately show ?thesis by blast
qed


definition met_session :: session where
  "met_session = lone_session\<lparr>peers := [(''c1'', default_peer\<lparr>piDeviceId := ''d1'', piState := AUTHENTICATED\<rparr>)]\<rparr>"

definition greeting :: chat_message where
  "greeting = own_message (Some (replicate 16 0)) 0 ''hi'' met_session"

lemma met_facts: "session_inv met_session" "is_authenticated met_session ''c1''" "has_messageCallback met_session"
  "sm_lookup (connections met_session) ''c1'' = Some started" "config met_session = sample_config"
  "displayName (config met_session) = ''Ann B''"
  using lone_authenticated lone_facts
  by (simp_all add: met_session_def is_authenticated_def sample_config_def default_config_def)

lemma greeting_eval:
  "greeting = \<lparr>msgId = ''00000000-0000-4000-8000-000000000000'', senderId = ''dev-1'', senderName = ''Ann B'',
    timestampUtc = 0, msgText = ''hi''\<rparr>"
proof -
  have "generateId (Some (replicate 16 0)) = ''00000000-0000-4000-8000-000000000000''" by code_simp
  then show ?thesis by (simp add: greeting_def own_message_def met_facts sample_config_def default_config_def)
qed

lemma greeting_short: "length (toJson greeting) \<le> 150"
  by (simp add: greeting_eval toJson_def escapeJson_def escape_char_def str_pat_def int_pat_def int_to_string_def nat_to_string.simps)

text \<open>The greeting on the wire: what a broadcast of it leaves on the connection.\<close>

definition greeting_bytes :: bytes where
  "greeting_bytes = serialize_frame (create_frame_str CHAT_MESSAGE (toJson greeting))"

lemma greeting_length: "length greeting_bytes \<le> 200"
  using greeting_short by (simp add: greeting_bytes_def create_frame_str_def create_frame_def kFrameHeaderSize_def)

lemma greeting_pieces: "d \<in> set [greeting_bytes] \<Longrightarrow> d \<noteq> [] \<and> length d \<le> recv_buffer_size"
proof -
  have "greeting_bytes \<noteq> []" by (simp add: greeting_bytes_def)
  then show "d \<in> set [greeting_bytes] \<Longrightarrow> d \<noteq> [] \<and> length d \<le> recv_buffer_size"
    using greeting_length by (simp add: recv_buffer_size_def)
qed

lemma greeting_sent:
  obtains c' where "conn_send_str started CHAT_MESSAGE (toJson greeting) = (c', True)"
    "sm_lookup (connections (broadcast (Some (replicate 16 0)) 0 ''hi'' met_session)) ''c1'' = Some c'"
    "sent c' = sent started @ concat [greeting_bytes]"
    "message_ok greeting" "length (toJson greeting) \<le> kMaxPayloadSize"
proof -
  from started_sends [OF greeting_length [unfolded greeting_bytes_def]]
  obtain c' where c': "conn_send started (create_frame_str CHAT_MESSAGE (toJson greeting)) = (c', True)" by blast
  show ?thesis
  proof (rule that)
    show "conn_send_str started CHAT_MESSAGE (toJson greeting) = (c', True)" using c' by (simp add: conn_send_str_def)
    show "sm_lookup (connections (broadcast (Some (replicate 16 0)) 0 ''hi'' met_session)) ''c1'' = Some c'"
      using c' by (simp add: broadcast_connections met_facts conn_send_str_def greeting_def)
    show "sent c' = sent started @ concat [greeting_bytes]"
      using conn_send_out [OF c'] by (auto simp: greeting_bytes_def)
    show "message_ok greeting" by (simp add: greeting_eval message_ok_def ends_in_backslash_def)
    show "length (toJson greeting) \<le> kMaxPayloadSize" using greeting_short by (simp add: kMaxPayloadSize_def)
  qed
qed


section \<open>From one keyboard to the other screen\<close>


definition greeting_terminal :: terminal where
  "greeting_terminal = (new_terminal Linux True sample_config met_session [] [])\<lparr>ui_pc := Ui_handle ''hi''\<rparr>"


lemma escapeJson_longer: "length s \<le> length (escapeJson s)"
  by (induction s) (auto simp: escapeJson_def escape_char_def)

text \<open>The sender does not check the length of a message: one longer than the payload limit
  is framed and sent like any other, and the reader of the receiver answers with the protocol
  violation that makes it drop the connection.\<close>

theorem long_message_violates:
  assumes "kMaxPayloadSize < length txt" and "length (toJson (own_message rnd t txt s)) < 2 ^ 32"
  shows "\<exists>r'. feed (new_reader kMaxPayloadSize)
      (serialize_frame (create_frame_str CHAT_MESSAGE (toJson (own_message rnd t txt s)))) = (r', Inl Payload_too_large)"
proof -
  let ?f = "create_frame_str CHAT_MESSAGE (toJson (own_message rnd t txt s))"
  have "length txt \<le> length (toJson (own_message rnd t txt s))"
    using escapeJson_longer [of "txt"] by (simp add: toJson_def own_message_def)
  with assms have "kMaxPayloadSize < unat (payloadLength (header ?f))"
    by (simp add: create_frame_str_def create_frame_def unat_of_nat)
  moreover have "deserialize_header (serialize_header (header ?f)) = Some (header ?f)"
    by (rule deserialize_serialize) (simp add: create_frame_str_def create_frame_def header_ok_def default_header_def)
  ultimately have "parse_stream kMaxPayloadSize (serialize_frame ?f) = ([], Some Payload_too_large, serialize_frame ?f)"
    by (subst parse_stream.simps) (simp add: serialize_frame_def Let_def)
  from feed_new(2) [OF this] show ?thesis .
qed

lemma escapeJson_replicate: "escapeJson (replicate n (CHR ''a'')) = replicate n (CHR ''a'')"
  by (induction n) (simp_all add: escapeJson_def escape_char_def)

theorem long_message_violates_witness:
  "\<exists>r'. feed (new_reader kMaxPayloadSize) (serialize_frame (create_frame_str CHAT_MESSAGE
      (toJson (own_message None 0 (replicate 70000 (CHR ''a'')) (new_session sample_config))))) = (r', Inl Payload_too_large)"
proof (rule long_message_violates)
  show "kMaxPayloadSize < length (replicate 70000 CHR ''a'')" by (simp add: kMaxPayloadSize_def)
  show "length (toJson (own_message None 0 (replicate 70000 CHR ''a'') (new_session sample_config))) < 2 ^ 32"
    by (simp add: toJson_def own_message_def escapeJson_replicate generateId_def new_session_def sample_config_def
        escapeJson_def escape_char_def str_pat_def int_pat_def int_to_string_def nat_to_string.simps)
qed

end
